(* ===== verification/Prelude.thy ===== *)
theory Prelude
  imports Main "HOL-Library.Word" "HOL-Library.List_Lexorder"
begin

text \<open>
  The vocabulary every component shares: byte strings, the Go builtins on slices that the
  sources use (\<^verbatim>\<open>copy\<close>, \<^verbatim>\<open>append\<close>, \<^verbatim>\<open>bytes.HasPrefix\<close>), fixed-width integer packing
  (\<^verbatim>\<open>encoding/binary\<close>, \<^verbatim>\<open>utils/serialize.go\<close>), the big-endian byte form of \<^verbatim>\<open>*big.Int\<close>, and the
  result type \<^typ>\<open>'e + 'a\<close> with its sequencing operator.

  A Go slice is a list, \<^verbatim>\<open>nil\<close> and the empty slice are the same list, and a lookup that may
  answer \<^verbatim>\<open>nil\<close> is an option.  A \<^verbatim>\<open>uint64\<close> is a 64-bit word (arithmetic wraps), a \<^verbatim>\<open>*big.Int\<close>
  an \<^typ>\<open>int\<close>.
\<close>

unbundle bit_operations_syntax

type_synonym byte = "8 word"
type_synonym bytes = "8 word list"
type_synonym u64 = "64 word"

named_theorems go_simps "evaluation rules of the Go builtins on slices"
named_theorems result_simps "rules for the sequencing of fallible calls"

subsection \<open>Errors\<close>

text \<open>The error values the sources declare with \<^verbatim>\<open>errors.New\<close>, under their names; \<open>ErrMsg\<close> stands
  for an anonymous \<^verbatim>\<open>fmt.Errorf\<close> and \<open>Panic\<close> for a run-time panic.  \<open>NestingExhausted\<close> is no error of
  the sources: it marks a nesting bound of the model that is shown never to be reached.\<close>

datatype (plugins only: code) error =
    Panic | ErrKeyNotFound | ErrUnknownStateDomain | ErrNetworkInvalid | ErrAddressLenInvalid
  | ErrSchemeUnknown | ErrKeyInvalid | ErrHashSize | ErrRewardInvalid | ErrTxSignInvalid
  | ErrTxUnsigned | ErrInvalidPublicKey | ErrTxNoHeader | ErrTxTypeInvalid | ErrTxToInvalid
  | ErrTxValueInvalid | ErrTxFeeInvalid | ErrTxFeeBelowBaseFee | ErrTxHeightInvalid
  | ErrTxExtraInvalid | ErrTxExtraExcess | ErrCommitExtraInvalid | ErrCommitHashInvalid
  | ErrCommitFeeInvalid | ErrCommitHeightInvalid | ErrCommitUnsigned | ErrCommitSignInvalid
  | ErrBlockNoGen | ErrBlockOnlyOneGen | ErrBlockNoHeader | ErrBlockDiffInvalid
  | ErrBlockPrevHashInvalid | ErrBlockTxTrieHashInvalid | ErrBlockWitnessRootInvalid
  | ErrBlockTxsExcess | ErrBlockBytesExcess | ErrBlockTimestampInvalid | ErrBlockNotSealed
  | ErrBlockDuplicateTx | ErrBlockDuplicateCommit | ErrBlockCommitsExcess | ErrBlockUnclesInvalid
  | ErrBlockStateRootInvalid | ErrBlockBaseFeeInvalid | ErrBlockSealBare | ErrInvalidNonce
  | ErrBlockTimeNotMonotonic | ErrTxrBalanceInsufficient | ErrSnapshotNofFound | ErrSourceTooLarge
  | ErrImmutable | ErrTxNotCommitted | ErrCommitTooRecent | ErrCommitExpired
  | ErrCommitUnaffordable | ErrCommitDuplicate | ErrSaltTooShort | ErrNothingToDestroy
  | ErrTxUnauthorized | ErrStorageDeposit | ErrDepNotActive | ErrDepSelf | ErrDepLimit
  | ErrContractRefdBy | ErrDepInvalidImport | ErrArchiveDisabled | ErrServiceReentry
  | ErrServiceBadExport | ErrOutOfMem | ErrExportedFuncNotFound | ErrTollOverflow
  | ErrReorgBelowOrigin | ErrReorgBeyondFinality | ErrUncleInvalid | ErrBranchNotHeavier
  | ErrSheetMismatch | ErrDBNotInit | ErrMalformedGenesisBlock | ErrPutEmptyBlock | ErrBranchEmpty
  | ErrBranchDisconnected | ErrBranchDetached | ErrBlockHeightConflict | ErrPrevBlockNotExist
  | ErrCommitInvalidHeight | ErrTxInvalidHeight | ErrPoolFull | ErrTxFeeTooLow | ErrTxFeeBelowFloor
  | ErrNotEffectTx | NestingExhausted
  | ErrMsg string

subsection \<open>Slices\<close>

text \<open>\<^verbatim>\<open>make([]byte, n)\<close>.\<close>

definition zeros :: "nat \<Rightarrow> bytes" where
  "zeros n = replicate n 0"

text \<open>\<^verbatim>\<open>copy(dst[i:], src)\<close>: as many bytes of \<^verbatim>\<open>src\<close> as fit behind position \<open>i\<close>.\<close>

definition copy_at :: "nat \<Rightarrow> bytes \<Rightarrow> bytes \<Rightarrow> bytes" where
  "copy_at i src dst =
     take i dst @ take (length dst - i) src @ drop (i + min (length src) (length dst - i)) dst"

text \<open>\<^verbatim>\<open>bytes.HasPrefix(s, p)\<close>.\<close>

definition has_prefix :: "bytes \<Rightarrow> bytes \<Rightarrow> bool" where
  "has_prefix s p \<longleftrightarrow> take (length p) s = p"

subsection \<open>Integers as bytes\<close>

text \<open>\<^verbatim>\<open>binary.LittleEndian.PutUint64\<close> and its inverse (\<^verbatim>\<open>utils.PackUint64LE\<close>,
  \<^verbatim>\<open>utils.UnpackUint64LE\<close>), and the big-endian variants.  Reading fewer bytes than the width
  panics in Go and is \<open>None\<close> here.\<close>

definition PackUint64LE :: "u64 \<Rightarrow> bytes" where
  "PackUint64LE n = map (\<lambda>i. ucast (drop_bit (8 * i) n)) [0..<8]"

definition unpack_le :: "bytes \<Rightarrow> nat" where
  "unpack_le b = foldr (\<lambda>x acc. unat x + 256 * acc) b 0"

definition UnpackUint64LE :: "bytes \<Rightarrow> u64 option" where
  "UnpackUint64LE b = (if length b < 8 then None else Some (of_nat (unpack_le (take 8 b))))"

definition PutUint64BE :: "u64 \<Rightarrow> bytes" where
  "PutUint64BE n = rev (PackUint64LE n)"

definition Uint64BE :: "bytes \<Rightarrow> u64 option" where
  "Uint64BE b = (if length b < 8 then None else Some (of_nat (unpack_le (rev (take 8 b)))))"

definition PutUint16BE :: "nat \<Rightarrow> bytes" where
  "PutUint16BE n = [of_nat (n div 256), of_nat n]"

text \<open>\<^verbatim>\<open>(*big.Int).Bytes\<close>: the minimal big-endian form of the absolute value; \<^verbatim>\<open>SetBytes\<close> reads
  any big-endian string as a non-negative number.\<close>

fun le_digits :: "nat \<Rightarrow> bytes" where
  "le_digits n = (if n = 0 then [] else of_nat (n mod 256) # le_digits (n div 256))"

definition bigBytes :: "int \<Rightarrow> bytes" where
  "bigBytes x = rev (le_digits (nat \<bar>x\<bar>))"

definition SetBytes :: "bytes \<Rightarrow> int" where
  "SetBytes b = int (unpack_le (rev b))"

text \<open>\<^verbatim>\<open>utils.ReverseBytes\<close>: the in-place swap loop over a copy of the slice, written as the swap of
  the positions \<open>i < j\<close> until they meet.\<close>

function swap_ends :: "nat \<Rightarrow> nat \<Rightarrow> bytes \<Rightarrow> bytes" where
  "swap_ends i j b = (if i < j then swap_ends (i + 1) (j - 1) (b[i := b ! j, j := b ! i]) else b)"
  by pat_completeness auto
termination
  by (relation "measure (\<lambda>(i, j, b). j - i)") auto

declare swap_ends.simps [simp del]
declare le_digits.simps [simp del]

definition ReverseBytes :: "bytes \<Rightarrow> bytes" where
  "ReverseBytes b = swap_ends 0 (length b - 1) b"

subsection \<open>Fallible calls\<close>

text \<open>\<^verbatim>\<open>if err != nil { return err }\<close>: the first error wins.\<close>

primrec bind_result :: "'e + 'a \<Rightarrow> ('a \<Rightarrow> 'e + 'b) \<Rightarrow> 'e + 'b" where
  "bind_result (Inl e) f = Inl e"
| "bind_result (Inr x) f = f x"

text \<open>\<^verbatim>\<open>if cond { return err }\<close>.\<close>

definition guard_result :: "bool \<Rightarrow> 'e \<Rightarrow> 'e + unit" where
  "guard_result ok e = (if ok then Inr () else Inl e)"

text \<open>A loop over a slice that stops at the first error.\<close>

primrec foldM :: "('s \<Rightarrow> 'x \<Rightarrow> 'e + 's) \<Rightarrow> 'x list \<Rightarrow> 's \<Rightarrow> 'e + 's" where
  "foldM f [] s = Inr s"
| "foldM f (x # xs) s = bind_result (f s x) (foldM f xs)"

subsection \<open>Lemmas on slices\<close>

lemma length_zeros [simp]: "length (zeros n) = n"
  by (simp add: zeros_def)

lemma nth_zeros [simp]: "i < n \<Longrightarrow> zeros n ! i = 0"
  by (simp add: zeros_def)

lemma length_copy_at [simp]: "i \<le> length dst \<Longrightarrow> length (copy_at i src dst) = length dst"
  by (simp add: copy_at_def min_def)

lemma copy_at_all:
  "i + length src = length dst \<Longrightarrow> copy_at i src dst = take i dst @ src"
  by (simp add: copy_at_def min_def)

lemma tagged_buf: "copy_at 1 b ((zeros (1 + length b))[0 := t]) = t # b"
  by (simp add: copy_at_def zeros_def)

lemma has_prefix_append [simp]: "has_prefix (p @ s) p"
  by (simp add: has_prefix_def)

lemma has_prefixE: "has_prefix s p \<Longrightarrow> (\<And>t. s = p @ t \<Longrightarrow> P) \<Longrightarrow> P"
  unfolding has_prefix_def by (metis append_take_drop_id)

lemma has_prefix_append_iff:
  "length p = length q \<Longrightarrow> has_prefix (q @ s) p \<longleftrightarrow> p = q"
  by (auto simp: has_prefix_def)

subsection \<open>Lemmas on packed integers\<close>

lemma length_PackUint64LE [simp]: "length (PackUint64LE n) = 8"
  by (simp add: PackUint64LE_def)

lemma length_PutUint64BE [simp]: "length (PutUint64BE n) = 8"
  by (simp add: PutUint64BE_def)

lemma unpack_le_Nil [simp]: "unpack_le [] = 0"
  and unpack_le_Cons [simp]: "unpack_le (x # xs) = unat x + 256 * unpack_le xs"
  by (simp_all add: unpack_le_def)

lemma unat_ucast_byte: "unat (ucast (w :: 64 word) :: 8 word) = unat w mod 256"
  by (simp add: unsigned_ucast_eq take_bit_nat_def)

lemma unat_drop_bit_byte: "unat (drop_bit k (w :: 64 word)) = unat w div 2 ^ k"
proof -
  have "take_bit 64 (unat w) = unat w"
    using unsigned_less [of w, where 'a = nat] by (simp add: take_bit_nat_eq_self)
  then show ?thesis
    by (simp add: unsigned_drop_bit_eq drop_bit_eq_div [symmetric])
qed

lemma unpack_pack_nat:
  "unpack_le (map (\<lambda>i. ucast (drop_bit (8 * i) (n :: u64))) [j..<j + k]) = (unat n div 2 ^ (8 * j)) mod 2 ^ (8 * k)"
proof (induction k arbitrary: j)
  case (Suc k)
  let ?m = "unat n div 2 ^ (8 * j)"
  have div: "unat n div 2 ^ (8 * Suc j) = ?m div 256"
    by (simp add: power_add div_mult2_eq [symmetric] mult.commute)
  have "[j..<j + Suc k] = j # [Suc j..<Suc j + k]"
    by (simp add: upt_conv_Cons)
  then have "unpack_le (map (\<lambda>i. ucast (drop_bit (8 * i) n)) [j..<j + Suc k])
      = ?m mod 256 + 256 * (?m div 256 mod 2 ^ (8 * k))"
    using Suc.IH [of "Suc j"] div by (simp add: unat_ucast_byte unat_drop_bit_byte)
  also have "\<dots> = ?m mod (256 * 2 ^ (8 * k))"
    by (simp add: mod_mult2_eq)
  finally show ?case
    by (simp add: power_add)
qed simp

lemma UnpackUint64LE_Pack [simp]: "UnpackUint64LE (PackUint64LE n @ s) = Some n"
proof -
  have "unpack_le (PackUint64LE n) = unat n mod 2 ^ 64"
    using unpack_pack_nat [of n 0 8] by (simp add: PackUint64LE_def)
  then show ?thesis
    using unsigned_less [of n, where 'a = nat] by (simp add: UnpackUint64LE_def)
qed

lemma PackUint64LE_inject [simp]: "PackUint64LE m = PackUint64LE n \<longleftrightarrow> m = n"
  using UnpackUint64LE_Pack [of m "[]"] UnpackUint64LE_Pack [of n "[]"] by fastforce

lemma PackUint64LE_append_inject [simp]:
  "PackUint64LE m @ s = PackUint64LE n @ t \<longleftrightarrow> m = n \<and> s = t"
  by (metis append_eq_append_conv length_PackUint64LE PackUint64LE_inject)

lemma PutUint64BE_inject [simp]: "PutUint64BE m = PutUint64BE n \<longleftrightarrow> m = n"
  by (simp add: PutUint64BE_def)

lemma unpack_le_digits [simp]: "unpack_le (le_digits n) = n"
proof (induction n rule: le_digits.induct)
  case (1 n)
  then show ?case
    by (subst le_digits.simps) (simp add: unsigned_of_nat take_bit_nat_def)
qed

lemma SetBytes_bigBytes [simp]: "SetBytes (bigBytes x) = \<bar>x\<bar>"
  by (simp add: SetBytes_def bigBytes_def)

lemma SetBytes_nonneg [simp]: "0 \<le> SetBytes b"
  by (simp add: SetBytes_def)

lemma bigBytes_eq_Nil [simp]: "bigBytes x = [] \<longleftrightarrow> x = 0"
  unfolding bigBytes_def by (subst le_digits.simps) auto

lemma bigBytes_zero [simp]: "bigBytes 0 = []"
  by simp

lemma SetBytes_Nil [simp]: "SetBytes [] = 0"
  by (simp add: SetBytes_def)

lemma length_swap_ends: "length (swap_ends i j b) = length b"
  by (induction i j b rule: swap_ends.induct) (subst swap_ends.simps, simp)

lemma nth_swap_ends:
  "j < length b \<Longrightarrow> k < length b \<Longrightarrow>
   swap_ends i j b ! k = (if i \<le> k \<and> k \<le> j \<and> i < j then b ! (i + j - k) else b ! k)"
proof (induction i j b rule: swap_ends.induct)
  case (1 i j b)
  show ?case
  proof (cases "i < j")
    case True
    have ij: "Suc i + (j - Suc 0) = i + j" using True by simp
    have "swap_ends i j b ! k = swap_ends (i + 1) (j - 1) (b[i := b ! j, j := b ! i]) ! k"
      using True by (subst swap_ends.simps) simp
    also have "\<dots> = (if i \<le> k \<and> k \<le> j then b ! (i + j - k) else b ! k)"
      using 1 True by (auto simp: nth_list_update ij intro: arg_cong [of _ _ "(!) b"])
    finally show ?thesis using True by simp
  qed (subst swap_ends.simps, simp)
qed

lemma ReverseBytes_rev: "ReverseBytes b = rev b"
proof (rule nth_equalityI)
  show "length (ReverseBytes b) = length (rev b)"
    by (simp add: ReverseBytes_def length_swap_ends)
next
  fix k
  assume "k < length (ReverseBytes b)"
  then have k: "k < length b" by (simp add: ReverseBytes_def length_swap_ends)
  then have "length b - 1 < length b" by simp
  from nth_swap_ends [OF this k, of 0] k show "ReverseBytes b ! k = rev b ! k"
    by (cases "length b = 1") (auto simp: ReverseBytes_def rev_nth intro: arg_cong [of _ _ "(!) b"])
qed

subsection \<open>Lemmas on fallible calls\<close>

lemma bind_result_Inr_iff [result_simps]:
  "bind_result r f = Inr y \<longleftrightarrow> (\<exists>x. r = Inr x \<and> f x = Inr y)"
  by (cases r) auto

lemma bind_result_split:
  "P (bind_result r f) \<longleftrightarrow> (\<forall>e. r = Inl e \<longrightarrow> P (Inl e)) \<and> (\<forall>x. r = Inr x \<longrightarrow> P (f x))"
  by (cases r) auto

lemma guard_result_Inr_iff [result_simps]: "guard_result ok e = Inr u \<longleftrightarrow> ok"
  by (simp add: guard_result_def)

lemma guard_result_True [simp]: "guard_result True e = Inr ()"
  by (simp add: guard_result_def)

lemma guard_result_False [simp]: "guard_result False e = Inl e"
  by (simp add: guard_result_def)

lemma foldM_append:
  "foldM f (xs @ ys) s = bind_result (foldM f xs s) (foldM f ys)"
proof (induction xs arbitrary: s)
  case (Cons x xs)
  then show ?case by (cases "f s x") simp_all
qed simp

text \<open>The invariant rule of an error-propagating loop.\<close>

lemma foldM_invariant:
  assumes "foldM f xs s = Inr s'" and "I s"
    and "\<And>x s s'. x \<in> set xs \<Longrightarrow> I s \<Longrightarrow> f s x = Inr s' \<Longrightarrow> I s'"
  shows "I s'"
  using assms
proof (induction xs arbitrary: s)
  case (Cons x xs)
  then obtain t where t: "f s x = Inr t" "foldM f xs t = Inr s'"
    by (auto simp: result_simps)
  then have "I t" using Cons.prems by auto
  with t Cons show ?case by auto
qed simp

end
