(* ===== verification/Params.thy ===== *)
theory Params
  imports Prelude Complex_Main
begin

text \<open>
  The consensus parameters of \<^verbatim>\<open>ngtypes\<close> that depend on nothing but the network and the height:
  the constants of \<^verbatim>\<open>defaults.go\<close>, \<^verbatim>\<open>network.go\<close>, the fork schedule of \<^verbatim>\<open>forks.go\<close>, the reward curve
  of \<^verbatim>\<open>reward_curve.go\<close>, the base-fee rule of \<^verbatim>\<open>feemarket.go\<close> and the storage-deposit constants of
  \<^verbatim>\<open>staterent.go\<close>.  The lemmas bound the reward and the base fee and show that the active fork does
  not depend on the iteration order of the schedule map.
\<close>

section \<open>Definitions\<close>

subsection \<open>Constants\<close>

definition minimumDifficulty :: int where "minimumDifficulty = 200 * 2 ^ 4"
definition TargetTime_ms :: int where "TargetTime_ms = 4000"
definition BlockCheckRound :: nat where "BlockCheckRound = 10"
definition MaxUncles :: nat where "MaxUncles = 2"
definition UncleMaxDepth :: u64 where "UncleMaxDepth = 30"
definition TimestampDriftTolerance :: u64 where "TimestampDriftTolerance = 15000"
definition MatureHeight :: u64 where "MatureHeight = 100"
definition MaxBlockTxCount :: nat where "MaxBlockTxCount = 512"
definition MaxBlockBytes :: nat where "MaxBlockBytes = 2 ^ 23"
definition MaxBlockGas :: u64 where "MaxBlockGas = 2 ^ 27"
definition MaxContractSourceSize :: nat where "MaxContractSourceSize = 256 * 2 ^ 10"
definition CommitWindow :: u64 where "CommitWindow = 3"
definition MaxBlockCommitCount :: nat where "MaxBlockCommitCount = MaxBlockTxCount"
definition MinSaltSize :: nat where "MinSaltSize = 16"
definition MaxTarget :: int where "MaxTarget = SetBytes (replicate 32 255)"
definition TxMaxExtraSize :: nat where "TxMaxExtraSize = 2 ^ 20"
definition TimestampSize :: nat where "TimestampSize = 8"
definition DiffSize :: nat where "DiffSize = 32"
definition NonceSize :: nat where "NonceSize = 8"
definition AddressSize :: nat where "AddressSize = 32"
definition NG :: int where "NG = 1000000000000000000"

definition GetEmptyHash :: bytes where
  "GetEmptyHash = zeros 32"

type_synonym Network = byte

definition ZERONET :: Network where "ZERONET = 0"
definition TESTNET :: Network where "TESTNET = 1"
definition MAINNET :: Network where "MAINNET = 2"

lemmas network_defs = ZERONET_def TESTNET_def MAINNET_def

definition ParseNetwork :: "string \<Rightarrow> error + Network" where
  "ParseNetwork netName =
     (if netName = ''ZERONET'' then Inr ZERONET
      else if netName = ''TESTNET'' then Inr TESTNET
      else if netName = ''MAINNET'' then Inr MAINNET
      else Inl ErrNetworkInvalid)"

definition Network_String :: "Network \<Rightarrow> error + string" where
  "Network_String net =
     (if net = ZERONET then Inr ''ZERONET''
      else if net = TESTNET then Inr ''TESTNET''
      else if net = MAINNET then Inr ''MAINNET''
      else Inl Panic)"

definition GetGenesisGenerateTxSignature :: "Network \<Rightarrow> error + bytes" where
  "GetGenesisGenerateTxSignature network =
     (if network = TESTNET \<or> network = ZERONET then Inr (zeros 64) else Inl Panic)"

definition GetGenesisBlockNonce :: "Network \<Rightarrow> error + bytes" where
  "GetGenesisBlockNonce network =
     (if network = ZERONET \<or> network = TESTNET then Inr (zeros 8) else Inl Panic)"

text \<open>24 October 2020 00:00:00 and 11 November 2020 11:11:11 UTC, in Unix milliseconds.\<close>

definition GetGenesisTimestamp :: "Network \<Rightarrow> error + u64" where
  "GetGenesisTimestamp network =
     (if network = ZERONET then Inr 1603497600000
      else if network = TESTNET then Inr 1605093071000
      else Inl Panic)"

definition GetMatureHeight :: "u64 \<Rightarrow> u64" where
  "GetMatureHeight currentHeight =
     (if currentHeight < MatureHeight then 0 else currentHeight div MatureHeight * MatureHeight)"

subsection \<open>Fork schedule\<close>

type_synonym Fork = "16 word"

definition ForkGenesis :: Fork where "ForkGenesis = 0"
definition ForkFeeMarket :: Fork where "ForkFeeMarket = 1"
definition ForkStateRent :: Fork where "ForkStateRent = 2"
definition ForkRandomBeacon :: Fork where "ForkRandomBeacon = 3"

definition FeeMarketForkHeight :: u64 where "FeeMarketForkHeight = 0"
definition StateRentForkHeight :: u64 where "StateRentForkHeight = 0"
definition RandomBeaconForkHeight :: u64 where "RandomBeaconForkHeight = 0"
definition NoFork :: u64 where "NoFork = - 1"

definition forkSchedule :: "(Network \<times> (Fork \<times> u64) list) list" where
  "forkSchedule =
     [(ZERONET, [(ForkFeeMarket, FeeMarketForkHeight), (ForkStateRent, StateRentForkHeight),
                 (ForkRandomBeacon, RandomBeaconForkHeight)]),
      (TESTNET, [(ForkFeeMarket, FeeMarketForkHeight), (ForkStateRent, StateRentForkHeight),
                 (ForkRandomBeacon, RandomBeaconForkHeight)]),
      (MAINNET, [(ForkFeeMarket, NoFork), (ForkStateRent, NoFork), (ForkRandomBeacon, NoFork)])]"

definition ForkHeight :: "Network \<Rightarrow> Fork \<Rightarrow> u64" where
  "ForkHeight net f =
     (if f = ForkGenesis then 0
      else case map_of forkSchedule net of
             None \<Rightarrow> NoFork
           | Some netSchedule \<Rightarrow> (case map_of netSchedule f of Some h \<Rightarrow> h | None \<Rightarrow> NoFork))"

definition IsForkActive :: "Network \<Rightarrow> Fork \<Rightarrow> u64 \<Rightarrow> bool" where
  "IsForkActive net f height =
     (let h = ForkHeight net f in if h = NoFork then False else height \<ge> h)"

text \<open>The loop of \<^verbatim>\<open>ActiveFork\<close> over the keys of the schedule, in some order.\<close>

definition active_over :: "Network \<Rightarrow> u64 \<Rightarrow> Fork list \<Rightarrow> Fork" where
  "active_over net height fs =
     foldl (\<lambda>active f. if f > active \<and> IsForkActive net f height then f else active) ForkGenesis fs"

definition scheduled_forks :: "Network \<Rightarrow> Fork list" where
  "scheduled_forks net = (case map_of forkSchedule net of None \<Rightarrow> [] | Some m \<Rightarrow> map fst m)"

definition ActiveFork :: "Network \<Rightarrow> u64 \<Rightarrow> Fork" where
  "ActiveFork net height = active_over net height (scheduled_forks net)"

definition targetTimeAt :: "Network \<Rightarrow> u64 \<Rightarrow> int" where
  "targetTimeAt net height = (let f = ActiveFork net height in TargetTime_ms)"

definition MinimumDiffOf :: "Network \<Rightarrow> int" where
  "MinimumDiffOf network = (if network = ZERONET then 1 else minimumDifficulty)"

subsection \<open>Rewards\<close>

definition rewardEra :: u64 where "rewardEra = 1000000"
definition minReward :: int where "minReward = NG * 2"
definition floatingReward :: int where "floatingReward = NG * (10 - 2)"

primrec decay :: "nat \<Rightarrow> int \<Rightarrow> int" where
  "decay 0 reward = reward"
| "decay (Suc i) reward = decay i (reward - reward div 10)"

definition GetBlockReward :: "u64 \<Rightarrow> int" where
  "GetBlockReward height =
     (let era = height div rewardEra in decay (unat era) floatingReward + minReward)"

definition UncleReward :: "u64 \<Rightarrow> u64 \<Rightarrow> int" where
  "UncleReward uncleHeight nephewHeight =
     (if nephewHeight \<le> uncleHeight then 0
      else let depth = nephewHeight - uncleHeight
           in if depth > UncleMaxDepth then 0
              else let base = GetBlockReward uncleHeight;
                       num = sint (UncleMaxDepth + 1 - depth);
                       den = sint (UncleMaxDepth + 1)
                   in base * num div den)"

subsection \<open>Base fee\<close>

definition MinBaseFee :: int where "MinBaseFee = 10000000000"
definition BaseFeeTargetBytes :: u64 where "BaseFeeTargetBytes = of_nat (MaxBlockBytes div 2)"
definition BaseFeeMaxChangeDenom :: int where "BaseFeeMaxChangeDenom = 8"

definition clampMinBaseFee :: "int \<Rightarrow> int" where
  "clampMinBaseFee x = (if x < MinBaseFee then MinBaseFee else x)"

definition NextBaseFee :: "Network \<Rightarrow> u64 \<Rightarrow> int option \<Rightarrow> u64 \<Rightarrow> int" where
  "NextBaseFee net parentHeight parentBaseFee parentUsedBytes =
     (let childHeight = parentHeight + 1
      in if \<not> IsForkActive net ForkFeeMarket childHeight then MinBaseFee
         else let parent = (case parentBaseFee of None \<Rightarrow> MinBaseFee
                            | Some f \<Rightarrow> if f \<le> 0 then MinBaseFee else f);
                  target = BaseFeeTargetBytes;
                  targetBig = uint target
              in if parentUsedBytes = target then clampMinBaseFee parent
                 else if parentUsedBytes > target
                 then let delta = uint (parentUsedBytes - target) * parent div targetBig div BaseFeeMaxChangeDenom;
                          delta = (if delta = 0 then 1 else delta)
                      in clampMinBaseFee (parent + delta)
                 else let delta = uint (target - parentUsedBytes) * parent div targetBig div BaseFeeMaxChangeDenom
                      in clampMinBaseFee (parent - delta))"

subsection \<open>Storage deposit\<close>

definition DepositPerByte :: int where "DepositPerByte = 1000000000000"

definition storageDepositEscrowAddr :: bytes where
  "storageDepositEscrowAddr = map (\<lambda>_. 0x01) (zeros AddressSize)"

definition GenesisAddress :: bytes where
  "GenesisAddress = zeros AddressSize"

section \<open>Networks and forks\<close>

lemma ParseNetwork_String: "Network_String net = Inr s \<Longrightarrow> ParseNetwork s = Inr net"
  by (auto simp: Network_String_def ParseNetwork_def split: if_splits)

lemma IsForkActive_mono: "IsForkActive net f h \<Longrightarrow> h \<le> h' \<Longrightarrow> IsForkActive net f h'"
  by (auto simp: IsForkActive_def Let_def split: if_splits)

lemma foldl_active:
  "foldl (\<lambda>active f. if f > active \<and> A f then f else active) (a :: 'a :: linorder) fs
     = Max (insert a {f \<in> set fs. A f})"
proof (induction fs arbitrary: a)
  case (Cons f fs)
  have fin: "finite {x \<in> set fs. A x}" by simp
  show ?case
  proof (cases "A f")
    case True
    then have "{x \<in> set (f # fs). A x} = insert f {x \<in> set fs. A x}" by auto
    with True Cons fin show ?thesis
      by (cases "{x \<in> set fs. A x} = {}") (auto simp: Max_insert max_def)
  next
    case False
    then have "{x \<in> set (f # fs). A x} = {x \<in> set fs. A x}" by auto
    with False Cons show ?thesis by simp
  qed
qed simp

lemma active_over_Max:
  "active_over net h fs = Max (insert ForkGenesis {f \<in> set fs. IsForkActive net f h})"
  unfolding active_over_def by (rule foldl_active)

section \<open>Rewards\<close>

lemma decay_bounds: "0 \<le> r \<Longrightarrow> 0 \<le> decay n r \<and> decay n r \<le> r"
proof (induction n arbitrary: r)
  case (Suc n)
  have "0 \<le> r - r div 10" "r - r div 10 \<le> r" using Suc.prems by simp_all
  with Suc.IH [of "r - r div 10"] show ?case by simp
qed simp

lemma decay_Suc: "decay (Suc n) r = decay n r - decay n r div 10"
  by (induction n arbitrary: r) simp_all

lemma decay_antimono: "0 \<le> r \<Longrightarrow> m \<le> n \<Longrightarrow> decay n r \<le> decay m r"
proof (induction n)
  case (Suc n)
  have "0 \<le> decay n r div 10"
    using decay_bounds [OF Suc.prems(1), of n] by (simp add: pos_imp_zdiv_nonneg_iff)
  then have "decay (Suc n) r \<le> decay n r" by (simp only: decay_Suc)
  with Suc show ?case by (cases "m = Suc n") auto
qed simp

text \<open>The integer recurrence rounds up, so it stays less than ten base units above the real curve.\<close>

lemma decay_curve:
  "real_of_int r * (9 / 10) ^ n \<le> real_of_int (decay n r) \<and>
   real_of_int (decay n r) \<le> real_of_int r * (9 / 10) ^ n + 10 * (1 - (9 / 10) ^ n)"
proof (induction n)
  case (Suc n)
  let ?d = "decay n r"
  have div: "10 * (?d div 10) \<le> ?d" "?d < 10 * (?d div 10) + 10" by simp_all
  then have "real_of_int (10 * (?d div 10)) \<le> real_of_int ?d"
    and "real_of_int ?d < real_of_int (10 * (?d div 10) + 10)"
    by (simp_all only: of_int_le_iff of_int_less_iff)
  then have "9 / 10 * real_of_int ?d \<le> real_of_int (decay (Suc n) r)"
    and "real_of_int (decay (Suc n) r) \<le> 9 / 10 * real_of_int ?d + 1"
    by (simp_all add: decay_Suc del: decay.simps)
  with Suc.IH show ?case by (simp del: decay.simps)
qed simp

lemma GetBlockReward_bounds: "minReward \<le> GetBlockReward h \<and> GetBlockReward h \<le> 10 * NG"
  using decay_bounds [of floatingReward "unat (h div rewardEra)"]
  by (simp add: GetBlockReward_def Let_def minReward_def floatingReward_def NG_def)

text \<open>C31: the block reward follows the documented curve \<open>2 + 8 \<cdot> 0.9^era\<close> NG: the integer computation
  is never below it and less than ten base units (\<open>10 \<cdot> 10^-18\<close> NG) above it, at every height.\<close>

theorem GetBlockReward_curve:
  "real_of_int minReward + real_of_int floatingReward * (9 / 10) ^ unat (h div rewardEra)
     \<le> real_of_int (GetBlockReward h) \<and>
   real_of_int (GetBlockReward h)
     < real_of_int minReward + real_of_int floatingReward * (9 / 10) ^ unat (h div rewardEra) + 10"
proof -
  define x :: real where "x = (9 / 10) ^ unat (h div rewardEra)"
  have "0 < x" by (simp add: x_def)
  then show ?thesis
    using decay_curve [of floatingReward "unat (h div rewardEra)", folded x_def]
    unfolding GetBlockReward_def Let_def x_def [symmetric] of_int_add
    by (simp only: right_diff_distrib) linarith
qed

section \<open>Base fee\<close>

lemma clampMinBaseFee_max: "clampMinBaseFee x = max MinBaseFee x"
  by (simp add: clampMinBaseFee_def max_def)

lemma target_bytes: "uint BaseFeeTargetBytes = 4194304" "BaseFeeTargetBytes = 4194304"
  by (simp_all add: BaseFeeTargetBytes_def MaxBlockBytes_def)

lemma MaxBlockBytes_int: "int MaxBlockBytes = 8388608"
  by (simp add: MaxBlockBytes_def)

lemma base_fee_delta:
  fixes p k :: int
  assumes "0 \<le> p" "0 \<le> k" "k \<le> 4194304"
  shows "0 \<le> k * p div 4194304 div 8" and "k * p div 4194304 div 8 \<le> p div 8"
proof -
  have "k * p \<le> 4194304 * p" using assms by (intro mult_right_mono) simp_all
  then have "k * p div 4194304 \<le> 4194304 * p div 4194304" by (rule zdiv_mono1) simp
  then have "k * p div 4194304 \<le> p" by simp
  then show "k * p div 4194304 div 8 \<le> p div 8" by (rule zdiv_mono1) simp
  show "0 \<le> k * p div 4194304 div 8" using assms by (simp add: pos_imp_zdiv_nonneg_iff)
qed

lemma ForkFeeMarket_active: "IsForkActive net ForkFeeMarket h \<longleftrightarrow> net = ZERONET \<or> net = TESTNET"
  by (auto simp: IsForkActive_def ForkHeight_def forkSchedule_def network_defs ForkFeeMarket_def
      ForkStateRent_def ForkRandomBeacon_def ForkGenesis_def NoFork_def FeeMarketForkHeight_def Let_def)

lemma NextBaseFee_active:
  assumes "IsForkActive net ForkFeeMarket (h + 1)" "0 < f"
  shows "NextBaseFee net h (Some f) used =
    (if used = BaseFeeTargetBytes then max MinBaseFee f
     else if used > BaseFeeTargetBytes
     then max MinBaseFee (f + max 1 ((uint used - 4194304) * f div 4194304 div 8))
     else max MinBaseFee (f - (4194304 - uint used) * f div 4194304 div 8))"
proof -
  have up: "uint (used - BaseFeeTargetBytes) = uint used - 4194304" if "used > BaseFeeTargetBytes"
    using that by (simp add: target_bytes word_less_alt uint_minus_simple_alt [THEN iffD1] word_le_def)
  have down: "uint (BaseFeeTargetBytes - used) = 4194304 - uint used" if "\<not> used > BaseFeeTargetBytes"
    using that by (simp add: target_bytes uint_minus_simple_alt [THEN iffD1] word_le_def not_less)
  have "0 \<le> (uint used - 4194304) * f div 4194304 div 8" if "used > BaseFeeTargetBytes"
    using that assms(2) by (simp add: target_bytes word_less_alt pos_imp_zdiv_nonneg_iff)
  with assms up down show ?thesis
    by (auto simp: NextBaseFee_def Let_def clampMinBaseFee_max BaseFeeMaxChangeDenom_def target_bytes)
qed

text \<open>C30: the base-fee rule. On a network where the fee market is active, from a parent fee at or above
  the floor and a parent block within the size cap, the next base fee stays at or above the floor, moves
  by at most one eighth (at least one unit upwards), rises strictly when the parent used more than the
  target, is unchanged exactly at the target and never rises below it.\<close>

theorem NextBaseFee_step:
  assumes "IsForkActive net ForkFeeMarket (h + 1)" and "MinBaseFee \<le> f"
    and "unat used \<le> MaxBlockBytes"
  defines "next \<equiv> NextBaseFee net h (Some f) used"
  shows "MinBaseFee \<le> next \<and> f - f div 8 \<le> next \<and> next \<le> f + max 1 (f div 8)
    \<and> (used > BaseFeeTargetBytes \<longrightarrow> f < next)
    \<and> (used = BaseFeeTargetBytes \<longrightarrow> next = f)
    \<and> (used < BaseFeeTargetBytes \<longrightarrow> next \<le> f)"
proof -
  have f: "0 < f" using assms(2) by (simp add: MinBaseFee_def)
  have "int (unat used) \<le> int MaxBlockBytes" using assms(3) by (simp only: of_nat_le_iff)
  then have used: "0 \<le> uint used" "uint used \<le> 8388608" by (simp_all add: MaxBlockBytes_int)
  have mx: "max MinBaseFee (f + max 1 x) = f + max 1 x" for x
    using assms(2) max.cobounded1 [of 1 x] by (intro max_absorb2) linarith
  have eqn: "next = (if used = BaseFeeTargetBytes then f
     else if used > BaseFeeTargetBytes then f + max 1 ((uint used - 4194304) * f div 4194304 div 8)
     else max MinBaseFee (f - (4194304 - uint used) * f div 4194304 div 8))"
    unfolding next_def NextBaseFee_active [OF assms(1) f, of used]
    by (simp only: mx max_absorb2 [OF assms(2)])
  have up: "(uint used - 4194304) * f div 4194304 div 8 \<le> f div 8"
    and up0: "0 \<le> (uint used - 4194304) * f div 4194304 div 8" if "used > BaseFeeTargetBytes"
    using that base_fee_delta [of f "uint used - 4194304"] f used by (simp_all add: target_bytes word_less_alt)
  have down: "(4194304 - uint used) * f div 4194304 div 8 \<le> f div 8"
    and down0: "0 \<le> (4194304 - uint used) * f div 4194304 div 8" if "\<not> used > BaseFeeTargetBytes"
    using that base_fee_delta [of f "4194304 - uint used"] f used
    by (simp_all add: target_bytes word_less_alt not_less)
  have f8: "0 \<le> f div 8" using f by (simp add: pos_imp_zdiv_nonneg_iff)
  consider "used = BaseFeeTargetBytes" | "used > BaseFeeTargetBytes" | "used < BaseFeeTargetBytes"
    by (metis linorder_less_linear)
  then show ?thesis
  proof cases
    case 1
    then show ?thesis using eqn assms(2) f8 by simp
  next
    case 2
    define x where "x = (uint used - 4194304) * f div 4194304 div 8"
    have "next = f + max 1 x" "x \<le> f div 8" using 2 eqn up by (simp_all add: x_def)
    then have "f < next" "next \<le> f + max 1 (f div 8)" by linarith+
    moreover have "used \<noteq> BaseFeeTargetBytes" "\<not> used < BaseFeeTargetBytes" using 2 by (simp_all add: order.strict_implies_not_eq [symmetric] order.asym)
    ultimately show ?thesis using 2 assms(2) f8 by simp
  next
    case 3
    then have le: "\<not> used > BaseFeeTargetBytes" and ne: "used \<noteq> BaseFeeTargetBytes" by simp_all
    define x where "x = (4194304 - uint used) * f div 4194304 div 8"
    have "next = max MinBaseFee (f - x)" using le ne by (simp only: eqn x_def if_False)
    moreover have "x \<le> f div 8" "0 \<le> x" using down [OF le] down0 [OF le] by (simp_all only: x_def)
    ultimately have "MinBaseFee \<le> next" "f - f div 8 \<le> next" "next \<le> f" using assms(2) by linarith+
    with le ne f8 show ?thesis by simp
  qed
qed

theorem NextBaseFee_step_witness:
  "let next = NextBaseFee ZERONET 7 (Some (MinBaseFee + 800)) 5000000 in
    MinBaseFee \<le> next \<and> (MinBaseFee + 800) - (MinBaseFee + 800) div 8 \<le> next
    \<and> next \<le> (MinBaseFee + 800) + max 1 ((MinBaseFee + 800) div 8) \<and> MinBaseFee + 800 < next"
  using NextBaseFee_step [of ZERONET 7 "MinBaseFee + 800" 5000000]
  by (simp add: ForkFeeMarket_active MinBaseFee_def MaxBlockBytes_def target_bytes Let_def)

section \<open>Uncle rewards\<close>

lemma UncleReward_in_window:
  assumes "u < n" "n - u \<le> UncleMaxDepth"
  shows "UncleReward u n = GetBlockReward u * (31 - uint (n - u)) div 31"
proof -
  have le: "n - u \<le> 31" using assms(2) by (simp add: UncleMaxDepth_def word_le_def)
  have "sint (UncleMaxDepth + 1 - (n - u)) = 31 - uint (n - u)"
  proof -
    have "uint (31 - (n - u)) = 31 - uint (n - u)" using le by (simp add: uint_minus_simple_alt [THEN iffD1])
    moreover have "sint (31 - (n - u)) = uint (31 - (n - u))"
    proof -
      have "(2 :: int) ^ 63 = 9223372036854775808" "uint (n - u) \<le> 31" using le by (simp_all add: word_le_def)
      then have "- (2 ^ 63) \<le> 31 - uint (n - u)" "31 - uint (n - u) < 2 ^ 63"
        using uint_ge_0 [of "n - u"] by linarith+
      with calculation show ?thesis
        by (subst sint_uint) (simp add: signed_take_bit_int_eq_self)
    qed
    ultimately show ?thesis by (simp add: UncleMaxDepth_def)
  qed
  moreover have "sint (UncleMaxDepth + 1) = 31" by (simp add: UncleMaxDepth_def)
  ultimately show ?thesis using assms by (simp add: UncleReward_def Let_def)
qed

lemma div31: "31 * (a div 31) \<le> a" "a < 31 * (a div 31 + 1)" for a :: int
  by presburger+


end
