(* ===== verification/Statetrie.thy ===== *)
theory Statetrie
  imports Prelude
begin

text \<open>
  \<^verbatim>\<open>statetrie/statetrie.go\<close>: the consensus state commitment, a 256-level sparse binary Merkle tree.
  The hash \<^verbatim>\<open>utils.Hash256\<close> (BLAKE3, third party) is the parameter \<open>H\<close>; the Go interface
  \<^verbatim>\<open>NodeStore\<close> is a record of its three methods over a store type.  The theory defines the
  operations as the code has them, then a reference tree (\<open>subtree\<close>) over a map from paths to
  value hashes, and shows that \<open>Update\<close> keeps the store equal to the canonical representation of
  that map, that \<open>Root\<close> is the reference root, and that \<open>Prove\<close> and \<open>Verify\<close> are complete and
  sound up to an explicit hash collision.
\<close>

section \<open>Definitions\<close>

definition HashSize :: nat where "HashSize = 32"
definition Depth :: nat where "Depth = 256"

definition DomainBalance :: byte where "DomainBalance = 0x01"
definition DomainKey :: byte where "DomainKey = 0x02"
definition DomainContract :: byte where "DomainContract = 0x03"
definition DomainCommit :: byte where "DomainCommit = 0x04"
definition DomainBeacon :: byte where "DomainBeacon = 0x05"

definition leafTag :: byte where "leafTag = 0x00"
definition internalTag :: byte where "internalTag = 0x01"

text \<open>The \<^verbatim>\<open>init\<close> loop: \<open>defaults H h\<close> is the hash of an empty subtree of height \<open>h\<close>.\<close>

primrec defaults :: "(bytes \<Rightarrow> bytes) \<Rightarrow> nat \<Rightarrow> bytes" where
  "defaults H 0 = zeros HashSize"
| "defaults H (Suc h) =
     (let buf = (zeros (1 + 2 * HashSize))[0 := internalTag];
          buf = copy_at 1 (defaults H h) buf;
          buf = copy_at (1 + HashSize) (defaults H h) buf
      in copy_at 0 (H buf) (zeros HashSize))"

definition EmptyRoot :: "(bytes \<Rightarrow> bytes) \<Rightarrow> bytes" where
  "EmptyRoot H = copy_at 0 (defaults H Depth) (zeros HashSize)"

record 's NodeStore =
  nsGet :: "'s \<Rightarrow> bytes \<Rightarrow> bytes option"
  nsPut :: "'s \<Rightarrow> bytes \<Rightarrow> bytes \<Rightarrow> error + 's"
  nsDelete :: "'s \<Rightarrow> bytes \<Rightarrow> error + 's"

text \<open>\<^verbatim>\<open>MemStore\<close>: a Go map; \<open>NewMemStore\<close> is the empty one.\<close>

type_synonym MemStore = "bytes \<rightharpoonup> bytes"

definition NewMemStore :: MemStore where
  "NewMemStore = (\<lambda>_. None)"

definition MemStore_Get :: "MemStore \<Rightarrow> bytes \<Rightarrow> bytes option" where
  "MemStore_Get s key = s key"

definition MemStore_Put :: "MemStore \<Rightarrow> bytes \<Rightarrow> bytes \<Rightarrow> error + MemStore" where
  "MemStore_Put s key val = Inr (s(key \<mapsto> val))"

definition MemStore_Delete :: "MemStore \<Rightarrow> bytes \<Rightarrow> error + MemStore" where
  "MemStore_Delete s key = Inr (s(key := None))"

definition MemStore_ops :: "MemStore NodeStore" where
  "MemStore_ops = \<lparr>nsGet = MemStore_Get, nsPut = MemStore_Put, nsDelete = MemStore_Delete\<rparr>"

definition LeafPath :: "(bytes \<Rightarrow> bytes) \<Rightarrow> byte \<Rightarrow> bytes \<Rightarrow> bytes" where
  "LeafPath H domain rawKey =
     (let buf = (zeros (1 + length rawKey))[0 := domain]
      in H (copy_at 1 rawKey buf))"

definition ValueHash :: "(bytes \<Rightarrow> bytes) \<Rightarrow> bytes \<Rightarrow> bytes" where
  "ValueHash H encodedValue = H encodedValue"

definition ZeroHash :: bytes where
  "ZeroHash = zeros HashSize"

fun isZero :: "bytes \<Rightarrow> bool" where
  "isZero [] = True"
| "isZero (c # b) = (if c \<noteq> 0 then False else isZero b)"

text \<open>The 65-byte buffers of \<^verbatim>\<open>leafHash\<close> and \<^verbatim>\<open>internalHash\<close>, shared with the collision argument.\<close>

definition node_buf :: "byte \<Rightarrow> bytes \<Rightarrow> bytes \<Rightarrow> bytes" where
  "node_buf tag a b =
     copy_at (1 + HashSize) b (copy_at 1 a ((zeros (1 + 2 * HashSize))[0 := tag]))"

definition leafHash :: "(bytes \<Rightarrow> bytes) \<Rightarrow> bytes \<Rightarrow> bytes \<Rightarrow> bytes" where
  "leafHash H path valueHash =
     (if isZero valueHash then zeros HashSize else H (node_buf leafTag path valueHash))"

definition internalHash :: "(bytes \<Rightarrow> bytes) \<Rightarrow> bytes \<Rightarrow> bytes \<Rightarrow> bytes" where
  "internalHash H left right = H (node_buf internalTag left right)"

definition pathBit :: "bytes \<Rightarrow> nat \<Rightarrow> byte" where
  "pathBit path i = drop_bit (7 - i mod 8) (path ! (i div 8)) AND 1"

definition nodeKey :: "nat \<Rightarrow> bytes \<Rightarrow> bytes" where
  "nodeKey depth path =
     (let key = copy_at 0 (PutUint16BE depth) (zeros (2 + HashSize));
          full = depth div 8;
          key = copy_at 2 (take full path) key;
          rm = depth mod 8
      in if rm \<noteq> 0 then key[2 + full := (path ! full) AND push_bit (8 - rm) 0xff] else key)"

definition siblingKey :: "nat \<Rightarrow> bytes \<Rightarrow> bytes" where
  "siblingKey depth path =
     (let key = nodeKey depth path; i = depth - 1
      in key[2 + i div 8 := (key ! (2 + i div 8)) XOR push_bit (7 - i mod 8) 1])"

definition getNode :: "(bytes \<Rightarrow> bytes) \<Rightarrow> 's NodeStore \<Rightarrow> 's \<Rightarrow> bytes \<Rightarrow> nat \<Rightarrow> bytes" where
  "getNode H ops store key height =
     (case nsGet ops store key of Some v \<Rightarrow> v | None \<Rightarrow> defaults H height)"

definition setNode ::
  "(bytes \<Rightarrow> bytes) \<Rightarrow> 's NodeStore \<Rightarrow> 's \<Rightarrow> bytes \<Rightarrow> nat \<Rightarrow> bytes \<Rightarrow> error + 's" where
  "setNode H ops store key height val =
     (if val = defaults H height then nsDelete ops store key else nsPut ops store key val)"

text \<open>The loop of \<^verbatim>\<open>Update\<close>, from \<^verbatim>\<open>depth\<close> down to 1.\<close>

fun update_loop ::
  "(bytes \<Rightarrow> bytes) \<Rightarrow> 's NodeStore \<Rightarrow> bytes \<Rightarrow> nat \<Rightarrow> bytes \<Rightarrow> 's \<Rightarrow> error + 's" where
  "update_loop H ops path 0 cur store = Inr store"
| "update_loop H ops path (Suc d) cur store =
     (let height = Depth - Suc d;
          sib = getNode H ops store (siblingKey (Suc d) path) height;
          cur = (if pathBit path d = 0 then internalHash H cur sib else internalHash H sib cur)
      in bind_result (setNode H ops store (nodeKey d path) (height + 1) cur)
           (update_loop H ops path d cur))"

text \<open>A path shorter than 32 bytes makes \<^verbatim>\<open>nodeKey(Depth, path)\<close> slice out of range.\<close>

definition Update ::
  "(bytes \<Rightarrow> bytes) \<Rightarrow> 's NodeStore \<Rightarrow> 's \<Rightarrow> bytes \<Rightarrow> bytes \<Rightarrow> error + 's" where
  "Update H ops store path valueHash =
     (if length path < HashSize then Inl Panic
      else let cur = leafHash H path valueHash
           in bind_result (setNode H ops store (nodeKey Depth path) 0 cur)
                (update_loop H ops path Depth cur))"

definition Root :: "(bytes \<Rightarrow> bytes) \<Rightarrow> 's NodeStore \<Rightarrow> 's \<Rightarrow> bytes" where
  "Root H ops store =
     copy_at 0 (getNode H ops store (nodeKey 0 (zeros HashSize)) Depth) (zeros HashSize)"

definition Prove :: "(bytes \<Rightarrow> bytes) \<Rightarrow> 's NodeStore \<Rightarrow> 's \<Rightarrow> bytes \<Rightarrow> error + bytes list" where
  "Prove H ops store path =
     (if length path < HashSize then Inl Panic
      else Inr (map (\<lambda>height. copy_at 0
                  (getNode H ops store (siblingKey (Depth - height) path) height) (zeros HashSize))
                [0..<Depth]))"

text \<open>The loop of \<^verbatim>\<open>Verify\<close>: fold the branch bottom-up; a sibling of the wrong length aborts.\<close>

fun verify_loop ::
  "(bytes \<Rightarrow> bytes) \<Rightarrow> bytes \<Rightarrow> nat \<Rightarrow> bytes list \<Rightarrow> bytes \<Rightarrow> bytes option" where
  "verify_loop H path height [] cur = Some cur"
| "verify_loop H path height (sib # proof) cur =
     (if length sib \<noteq> HashSize then None
      else let depth = Depth - height;
               cur = (if pathBit path (depth - 1) = 0 then internalHash H cur sib
                      else internalHash H sib cur)
           in verify_loop H path (height + 1) proof cur)"

definition Verify ::
  "(bytes \<Rightarrow> bytes) \<Rightarrow> bytes \<Rightarrow> bytes \<Rightarrow> bytes \<Rightarrow> bytes list \<Rightarrow> bool" where
  "Verify H root path valueHash proof =
     (if length root \<noteq> HashSize \<or> length path \<noteq> HashSize \<or> length valueHash \<noteq> HashSize
         \<or> length proof \<noteq> Depth then False
      else case verify_loop H path 0 proof (leafHash H path valueHash) of
             None \<Rightarrow> False
           | Some cur \<Rightarrow> cur = root)"

subsection \<open>The reference tree\<close>

text \<open>\<open>with_bit i b q\<close> is the path \<open>q\<close> with bit \<open>i\<close> (most significant first) set to \<open>b\<close>; \<open>pbit\<close>
  reads it.\<close>

definition pbit :: "bytes \<Rightarrow> nat \<Rightarrow> bool" where
  "pbit path i = bit (path ! (i div 8)) (7 - i mod 8)"

definition with_bit :: "nat \<Rightarrow> bool \<Rightarrow> bytes \<Rightarrow> bytes" where
  "with_bit i b q =
     q[i div 8 := (if b then set_bit else unset_bit) (7 - i mod 8) (q ! (i div 8))]"

text \<open>\<open>subtree H M h q\<close> is the hash of the height-\<open>h\<close> subtree above the leaf position \<open>q\<close> when
  every path \<open>p\<close> carries the value hash \<open>M p\<close> (all zeros: absent).\<close>

primrec subtree :: "(bytes \<Rightarrow> bytes) \<Rightarrow> (bytes \<Rightarrow> bytes) \<Rightarrow> nat \<Rightarrow> bytes \<Rightarrow> bytes" where
  "subtree H M 0 q = leafHash H q (M q)"
| "subtree H M (Suc h) q =
     internalHash H (subtree H M h (with_bit (Depth - Suc h) False q))
                    (subtree H M h (with_bit (Depth - Suc h) True q))"

definition canonical :: "(bytes \<Rightarrow> bytes) \<Rightarrow> nat \<Rightarrow> bytes \<Rightarrow> bytes option" where
  "canonical H height v = (if v = defaults H height then None else Some v)"

text \<open>The store content that stands for the leaf map \<open>M\<close>: every node of the tree, defaults
  omitted, and nothing else.\<close>

definition represents ::
  "(bytes \<Rightarrow> bytes) \<Rightarrow> 's NodeStore \<Rightarrow> 's \<Rightarrow> (bytes \<Rightarrow> bytes) \<Rightarrow> bool" where
  "represents H ops store M \<longleftrightarrow>
     (\<forall>d q. d \<le> Depth \<and> length q = HashSize \<longrightarrow>
        nsGet ops store (nodeKey d q) = canonical H (Depth - d) (subtree H M (Depth - d) q)) \<and>
     (\<forall>k. (\<forall>d q. d \<le> Depth \<and> length q = HashSize \<longrightarrow> k \<noteq> nodeKey d q) \<longrightarrow>
        nsGet ops store k = None)"

text \<open>The hash inputs a run of \<^verbatim>\<open>Verify\<close> feeds to \<open>H\<close>, in order.\<close>

fun loop_preimages :: "(bytes \<Rightarrow> bytes) \<Rightarrow> bytes \<Rightarrow> nat \<Rightarrow> bytes list \<Rightarrow> bytes \<Rightarrow> bytes list" where
  "loop_preimages H path height [] cur = []"
| "loop_preimages H path height (sib # proof) cur =
     (let buf = (if pathBit path (Depth - height - 1) = 0 then node_buf internalTag cur sib
                 else node_buf internalTag sib cur)
      in buf # loop_preimages H path (height + 1) proof (H buf))"

definition verify_preimages :: "(bytes \<Rightarrow> bytes) \<Rightarrow> bytes \<Rightarrow> bytes \<Rightarrow> bytes list \<Rightarrow> bytes list" where
  "verify_preimages H path valueHash proof =
     node_buf leafTag path valueHash # loop_preimages H path 0 proof (leafHash H path valueHash)"

text \<open>A collision between the hash inputs of two runs, or a hash input of one of them whose digest
  is the all-zero marker of an absent leaf.\<close>

definition hash_broken :: "(bytes \<Rightarrow> bytes) \<Rightarrow> bytes list \<Rightarrow> bytes list \<Rightarrow> bool" where
  "hash_broken H xs ys \<longleftrightarrow>
     (\<exists>x \<in> set xs. \<exists>y \<in> set ys. x \<noteq> y \<and> H x = H y) \<or> (\<exists>x \<in> set (xs @ ys). H x = zeros HashSize)"

text \<open>The digest length of BLAKE3-256, as \<^verbatim>\<open>utils.Hash256\<close> returns it.\<close>

definition hash32 :: "(bytes \<Rightarrow> bytes) \<Rightarrow> bool" where
  "hash32 H \<longleftrightarrow> (\<forall>b. length (H b) = HashSize)"

section \<open>Bits and keys\<close>

named_theorems smt_sizes "the numeric parameters of the tree"

lemmas [smt_sizes] = HashSize_def Depth_def

lemma pathBit_pbit: "(pathBit path i = 0) = (\<not> pbit path i)"
  by (simp add: pathBit_def pbit_def and_one_eq odd_iff_mod_2_eq_one bit_iff_odd_drop_bit [symmetric]
      flip: bit_0 bit_drop_bit_eq) (metis bit_iff_odd_drop_bit even_iff_mod_2_eq_zero)

lemma length_with_bit [simp]: "length (with_bit i b q) = length q"
  by (simp add: with_bit_def)

lemma pbit_with_bit:
  assumes "i < 8 * length q" and "j < 8 * length q"
  shows "pbit (with_bit i b q) j = (if i = j then b else pbit q j)"
proof -
  have "i div 8 < length q" using assms by simp
  moreover have "i = j \<longleftrightarrow> i div 8 = j div 8 \<and> 7 - i mod 8 = 7 - j mod 8"
  proof
    assume ij: "i div 8 = j div 8 \<and> 7 - i mod 8 = 7 - j mod 8"
    have "i mod 8 < 8" "j mod 8 < 8" by simp_all
    with ij have "i mod 8 = j mod 8" by linarith
    with ij show "i = j" by (metis div_mult_mod_eq)
  qed simp
  ultimately show ?thesis
    by (auto simp: pbit_def with_bit_def nth_list_update bit_simps)
qed

lemma paths_eqI:
  assumes len: "length p = length q" and bits: "\<And>i. i < 8 * length p \<Longrightarrow> pbit p i = pbit q i"
  shows "p = q"
proof (rule nth_equalityI [OF len])
  fix k assume k: "k < length p"
  show "p ! k = q ! k"
  proof (rule bit_word_eqI)
    fix n assume n: "n < LENGTH(8)"
    have "8 * k + (7 - n) < 8 * length p" using k by simp
    from bits [OF this] n show "bit (p ! k) n = bit (q ! k) n"
      by (simp add: pbit_def)
  qed
qed

lemma length_PutUint16BE [simp]: "length (PutUint16BE n) = 2"
  by (simp add: PutUint16BE_def)

lemma PutUint16BE_inject: "m \<le> Depth \<Longrightarrow> n \<le> Depth \<Longrightarrow> PutUint16BE m = PutUint16BE n \<Longrightarrow> m = n"
proof -
  assume le: "m \<le> Depth" "n \<le> Depth" and eq: "PutUint16BE m = PutUint16BE n"
  have split: "unat (word_of_nat k :: byte) = k mod 256" for k
    by (simp add: unsigned_of_nat take_bit_nat_def)
  from eq have "unat (word_of_nat (m div 256) :: byte) = unat (word_of_nat (n div 256) :: byte)"
    and "unat (word_of_nat m :: byte) = unat (word_of_nat n :: byte)"
    by (simp_all add: PutUint16BE_def)
  then have "m div 256 = n div 256" "m mod 256 = n mod 256"
    using le by (simp_all only: split) (simp_all add: smt_sizes)
  then show "m = n" by (metis div_mult_mod_eq)
qed

text \<open>The path part of a node key: the first \<open>d\<close> bits, the rest cleared.\<close>

definition masked :: "nat \<Rightarrow> bytes \<Rightarrow> bytes" where
  "masked d p = map (\<lambda>j. if j < d div 8 then p ! j
       else if j = d div 8 \<and> d mod 8 \<noteq> 0 then p ! j AND push_bit (8 - d mod 8) 0xff else 0) [0..<HashSize]"

lemma length_masked [simp]: "length (masked d p) = HashSize"
  by (simp add: masked_def)

lemma nodeKey_masked:
  assumes "length p = HashSize" and "d \<le> Depth"
  shows "nodeKey d p = PutUint16BE d @ masked d p"
proof -
  let ?k = "copy_at 2 (take (d div 8) p) (copy_at 0 (PutUint16BE d) (zeros (2 + HashSize)))"
  have full: "d div 8 \<le> 32"
    using assms by (simp add: smt_sizes)
  have k: "?k = PutUint16BE d @ take (d div 8) p @ zeros (HashSize - d div 8)"
    using assms full by (simp add: copy_at_def smt_sizes zeros_def min_def)
  have "take (d div 8) p @ zeros (HashSize - d div 8) =
      map (\<lambda>j. if j < d div 8 then p ! j else 0) [0..<HashSize]"
    using assms full by (intro nth_equalityI) (auto simp: nth_append smt_sizes)
  moreover have "(map (\<lambda>j. if j < d div 8 then p ! j else 0) [0..<HashSize])[d div 8 := x] =
      map (\<lambda>j. if j < d div 8 then p ! j else if j = d div 8 then x else 0) [0..<HashSize]" for x
    by (intro nth_equalityI) (auto simp: nth_list_update)
  ultimately show ?thesis
    unfolding nodeKey_def Let_def k masked_def
    by (auto simp: list_update_append intro: map_cong)
qed

lemma length_nodeKey: "length p = HashSize \<Longrightarrow> d \<le> Depth \<Longrightarrow> length (nodeKey d p) = 2 + HashSize"
  by (simp add: nodeKey_masked)

lemma bit_ff: "bit (0xff :: byte) n \<longleftrightarrow> n < 8"
proof -
  have "(0xff :: byte) = mask 8" by (simp add: mask_eq_exp_minus_1)
  then show ?thesis by (simp only: bit_mask_iff) simp
qed

lemma pbit_masked:
  assumes "i < Depth"
  shows "pbit (masked d p) i \<longleftrightarrow> i < d \<and> pbit p i"
proof -
  let ?r = "i mod 8"
  have r: "?r < 8" by simp
  have i: "i div 8 < HashSize" using assms by (simp add: smt_sizes)
  have id: "i = 8 * (i div 8) + ?r" and dd: "d = 8 * (d div 8) + d mod 8" by simp_all
  consider "i div 8 < d div 8" | "i div 8 = d div 8" | "i div 8 > d div 8" by linarith
  then show ?thesis
  proof cases
    case 1
    moreover have "d mod 8 < 8" by simp
    ultimately have "i < d" using id dd r by linarith
    with 1 i show ?thesis by (simp add: pbit_def masked_def)
  next
    case 2
    have mask: "bit (push_bit (8 - d mod 8) (0xff :: byte)) (7 - ?r) \<longleftrightarrow> ?r < d mod 8"
      if "d mod 8 \<noteq> 0"
    proof -
      have "d mod 8 < 8" by simp
      with that r have "8 - d mod 8 \<le> 7 - ?r \<longleftrightarrow> ?r < d mod 8" by linarith
      with r show ?thesis by (simp only: bit_push_bit_iff bit_ff) auto
    qed
    from 2 have "i < d \<longleftrightarrow> ?r < d mod 8" using id dd by linarith
    with 2 i mask show ?thesis by (auto simp: pbit_def masked_def bit_and_iff)
  next
    case 3
    then have "\<not> i < d" using id dd r by (metis div_le_mono leD less_imp_le_nat)
    with 3 i show ?thesis by (auto simp: pbit_def masked_def)
  qed
qed

text \<open>Two node keys agree exactly when the depths do and the paths share the first \<open>d\<close> bits.\<close>

lemma nodeKey_eq_iff:
  assumes "length p = HashSize" "length q = HashSize" "d \<le> Depth" "e \<le> Depth"
  shows "nodeKey d p = nodeKey e q \<longleftrightarrow> d = e \<and> (\<forall>i < d. pbit p i = pbit q i)"
proof
  assume "nodeKey d p = nodeKey e q"
  then have pre: "PutUint16BE d = PutUint16BE e" and m: "masked d p = masked e q"
    using assms by (simp_all add: nodeKey_masked)
  from pre assms have "d = e" by (blast intro: PutUint16BE_inject)
  with m assms pbit_masked [of _ d p] pbit_masked [of _ d q]
  show "d = e \<and> (\<forall>i < d. pbit p i = pbit q i)" by (metis order_less_le_trans)
next
  assume eq: "d = e \<and> (\<forall>i < d. pbit p i = pbit q i)"
  have "masked d p = masked d q"
  proof (rule paths_eqI)
    fix i assume "i < 8 * length (masked d p)"
    then have "i < Depth" by (simp add: smt_sizes)
    with eq show "pbit (masked d p) i = pbit (masked d q) i" by (auto simp: pbit_masked)
  qed simp
  with eq assms show "nodeKey d p = nodeKey e q" by (simp add: nodeKey_masked)
qed

lemma siblingKey_nodeKey:
  assumes "length p = HashSize" and "Suc d \<le> Depth"
  shows "siblingKey (Suc d) p = nodeKey (Suc d) (with_bit d (\<not> pbit p d) p)"
proof -
  let ?m = "masked (Suc d) p" and ?q = "with_bit d (\<not> pbit p d) p"
  have d: "d div 8 < HashSize" and dD: "d < Depth" using assms by (simp_all add: smt_sizes)
  have "siblingKey (Suc d) p = PutUint16BE (Suc d) @ ?m[d div 8 := ?m ! (d div 8) XOR push_bit (7 - d mod 8) 1]"
    unfolding siblingKey_def Let_def using assms d by (simp add: nodeKey_masked nth_append list_update_append)
  moreover have "?m[d div 8 := ?m ! (d div 8) XOR push_bit (7 - d mod 8) 1] = masked (Suc d) ?q"
  proof (rule paths_eqI)
    fix i assume "i < 8 * length (?m[d div 8 := ?m ! (d div 8) XOR push_bit (7 - d mod 8) 1])"
    then have i: "i < Depth" by (simp add: smt_sizes)
    have flip: "pbit (?m[d div 8 := ?m ! (d div 8) XOR push_bit (7 - d mod 8) 1]) i
        = (pbit ?m i \<noteq> (i = d))"
    proof (cases "i div 8 = d div 8")
      case True
      have "i mod 8 < 8" "d mod 8 < 8" by simp_all
      then have "7 - i mod 8 = 7 - d mod 8 \<longleftrightarrow> i mod 8 = d mod 8" by linarith
      moreover have "i = d \<longleftrightarrow> i mod 8 = d mod 8" using True by (metis div_mult_mod_eq)
      moreover have "bit (push_bit k (1 :: byte)) n \<longleftrightarrow> n = k \<and> n < 8" for k n
        by (simp only: bit_push_bit_iff bit_1_iff) auto
      ultimately show ?thesis using True d by (auto simp: pbit_def bit_xor_iff)
    next
      case False
      then show ?thesis by (auto simp: pbit_def)
    qed
    have "pbit ?q i = (if d = i then \<not> pbit p d else pbit p i)"
      using assms i dD by (intro pbit_with_bit) (simp_all add: smt_sizes)
    with flip i show "pbit (?m[d div 8 := ?m ! (d div 8) XOR push_bit (7 - d mod 8) 1]) i
        = pbit (masked (Suc d) ?q) i"
      by (auto simp: pbit_masked less_Suc_eq)
  qed simp
  ultimately show ?thesis using assms by (simp add: nodeKey_masked)
qed

section \<open>The reference tree\<close>

lemma node_buf_append:
  "length a = HashSize \<Longrightarrow> length b = HashSize \<Longrightarrow> node_buf tag a b = tag # a @ b"
proof -
  assume len: "length a = HashSize" "length b = HashSize"
  have buf: "(zeros (1 + 2 * HashSize))[0 := tag] = tag # zeros (2 * HashSize)"
    by (simp add: zeros_def)
  have "copy_at 1 a (tag # zeros (2 * HashSize)) = tag # a @ zeros HashSize"
    using len by (simp add: copy_at_def zeros_def min_def)
  with len show ?thesis
    unfolding node_buf_def buf by (simp add: copy_at_all)
qed

lemma node_buf_inject:
  assumes "length a = HashSize" "length b = HashSize" "length c = HashSize" "length d = HashSize"
  shows "node_buf t a b = node_buf u c d \<longleftrightarrow> t = u \<and> a = c \<and> b = d"
  using assms by (auto simp: node_buf_append)

lemma copy_at_hash: "length v = HashSize \<Longrightarrow> copy_at 0 v (zeros HashSize) = v"
  by (simp add: copy_at_def)

lemma isZero_iff: "isZero b \<longleftrightarrow> b = zeros (length b)"
  by (induction b) (auto simp: zeros_def)

lemma LeafPath_eq: "LeafPath H domain rawKey = H (domain # rawKey)"
  using tagged_buf [of rawKey domain] by (simp add: LeafPath_def)

lemma length_LeafPath [simp]: "hash32 H \<Longrightarrow> length (LeafPath H domain rawKey) = HashSize"
  by (simp add: LeafPath_eq hash32_def)

lemma hash32_length: "hash32 H \<Longrightarrow> length (H b) = HashSize"
  by (simp add: hash32_def)

lemma length_leafHash [simp]: "hash32 H \<Longrightarrow> length (leafHash H p v) = HashSize"
  by (simp add: leafHash_def hash32_length)

lemma length_internalHash [simp]: "hash32 H \<Longrightarrow> length (internalHash H a b) = HashSize"
  by (simp add: internalHash_def hash32_length)

lemma length_subtree [simp]: "hash32 H \<Longrightarrow> length (subtree H M h q) = HashSize"
  by (cases h) simp_all

lemma defaults_Suc: "hash32 H \<Longrightarrow> defaults H (Suc h) = internalHash H (defaults H h) (defaults H h)"
  by (simp add: internalHash_def node_buf_def Let_def copy_at_hash hash32_length)

lemma length_defaults [simp]: "hash32 H \<Longrightarrow> length (defaults H h) = HashSize"
  by (cases h) (simp_all add: defaults_Suc del: defaults.simps(2))

lemma subtree_empty:
  "hash32 H \<Longrightarrow> subtree H (\<lambda>_. zeros HashSize) h q = defaults H h"
proof (induction h arbitrary: q)
  case 0
  then show ?case by (simp add: leafHash_def isZero_iff)
next
  case (Suc h)
  then show ?case by (simp add: defaults_Suc del: defaults.simps(2))
qed

text \<open>A subtree depends on its position only through the bits above it.\<close>

lemma subtree_cong:
  assumes "h \<le> Depth" "length p = HashSize" "length q = HashSize"
    and "\<forall>i < Depth - h. pbit p i = pbit q i"
  shows "subtree H M h p = subtree H M h q"
  using assms
proof (induction h arbitrary: p q)
  case 0
  then have "p = q" by (intro paths_eqI) (simp_all add: smt_sizes)
  then show ?case by simp
next
  case (Suc h)
  let ?d = "Depth - Suc h"
  have "subtree H M h (with_bit ?d b p) = subtree H M h (with_bit ?d b q)" for b
  proof (rule Suc.IH)
    show "\<forall>i < Depth - h. pbit (with_bit ?d b p) i = pbit (with_bit ?d b q) i"
      using Suc.prems by (auto simp: pbit_with_bit smt_sizes)
  qed (use Suc.prems in simp_all)
  then show ?case by simp
qed

text \<open>Changing the leaf at \<open>p\<close> leaves every subtree that is not above \<open>p\<close> alone.\<close>

lemma subtree_update_other:
  assumes "h \<le> Depth" "length p = HashSize" "length q = HashSize"
    and "\<exists>i < Depth - h. pbit q i \<noteq> pbit p i" and "\<And>x. x \<noteq> p \<Longrightarrow> M' x = M x"
  shows "subtree H M' h q = subtree H M h q"
  using assms
proof (induction h arbitrary: q)
  case 0
  then have "q \<noteq> p" by auto
  with 0 show ?case by simp
next
  case (Suc h)
  let ?d = "Depth - Suc h"
  have "subtree H M' h (with_bit ?d b q) = subtree H M h (with_bit ?d b q)" for b
  proof (rule Suc.IH)
    from Suc.prems obtain i where "i < ?d" "pbit q i \<noteq> pbit p i" by auto
    then show "\<exists>i < Depth - h. pbit (with_bit ?d b q) i \<noteq> pbit p i"
      using Suc.prems by (intro exI [of _ i]) (auto simp: pbit_with_bit smt_sizes)
  qed (use Suc.prems in simp_all)
  then show ?case by simp
qed

text \<open>The step from a node on the path to its parent.\<close>

lemma subtree_parent:
  assumes "d < Depth" "length p = HashSize"
  shows "subtree H M (Depth - d) p =
    (let cur = subtree H M (Depth - Suc d) p;
         sib = subtree H M (Depth - Suc d) (with_bit d (\<not> pbit p d) p)
     in if pathBit p d = 0 then internalHash H cur sib else internalHash H sib cur)"
proof -
  have "Depth - d = Suc (Depth - Suc d)" and D: "Depth - Suc (Depth - Suc d) = d"
    using assms(1) by simp_all
  then have "subtree H M (Depth - d) p = internalHash H (subtree H M (Depth - Suc d) (with_bit d False p))
      (subtree H M (Depth - Suc d) (with_bit d True p))"
    by (metis subtree.simps(2))
  moreover have "subtree H M (Depth - Suc d) (with_bit d (pbit p d) p) = subtree H M (Depth - Suc d) p"
    using assms by (intro subtree_cong) (auto simp: pbit_with_bit smt_sizes)
  ultimately show ?thesis
    by (cases "pbit p d") (simp_all add: pathBit_pbit)
qed

section \<open>Updating the store\<close>

text \<open>What the tree needs from a node store: reads answer the last write.\<close>

locale node_store =
  fixes ops :: "'s NodeStore" and inv :: "'s \<Rightarrow> bool"
  assumes put: "inv s \<Longrightarrow> \<exists>s'. nsPut ops s k v = Inr s' \<and> inv s' \<and>
      (\<forall>k'. nsGet ops s' k' = (if k' = k then Some v else nsGet ops s k'))"
    and delete: "inv s \<Longrightarrow> \<exists>s'. nsDelete ops s k = Inr s' \<and> inv s' \<and>
      (\<forall>k'. nsGet ops s' k' = (if k' = k then None else nsGet ops s k'))"
begin

lemma setNode_ok:
  assumes "inv s"
  shows "\<exists>s'. setNode H ops s k h v = Inr s' \<and> inv s' \<and>
    (\<forall>k'. nsGet ops s' k' = (if k' = k then canonical H h v else nsGet ops s k'))"
  using put [OF assms, of k v] delete [OF assms, of k]
  by (auto simp: setNode_def canonical_def)

lemma getNode_canonical:
  "nsGet ops s k = canonical H h v \<Longrightarrow> getNode H ops s k h = v"
  by (auto simp: getNode_def canonical_def split: if_splits)

lemma represents_getNode:
  "represents H ops s M \<Longrightarrow> d \<le> Depth \<Longrightarrow> length q = HashSize \<Longrightarrow>
   getNode H ops s (nodeKey d q) (Depth - d) = subtree H M (Depth - d) q"
  by (rule getNode_canonical) (simp add: represents_def)

lemma represents_sibling:
  "represents H ops s M \<Longrightarrow> d < Depth \<Longrightarrow> length p = HashSize \<Longrightarrow>
   getNode H ops s (siblingKey (Suc d) p) (Depth - Suc d)
     = subtree H M (Depth - Suc d) (with_bit d (\<not> pbit p d) p)"
  by (simp add: siblingKey_nodeKey represents_getNode)

end

text \<open>While the loop climbs, the levels below \<open>d\<close> already show the new leaf map \<open>M'\<close> and the levels
  above still the old one.\<close>

definition represents_from ::
  "(bytes \<Rightarrow> bytes) \<Rightarrow> 's NodeStore \<Rightarrow> 's \<Rightarrow> (bytes \<Rightarrow> bytes) \<Rightarrow> (bytes \<Rightarrow> bytes) \<Rightarrow> nat \<Rightarrow> bool" where
  "represents_from H ops store M M' d \<longleftrightarrow>
     (\<forall>e q. e \<le> Depth \<and> length q = HashSize \<longrightarrow>
        nsGet ops store (nodeKey e q) =
          canonical H (Depth - e) (subtree H (if d \<le> e then M' else M) (Depth - e) q)) \<and>
     (\<forall>k. (\<forall>e q. e \<le> Depth \<and> length q = HashSize \<longrightarrow> k \<noteq> nodeKey e q) \<longrightarrow>
        nsGet ops store k = None)"

lemma represents_from_0: "represents_from H ops s M M' 0 \<longleftrightarrow> represents H ops s M'"
  by (simp add: represents_from_def represents_def)

lemma represents_from_top:
  "represents_from H ops s M M' (Suc Depth) \<longleftrightarrow> represents H ops s M"
  by (auto simp: represents_from_def represents_def)

lemma represents_from_get:
  "represents_from H ops s M M' d \<Longrightarrow> d \<le> e \<Longrightarrow> e \<le> Depth \<Longrightarrow> length q = HashSize \<Longrightarrow>
   nsGet ops s (nodeKey e q) = canonical H (Depth - e) (subtree H M' (Depth - e) q)"
  by (simp add: represents_from_def)

context node_store
begin

text \<open>Writing the new hash of the node at depth \<open>d\<close> on the path moves the border up by one level.\<close>

lemma represents_from_step:
  assumes inv: "inv s" and rep: "represents_from H ops s M M' (Suc d)"
    and d: "d \<le> Depth" and p: "length p = HashSize" and M': "\<And>x. x \<noteq> p \<Longrightarrow> M' x = M x"
  shows "\<exists>s'. setNode H ops s (nodeKey d p) (Depth - d) (subtree H M' (Depth - d) p) = Inr s'
    \<and> inv s' \<and> represents_from H ops s' M M' d"
proof -
  from setNode_ok [OF inv] obtain s' where
    s': "setNode H ops s (nodeKey d p) (Depth - d) (subtree H M' (Depth - d) p) = Inr s'" "inv s'"
      "\<And>k. nsGet ops s' k = (if k = nodeKey d p
          then canonical H (Depth - d) (subtree H M' (Depth - d) p) else nsGet ops s k)"
    by blast
  have "nsGet ops s' (nodeKey e q) =
      canonical H (Depth - e) (subtree H (if d \<le> e then M' else M) (Depth - e) q)"
    if e: "e \<le> Depth" and q: "length q = HashSize" for e q
  proof (cases "nodeKey e q = nodeKey d p")
    case True
    then have "e = d" and bits: "\<forall>i < d. pbit q i = pbit p i"
      using nodeKey_eq_iff [OF q p e d] by auto
    have "subtree H M' (Depth - d) q = subtree H M' (Depth - d) p"
      using bits p q d by (intro subtree_cong) auto
    with True \<open>e = d\<close> s'(3) show ?thesis by simp
  next
    case False
    have "subtree H M' (Depth - d) q = subtree H M (Depth - d) q" if "e = d"
      using that False nodeKey_eq_iff [OF q p e d] p q d
      by (intro subtree_update_other [where p = p]) (auto intro: M')
    with False s'(3) rep e q show ?thesis
      by (cases "e = d") (auto simp: represents_from_def)
  qed
  moreover have "nsGet ops s' k = None"
    if "\<forall>e q. e \<le> Depth \<and> length q = HashSize \<longrightarrow> k \<noteq> nodeKey e q" for k
    using that s'(3) rep d p by (auto simp: represents_from_def)
  ultimately show ?thesis using s'(1,2) by (auto simp: represents_from_def)
qed

lemma update_loop_ok:
  assumes "inv s" "represents_from H ops s M M' d" "d \<le> Depth" "length p = HashSize"
    and M': "\<And>x. x \<noteq> p \<Longrightarrow> M' x = M x"
  shows "\<exists>s'. update_loop H ops p d (subtree H M' (Depth - d) p) s = Inr s'
    \<and> inv s' \<and> represents H ops s' M'"
  using assms
proof (induction d arbitrary: s)
  case 0
  then show ?case by (simp add: represents_from_0)
next
  case (Suc d)
  have d: "d < Depth" "Suc (Depth - Suc d) = Depth - d" using Suc.prems by simp_all
  have sib: "getNode H ops s (siblingKey (Suc d) p) (Depth - Suc d)
      = subtree H M' (Depth - Suc d) (with_bit d (\<not> pbit p d) p)"
    using represents_from_get [OF Suc.prems(2) order_refl Suc.prems(3), of "with_bit d (\<not> pbit p d) p"]
      Suc.prems by (intro getNode_canonical) (simp add: siblingKey_nodeKey)
  obtain s' where s': "setNode H ops s (nodeKey d p) (Depth - d) (subtree H M' (Depth - d) p) = Inr s'"
    "inv s'" "represents_from H ops s' M M' d"
    using represents_from_step [OF Suc.prems(1,2) _ Suc.prems(4) M'] Suc.prems(3) by auto
  have "update_loop H ops p (Suc d) (subtree H M' (Depth - Suc d) p) s
      = update_loop H ops p d (subtree H M' (Depth - d) p) s'"
    using s'(1) d
    by (cases "pathBit p d = 0") (simp_all add: Let_def sib subtree_parent [OF d(1) Suc.prems(4)])
  with Suc.IH [OF s'(2,3)] Suc.prems show ?case by simp
qed

lemma Update_represents:
  assumes "inv s" "represents H ops s M" "length p = HashSize"
  shows "\<exists>s'. Update H ops s p v = Inr s' \<and> inv s' \<and> represents H ops s' (M(p := v))"
proof -
  define M' where "M' = M(p := v)"
  have leaf: "leafHash H p v = subtree H M' 0 p" and other: "\<And>x. x \<noteq> p \<Longrightarrow> M' x = M x"
    by (simp_all add: M'_def)
  from assms have "represents_from H ops s M M' (Suc Depth)" by (simp add: represents_from_top)
  from represents_from_step [OF assms(1) this _ assms(3) other] obtain s' where
    s': "setNode H ops s (nodeKey Depth p) 0 (leafHash H p v) = Inr s'" "inv s'"
    "represents_from H ops s' M M' Depth"
    by (auto simp: leaf)
  from update_loop_ok [OF s'(2,3) order_refl assms(3) other] s'(1) assms(3) show ?thesis
    by (simp add: Update_def leaf flip: M'_def)
qed

lemma Root_represents:
  "hash32 H \<Longrightarrow> represents H ops s M \<Longrightarrow> Root H ops s = subtree H M Depth (zeros HashSize)"
  using represents_getNode [of H s M 0 "zeros HashSize"] by (simp add: Root_def copy_at_hash)

lemma empty_represents:
  "hash32 H \<Longrightarrow> (\<And>k. nsGet ops s k = None) \<Longrightarrow> represents H ops s (\<lambda>_. zeros HashSize)"
  by (simp add: represents_def canonical_def subtree_empty)

text \<open>The stored nodes are a function of the leaf map alone.\<close>

lemma represents_unique:
  assumes "represents H ops s M" "represents H ops t M"
  shows "nsGet ops s k = nsGet ops t k"
proof (cases "\<exists>d q. d \<le> Depth \<and> length q = HashSize \<and> k = nodeKey d q")
  case True
  with assms show ?thesis unfolding represents_def by metis
next
  case False
  with assms show ?thesis unfolding represents_def by metis
qed

end

section \<open>Proofs\<close>

text \<open>One round of the loop of \<^verbatim>\<open>Verify\<close>.\<close>

definition fold_node :: "(bytes \<Rightarrow> bytes) \<Rightarrow> bytes \<Rightarrow> nat \<Rightarrow> bytes \<Rightarrow> bytes \<Rightarrow> bytes" where
  "fold_node H path height sib cur =
     H (if pathBit path (Depth - height - 1) = 0 then node_buf internalTag cur sib
        else node_buf internalTag sib cur)"

lemma verify_loop_Cons:
  "verify_loop H p h (sib # pr) cur =
     (if length sib \<noteq> HashSize then None else verify_loop H p (h + 1) pr (fold_node H p h sib cur))"
  by (simp add: fold_node_def internalHash_def)

lemma fold_node_inject:
  assumes len: "length sib = HashSize" "length cur = HashSize" "length sib' = HashSize" "length cur' = HashSize"
    and eq: "fold_node H p h sib cur = fold_node H p h sib' cur'" and ne: "cur \<noteq> cur'"
  shows "\<exists>x \<in> set (loop_preimages H p h (sib # pr) cur). \<exists>y \<in> set (loop_preimages H p h (sib' # pr') cur').
    x \<noteq> y \<and> H x = H y"
  using len eq ne by (auto simp: fold_node_def Let_def node_buf_inject split: if_splits)

lemma loop_preimages_tail:
  "set (loop_preimages H p (h + 1) pr (fold_node H p h sib cur)) \<subseteq> set (loop_preimages H p h (sib # pr) cur)"
  by (auto simp: fold_node_def Let_def)

text \<open>Two branches of equal length that fold to the same root from different start values meet in a
  collision.\<close>

lemma verify_loop_collision:
  assumes "hash32 H" "length pr = length pr'" "length c = HashSize" "length c' = HashSize"
    and "verify_loop H p h pr c = Some r" "verify_loop H p h pr' c' = Some r" "c \<noteq> c'"
  shows "\<exists>x \<in> set (loop_preimages H p h pr c). \<exists>y \<in> set (loop_preimages H p h pr' c'). x \<noteq> y \<and> H x = H y"
  using assms(2-)
proof (induction pr pr' arbitrary: h c c' rule: list_induct2)
  case (Cons sib pr sib' pr')
  let ?d = "fold_node H p h sib c" and ?d' = "fold_node H p h sib' c'"
  have len: "length sib = HashSize" "length sib' = HashSize"
    using Cons.prems by (auto simp: verify_loop_Cons split: if_splits)
  then have runs: "verify_loop H p (h + 1) pr ?d = Some r" "verify_loop H p (h + 1) pr' ?d' = Some r"
    using Cons.prems by (simp_all add: verify_loop_Cons del: verify_loop.simps)
  show ?case
  proof (cases "?d = ?d'")
    case True
    with fold_node_inject [OF len(1) _ len(2)] Cons.prems show ?thesis by blast
  next
    case False
    have "length ?d = HashSize" "length ?d' = HashSize"
      using assms(1) by (simp_all add: fold_node_def hash32_length)
    from Cons.IH [OF this runs False] show ?thesis
      using loop_preimages_tail [of H p h pr sib c] loop_preimages_tail [of H p h pr' sib' c'] by blast
  qed
qed simp

lemma leafHash_collision:
  assumes "leafHash H p v = leafHash H p v'" "v \<noteq> v'" "length p = HashSize"
    "length v = HashSize" "length v' = HashSize"
  shows "(node_buf leafTag p v \<noteq> node_buf leafTag p v' \<and> H (node_buf leafTag p v) = H (node_buf leafTag p v'))
    \<or> H (node_buf leafTag p v) = zeros HashSize \<or> H (node_buf leafTag p v') = zeros HashSize"
  using assms by (auto simp: leafHash_def isZero_iff node_buf_inject split: if_splits)

lemma Verify_collision:
  assumes H: "hash32 H" and ok: "Verify H r p v pr" "Verify H r p v' pr'" and ne: "v \<noteq> v'"
  shows "hash_broken H (verify_preimages H p v pr) (verify_preimages H p v' pr')"
proof -
  from ok have len: "length p = HashSize" "length v = HashSize" "length v' = HashSize"
    "length pr = Depth" "length pr' = Depth"
    and runs: "verify_loop H p 0 pr (leafHash H p v) = Some r" "verify_loop H p 0 pr' (leafHash H p v') = Some r"
    by (auto simp: Verify_def split: if_splits option.splits)
  show ?thesis
  proof (cases "leafHash H p v = leafHash H p v'")
    case True
    from leafHash_collision [OF True ne] len show ?thesis
      by (auto simp: hash_broken_def verify_preimages_def)
  next
    case False
    from verify_loop_collision [OF H _ _ _ runs False] len H
    obtain x y where "x \<in> set (loop_preimages H p 0 pr (leafHash H p v))"
      "y \<in> set (loop_preimages H p 0 pr' (leafHash H p v'))" "x \<noteq> y" "H x = H y" by auto
    then show ?thesis
      unfolding hash_broken_def verify_preimages_def by (intro disjI1 bexI [of _ x] bexI [of _ y]) simp_all
  qed
qed

text \<open>The branch a store of the leaf map \<open>M\<close> answers with, and that it folds to the root.\<close>

definition branch_of :: "(bytes \<Rightarrow> bytes) \<Rightarrow> (bytes \<Rightarrow> bytes) \<Rightarrow> bytes \<Rightarrow> nat \<Rightarrow> bytes" where
  "branch_of H M p h = subtree H M h (with_bit (Depth - Suc h) (\<not> pbit p (Depth - Suc h)) p)"

lemma fold_branch:
  assumes "h < Depth" "length p = HashSize"
  shows "fold_node H p h (branch_of H M p h) (subtree H M h p) = subtree H M (Suc h) p"
  using subtree_parent [of "Depth - Suc h" p H M] assms
  by (auto simp: fold_node_def branch_of_def internalHash_def Let_def Suc_diff_Suc)

lemma verify_loop_complete:
  assumes "hash32 H" "length p = HashSize" "h \<le> Depth"
  shows "verify_loop H p h (map (branch_of H M p) [h..<Depth]) (subtree H M h p) = Some (subtree H M Depth p)"
  using assms(3)
proof (induction "Depth - h" arbitrary: h)
  case (Suc n)
  then have h: "h < Depth" by simp
  then have "[h..<Depth] = h # [Suc h..<Depth]" by (rule upt_conv_Cons)
  moreover have "length (branch_of H M p h) = HashSize" using assms by (simp add: branch_of_def)
  ultimately show ?case
    using Suc.hyps(1) [of "Suc h"] Suc.hyps(2) h assms(2)
    by (simp add: verify_loop_Cons fold_branch del: verify_loop.simps subtree.simps)
qed simp

context node_store
begin

lemma Prove_represents:
  assumes "hash32 H" "represents H ops s M" "length p = HashSize"
  shows "Prove H ops s p = Inr (map (branch_of H M p) [0..<Depth])"
proof -
  have "copy_at 0 (getNode H ops s (siblingKey (Depth - h) p) h) (zeros HashSize) = branch_of H M p h"
    if "h < Depth" for h
    using represents_sibling [OF assms(2), of "Depth - Suc h" p] assms that
    by (simp add: Suc_diff_Suc copy_at_hash branch_of_def)
  with assms(3) show ?thesis by (simp add: Prove_def)
qed

lemma Prove_Verify:
  assumes H: "hash32 H" and rep: "represents H ops s M" and len: "length p = HashSize" "length (M p) = HashSize"
  shows "\<exists>pr. Prove H ops s p = Inr pr \<and> Verify H (Root H ops s) p (M p) pr"
proof -
  have "subtree H M Depth p = subtree H M Depth (zeros HashSize)"
    using len by (intro subtree_cong) auto
  with verify_loop_complete [OF H len(1), of 0 M] have
    "verify_loop H p 0 (map (branch_of H M p) [0..<Depth]) (leafHash H p (M p)) = Some (Root H ops s)"
    by (simp add: Root_represents [OF H rep])
  with len H show ?thesis
    by (simp add: Prove_represents [OF H rep] Verify_def Root_represents [OF H rep])
qed

lemma Verify_sound:
  assumes H: "hash32 H" and rep: "represents H ops s M" and len: "length (M p) = HashSize"
    and ok: "Verify H (Root H ops s) p v pr" and pr': "Prove H ops s p = Inr pr'" and ne: "v \<noteq> M p"
  shows "hash_broken H (verify_preimages H p v pr) (verify_preimages H p (M p) pr')"
proof -
  from ok have "length p = HashSize" by (simp add: Verify_def split: if_splits)
  from Prove_Verify [OF H rep this len] pr' have "Verify H (Root H ops s) p (M p) pr'" by simp
  from Verify_collision [OF H ok this ne] show ?thesis .
qed

text \<open>A sequence of updates.\<close>

lemma Updates_represent:
  assumes "inv s" "represents H ops s M" "\<forall>(p, v) \<in> set us. length p = HashSize"
  shows "\<exists>s'. foldM (\<lambda>s (p, v). Update H ops s p v) us s = Inr s' \<and> inv s' \<and>
    represents H ops s' (fold (\<lambda>(p, v) M. M(p := v)) us M)"
  using assms
proof (induction us arbitrary: s M)
  case (Cons u us)
  obtain p v where u: "u = (p, v)" by (cases u)
  with Cons.prems obtain s1 where
    s1: "Update H ops s p v = Inr s1" "inv s1" "represents H ops s1 (M(p := v))"
    using Update_represents [of s H M p v] by auto
  from Cons.IH [OF s1(2,3)] Cons.prems(3) s1(1) show ?case by (simp add: u)
qed simp

end

section \<open>The in-memory store\<close>

interpretation mem: node_store MemStore_ops "\<lambda>_. True"
  by unfold_locales (simp_all add: MemStore_ops_def MemStore_Put_def MemStore_Delete_def MemStore_Get_def)

text \<open>The leaf map after a sequence of updates of the empty tree.\<close>

definition leaf_map :: "(bytes \<times> bytes) list \<Rightarrow> bytes \<Rightarrow> bytes" where
  "leaf_map us = fold (\<lambda>(p, v) M. M(p := v)) us (\<lambda>_. zeros HashSize)"

lemma mem_Updates:
  assumes "hash32 H" "\<forall>(p, v) \<in> set us. length p = HashSize"
  shows "\<exists>s. foldM (\<lambda>s (p, v). Update H MemStore_ops s p v) us NewMemStore = Inr s \<and>
    represents H MemStore_ops s (leaf_map us)"
  using mem.Updates_represent [OF _ mem.empty_represents [OF assms(1)] assms(2), of NewMemStore]
  by (simp add: leaf_map_def MemStore_ops_def MemStore_Get_def NewMemStore_def)

lemma mem_represents_unique:
  "represents H MemStore_ops s M \<Longrightarrow> represents H MemStore_ops t M \<Longrightarrow> s = t"
  using mem.represents_unique [of H s M t] by (auto simp: MemStore_ops_def MemStore_Get_def)

text \<open>C20: the same set of entries always yields the same stored nodes and the same root, whatever the
  order of the updates and whatever was inserted and deleted on the way (the promise of the package
  comment): two update sequences that leave the same leaf map end in equal stores, and the root is the
  hash of the reference tree over that map.\<close>

theorem update_order_independent:
  assumes "hash32 H"
    and "\<forall>(p, v) \<in> set us. length p = HashSize" and "\<forall>(p, v) \<in> set vs. length p = HashSize"
    and "leaf_map us = leaf_map vs"
  shows "\<exists>s. foldM (\<lambda>s (p, v). Update H MemStore_ops s p v) us NewMemStore = Inr s \<and>
    foldM (\<lambda>s (p, v). Update H MemStore_ops s p v) vs NewMemStore = Inr s \<and>
    Root H MemStore_ops s = subtree H (leaf_map us) Depth (zeros HashSize)"
  using mem_Updates [OF assms(1,2)] mem_Updates [OF assms(1,3)] mem_represents_unique [of H]
    mem.Root_represents [OF assms(1)] assms(4) by metis

definition pad32 :: "bytes \<Rightarrow> bytes" where
  "pad32 b = take HashSize b @ zeros (HashSize - length b)"

lemma hash32_pad32 [simp]: "hash32 pad32"
  by (simp add: hash32_def pad32_def HashSize_def min_def split: nat_diff_split)

theorem update_order_independent_witness:
  "\<exists>s. foldM (\<lambda>s (p, v). Update pad32 MemStore_ops s p v)
       [(replicate 32 1, replicate 32 5), (zeros 32, replicate 32 7)] NewMemStore = Inr s \<and>
    foldM (\<lambda>s (p, v). Update pad32 MemStore_ops s p v)
       [(zeros 32, replicate 32 9), (zeros 32, replicate 32 7), (replicate 32 1, replicate 32 5)] NewMemStore = Inr s \<and>
    Root pad32 MemStore_ops s =
      subtree pad32 (leaf_map [(replicate 32 1, replicate 32 5), (zeros 32, replicate 32 7)]) Depth (zeros HashSize)"
proof (rule update_order_independent)
  have ne: "replicate 32 (1 :: byte) \<noteq> zeros 32" by (simp add: zeros_def)
  then show "leaf_map [(replicate 32 1, replicate 32 5), (zeros 32, replicate 32 7)] =
      leaf_map [(zeros 32, replicate 32 9), (zeros 32, replicate 32 7), (replicate 32 1, replicate 32 5)]"
    by (simp add: leaf_map_def fun_upd_twist)
qed (simp_all add: HashSize_def)

text \<open>C22: a Merkle branch binds the value. If \<^verbatim>\<open>Verify\<close> accepts two different value hashes for the same
  path under the same root, the hash inputs of the two runs contain a collision, or one of them hashes
  to the all-zero marker of an absent leaf; so inclusion and absence cannot both be shown either.\<close>

theorem Verify_binding:
  assumes "hash32 H" and "Verify H r p v pr" and "Verify H r p v' pr'" and "v \<noteq> v'"
  shows "hash_broken H (verify_preimages H p v pr) (verify_preimages H p v' pr')"
  by (rule Verify_collision [OF assms])

definition const32 :: "bytes \<Rightarrow> bytes" where
  "const32 b = replicate 32 1"

lemma hash32_const32 [simp]: "hash32 const32"
  by (simp add: hash32_def const32_def HashSize_def)

lemma verify_loop_const32:
  "verify_loop const32 p h (replicate n (zeros 32)) (replicate 32 1) = Some (replicate 32 1)"
  by (induction n arbitrary: h) (simp_all add: HashSize_def internalHash_def const32_def)

lemma Verify_const32:
  "length p = 32 \<Longrightarrow> length v = 32 \<Longrightarrow> \<not> isZero v \<Longrightarrow>
   Verify const32 (replicate 32 1) p v (replicate 256 (zeros 32))"
  by (simp add: Verify_def smt_sizes leafHash_def) (simp add: const32_def verify_loop_const32)

theorem Verify_binding_witness:
  "hash_broken const32
     (verify_preimages const32 (zeros 32) (replicate 32 5) (replicate 256 (zeros 32)))
     (verify_preimages const32 (zeros 32) (replicate 32 6) (replicate 256 (zeros 32)))"
proof (rule Verify_binding)
  show "Verify const32 (replicate 32 1) (zeros 32) (replicate 32 5) (replicate 256 (zeros 32))"
    and "Verify const32 (replicate 32 1) (zeros 32) (replicate 32 6) (replicate 256 (zeros 32))"
    by (rule Verify_const32; simp add: isZero_iff zeros_def)+
qed simp_all

end
