(* ===== verification/Types.thy ===== *)
theory Types
  imports Params Statetrie
begin

text \<open>
  The data of \<^verbatim>\<open>ngtypes\<close> (\<^verbatim>\<open>tx.go\<close>, \<^verbatim>\<open>commitment.go\<close>, \<^verbatim>\<open>block_header.go\<close>, \<^verbatim>\<open>block.go\<close>, \<^verbatim>\<open>keys.go\<close>) as
  records, and the record \<open>prims\<close> of the third-party functions those types are used with: the hash,
  the signature schemes, the RLP encoders, the Merkle-tree and compression packages and the proof-of-work
  hash.  Every definition that reaches such a function takes a \<open>prims\<close> argument.

  An \<^verbatim>\<open>Address\<close> is a \<^verbatim>\<open>[32]byte\<close> array, here a byte string of length 32; transaction types, networks and
  signature schemes are the bytes of the wire format, because the decoders let every byte through and
  the code has a branch for the unknown ones.  Amounts are non-nil after decoding except where the code
  tests for nil (\<open>cmFee\<close>).
\<close>

type_synonym Address = bytes
type_synonym TxType = byte
type_synonym SigScheme = byte

definition InvalidTx :: TxType where "InvalidTx = 0"
definition GenerateTx :: TxType where "GenerateTx = 1"
definition TransactTx :: TxType where "TransactTx = 2"
definition DeployTx :: TxType where "DeployTx = 3"

lemmas tx_type_defs = InvalidTx_def GenerateTx_def TransactTx_def DeployTx_def

record FullTx =
  txNetwork :: Network
  txType :: TxType
  txHeight :: u64
  txTo :: Address
  txValue :: int
  txFee :: int
  txExtra :: bytes
  txSign :: bytes
  txSalt :: bytes

record Commitment =
  cmNetwork :: Network
  cmHeight :: u64
  cmHash :: bytes
  cmFee :: "int option"
  cmSign :: bytes

record BlockHeader =
  hdNetwork :: Network
  hdHeight :: u64
  hdTimestamp :: u64
  hdPrevBlockHash :: bytes
  hdTxTrieHash :: bytes
  hdWitnessRoot :: bytes
  hdDifficulty :: bytes
  hdCoinbase :: bytes
  hdUnclesHash :: bytes
  hdStateRoot :: bytes
  hdBaseFee :: bytes
  hdNonce :: bytes

record FullBlock =
  bkHeader :: BlockHeader
  bkTxs :: "FullTx list"
  bkUncles :: "BlockHeader list"
  bkCommits :: "Commitment list"

text \<open>A private key is its scheme, its seed and the key pair the scheme derives from the seed.\<close>

record PrivateKey =
  pkScheme :: SigScheme
  pkSeed :: bytes
  pkSecret :: bytes
  pkPublic :: bytes

text \<open>The third-party functions.
  \<^item> \<open>Hash256\<close>: BLAKE3-256; \<open>powHash\<close>: the AstroBWT proof-of-work hash.
  \<^item> \<open>recoverCompact sig hash\<close>: the compressed public key and the ``compressed'' flag, if recovery succeeds.
  \<^item> \<open>fndsaVerify\<close>, \<open>mldsaVerify\<close>, \<open>slhdsaVerify\<close>: public key, digest, signature (a key that does not
    unmarshal verifies nothing); the sizes are the constants of those packages; \<open>p256Verify x y hash r s\<close>.
  \<^item> \<open>keyGen scheme input\<close> and \<open>signRaw scheme secret hash\<close>: the key pair a scheme derives from the SHAKE256 stream of
    the input, and signing.
  \<^item> \<open>rlpTx\<close> and the like: \<^verbatim>\<open>rlp.EncodeToBytes\<close> on the type; \<open>rlpCallDataDec\<close>: \<^verbatim>\<open>rlp.DecodeBytes\<close>.
  \<^item> \<open>merkleRoot\<close>: the root of \<^verbatim>\<open>merkletree.NewTreeWithHashStrategy\<close> over a list of leaf hashes.
  \<^item> \<open>deflate\<close>: \<^verbatim>\<open>compress/flate\<close> at best compression (\<open>None\<close>: a writer error); \<open>inflate\<close>: the bytes the
    reader delivers and whether it ends without an error.\<close>

record prims =
  Hash256 :: "bytes \<Rightarrow> bytes"
  powHash :: "bytes \<Rightarrow> bytes"
  recoverCompact :: "bytes \<Rightarrow> bytes \<Rightarrow> (bytes \<times> bool) option"
  fndsaVerify :: "bytes \<Rightarrow> bytes \<Rightarrow> bytes \<Rightarrow> bool"
  mldsaVerify :: "bytes \<Rightarrow> bytes \<Rightarrow> bytes \<Rightarrow> bool"
  slhdsaVerify :: "bytes \<Rightarrow> bytes \<Rightarrow> bytes \<Rightarrow> bool"
  p256Verify :: "int \<Rightarrow> int \<Rightarrow> bytes \<Rightarrow> int \<Rightarrow> int \<Rightarrow> bool"
  fndsaKeySize :: nat
  fndsaSigSize :: nat
  mldsaKeySize :: nat
  mldsaSigSize :: nat
  keyGen :: "SigScheme \<Rightarrow> bytes \<Rightarrow> error + bytes \<times> bytes"
  signRaw :: "SigScheme \<Rightarrow> bytes \<Rightarrow> bytes \<Rightarrow> error + bytes"
  rlpTx :: "FullTx \<Rightarrow> bytes"
  rlpCommit :: "Commitment \<Rightarrow> bytes"
  rlpHeader :: "BlockHeader \<Rightarrow> bytes"
  rlpBlock :: "FullBlock \<Rightarrow> bytes"
  rlpCallData :: "bytes \<times> bytes \<Rightarrow> bytes"
  rlpCallDataDec :: "bytes \<Rightarrow> (bytes \<times> bytes) option"
  merkleRoot :: "bytes list \<Rightarrow> bytes"
  deflate :: "bytes \<Rightarrow> bytes option"
  inflate :: "bytes \<Rightarrow> bytes \<times> bool"

text \<open>A concrete instance of the third-party functions, for evaluation on examples: padding instead of
  hashing, signatures that carry their public key, field concatenation instead of RLP, no compression.\<close>

definition demo_key :: "SigScheme \<Rightarrow> bytes \<Rightarrow> bytes" where
  "demo_key scheme seed =
     (if scheme = 0x01 then take 33 (seed @ zeros 33)
      else if scheme = 0x10 then zeros 897
      else if scheme = 0x11 then zeros 1312
      else zeros 32)"

definition demo_sig :: "SigScheme \<Rightarrow> bytes \<Rightarrow> bytes" where
  "demo_sig scheme sk =
     (if scheme = 0x01 then demo_key scheme sk @ zeros 32
      else if scheme = 0x10 then zeros 666
      else if scheme = 0x11 then zeros 2420
      else zeros 7856)"

primrec demo_pair :: "bytes \<Rightarrow> bytes \<Rightarrow> bytes" where
  "demo_pair [] a = 0 # a"
| "demo_pair (b # m) a = 1 # b # demo_pair m a"

fun demo_unpair :: "bytes \<Rightarrow> (bytes \<times> bytes) option" where
  "demo_unpair [] = None"
| "demo_unpair (t # r) =
     (if t = 0 then Some ([], r)
      else case r of [] \<Rightarrow> None | b # r' \<Rightarrow> map_option (\<lambda>(m, a). (b # m, a)) (demo_unpair r'))"

definition demo_prims :: prims where
  "demo_prims =
     \<lparr>Hash256 = pad32, powHash = (\<lambda>raw. [1]),
      recoverCompact = (\<lambda>sig h. Some (take 33 sig, True)),
      fndsaVerify = (\<lambda>pub h sig. True), mldsaVerify = (\<lambda>pub h sig. True),
      slhdsaVerify = (\<lambda>pub h sig. True), p256Verify = (\<lambda>x y h r s. True),
      fndsaKeySize = 897, fndsaSigSize = 666, mldsaKeySize = 1312, mldsaSigSize = 2420,
      keyGen = (\<lambda>scheme input. Inr (drop 14 input, demo_key scheme (drop 14 input))),
      signRaw = (\<lambda>scheme sk h. Inr (demo_sig scheme sk)),
      rlpTx = (\<lambda>x. txNetwork x # txType x # PackUint64LE (txHeight x) @ txTo x @ bigBytes (txValue x)
                 @ bigBytes (txFee x) @ txExtra x @ txSign x @ txSalt x),
      rlpCommit = (\<lambda>c. cmNetwork c # PackUint64LE (cmHeight c) @ cmHash c @ cmSign c),
      rlpHeader = (\<lambda>h. PackUint64LE (hdHeight h) @ hdPrevBlockHash h @ hdTxTrieHash h @ hdNonce h),
      rlpBlock = (\<lambda>b. concat (map txExtra (bkTxs b))),
      rlpCallData = (\<lambda>(m, a). demo_pair m a), rlpCallDataDec = demo_unpair,
      merkleRoot = (\<lambda>hs. pad32 (concat hs)),
      deflate = (\<lambda>code. Some (rev code)), inflate = (\<lambda>raw. (rev raw, True))\<rparr>"

lemma demo_unpair_pair: "demo_unpair (demo_pair m a) = Some (m, a)"
  by (induction m) simp_all

end
