(* ===== verification/Keys.thy ===== *)
theory Keys
  imports Types
begin

text \<open>
  \<^verbatim>\<open>ngtypes/keys.go\<close>, \<^verbatim>\<open>keys_p256.go\<close> and \<^verbatim>\<open>address.go\<close>: the menu of signature schemes, key derivation and
  serialization, verification of a digest signature, public-key recovery, addresses as hashes of public
  keys, and the wider verification surface contracts have (P-256).  The signature envelope that
  transactions and commitments share (\<^verbatim>\<open>FullTx.envelope\<close>, \<^verbatim>\<open>Commitment.envelope\<close>) is defined once over the
  error values it returns.
\<close>

section \<open>Definitions\<close>

definition SchemeSecp256k1 :: SigScheme where "SchemeSecp256k1 = 0x01"
definition SchemeSecp256r1 :: SigScheme where "SchemeSecp256r1 = 0x02"
definition SchemeFNDSA512 :: SigScheme where "SchemeFNDSA512 = 0x10"
definition SchemeMLDSA44 :: SigScheme where "SchemeMLDSA44 = 0x11"
definition SchemeSLHDSA128 :: SigScheme where "SchemeSLHDSA128 = 0x12"
definition SchemePQMin :: SigScheme where "SchemePQMin = 0x10"

lemmas scheme_defs = SchemeSecp256k1_def SchemeSecp256r1_def SchemeFNDSA512_def SchemeMLDSA44_def
  SchemeSLHDSA128_def SchemePQMin_def

definition IsPostQuantum :: "SigScheme \<Rightarrow> bool" where
  "IsPostQuantum scheme = (scheme \<ge> SchemePQMin)"

definition HasRecovery :: "SigScheme \<Rightarrow> bool" where
  "HasRecovery scheme = (scheme = SchemeSecp256k1)"

definition KeySeedSize :: nat where "KeySeedSize = 32"

definition PubKeySize :: "'p prims_scheme \<Rightarrow> SigScheme \<Rightarrow> nat" where
  "PubKeySize P scheme =
     (if scheme = SchemeSecp256k1 then 33
      else if scheme = SchemeFNDSA512 then fndsaKeySize P
      else if scheme = SchemeMLDSA44 then mldsaKeySize P
      else if scheme = SchemeSLHDSA128 then 32
      else 0)"

definition SigSize :: "'p prims_scheme \<Rightarrow> SigScheme \<Rightarrow> nat" where
  "SigSize P scheme =
     (if scheme = SchemeSecp256k1 then 65
      else if scheme = SchemeFNDSA512 then fndsaSigSize P
      else if scheme = SchemeMLDSA44 then mldsaSigSize P
      else if scheme = SchemeSLHDSA128 then 7856
      else 0)"

definition known_scheme :: "SigScheme \<Rightarrow> bool" where
  "known_scheme scheme \<longleftrightarrow>
     scheme \<in> {SchemeSecp256k1, SchemeFNDSA512, SchemeMLDSA44, SchemeSLHDSA128}"

text \<open>The input of the SHAKE256 stream that key generation reads.\<close>

definition keygen_input :: "SigScheme \<Rightarrow> bytes \<Rightarrow> bytes" where
  "keygen_input scheme seed = map of_char ''ngcore-keygen'' @ [scheme] @ seed"

definition NewKeyFromSeed :: "'p prims_scheme \<Rightarrow> SigScheme \<Rightarrow> bytes \<Rightarrow> error + PrivateKey" where
  "NewKeyFromSeed P scheme seed =
     (if length seed \<noteq> KeySeedSize then Inl ErrKeyInvalid
      else if \<not> known_scheme scheme then Inl ErrSchemeUnknown
      else bind_result (keyGen P scheme (keygen_input scheme seed)) (\<lambda>(sk, pk).
             if scheme = SchemeSecp256k1 \<and> SetBytes sk = 0 then Inl ErrKeyInvalid
             else Inr \<lparr>pkScheme = scheme, pkSeed = seed, pkSecret = sk, pkPublic = pk\<rparr>))"

definition ParsePrivateKey :: "'p prims_scheme \<Rightarrow> bytes \<Rightarrow> error + PrivateKey" where
  "ParsePrivateKey P raw =
     (if length raw \<noteq> 1 + KeySeedSize then Inl ErrKeyInvalid
      else NewKeyFromSeed P (raw ! 0) (drop 1 raw))"

definition Serialize :: "PrivateKey \<Rightarrow> bytes" where
  "Serialize key =
     (let out = (zeros (1 + KeySeedSize))[0 := pkScheme key] in copy_at 1 (pkSeed key) out)"

definition PublicBytes :: "PrivateKey \<Rightarrow> error + bytes" where
  "PublicBytes key = (if known_scheme (pkScheme key) then Inr (pkPublic key) else Inl Panic)"

definition SignHash :: "'p prims_scheme \<Rightarrow> PrivateKey \<Rightarrow> bytes \<Rightarrow> error + bytes" where
  "SignHash P key hash =
     (if known_scheme (pkScheme key) then signRaw P (pkScheme key) (pkSecret key) hash
      else Inl ErrSchemeUnknown)"

definition VerifyHashSig :: "'p prims_scheme \<Rightarrow> SigScheme \<Rightarrow> bytes \<Rightarrow> bytes \<Rightarrow> bytes \<Rightarrow> bool" where
  "VerifyHashSig P scheme pubKey hash sig =
     (if length pubKey \<noteq> PubKeySize P scheme \<or> length sig \<noteq> SigSize P scheme then False
      else if scheme = SchemeSecp256k1
      then (case recoverCompact P sig hash of
              None \<Rightarrow> False
            | Some (recovered, compressed) \<Rightarrow> if \<not> compressed then False else recovered = pubKey)
      else if scheme = SchemeFNDSA512 then fndsaVerify P pubKey hash sig
      else if scheme = SchemeMLDSA44 then mldsaVerify P pubKey hash sig
      else if scheme = SchemeSLHDSA128 then slhdsaVerify P pubKey hash sig
      else False)"

definition RecoverPubKey :: "'p prims_scheme \<Rightarrow> SigScheme \<Rightarrow> bytes \<Rightarrow> bytes \<Rightarrow> bytes option" where
  "RecoverPubKey P scheme hash sig =
     (if scheme \<noteq> SchemeSecp256k1 \<or> length sig \<noteq> SigSize P scheme then None
      else case recoverCompact P sig hash of
             None \<Rightarrow> None
           | Some (recovered, compressed) \<Rightarrow> if \<not> compressed then None else Some recovered)"

definition verifyP256 :: "'p prims_scheme \<Rightarrow> bytes \<Rightarrow> bytes \<Rightarrow> bytes \<Rightarrow> bool" where
  "verifyP256 P pubKey hash sig =
     (if length hash \<noteq> 32 \<or> length sig \<noteq> 64 then False
      else let r = SetBytes (take 32 sig); s = SetBytes (drop 32 sig)
           in if length pubKey = 65
              then if pubKey ! 0 \<noteq> 0x04 then False
                   else p256Verify P (SetBytes (take 32 (drop 1 pubKey))) (SetBytes (drop 33 pubKey)) hash r s
              else if length pubKey = 64
              then p256Verify P (SetBytes (take 32 pubKey)) (SetBytes (drop 32 pubKey)) hash r s
              else False)"

definition VerifyContractSig :: "'p prims_scheme \<Rightarrow> SigScheme \<Rightarrow> bytes \<Rightarrow> bytes \<Rightarrow> bytes \<Rightarrow> bool" where
  "VerifyContractSig P scheme pubKey hash sig =
     (if scheme = SchemeSecp256r1 then verifyP256 P pubKey hash sig
      else VerifyHashSig P scheme pubKey hash sig)"

subsection \<open>Addresses\<close>

definition addressVersion :: byte where "addressVersion = 0x01"

definition AddressOfPubKey :: "'p prims_scheme \<Rightarrow> SigScheme \<Rightarrow> bytes \<Rightarrow> Address" where
  "AddressOfPubKey P scheme pubKey =
     (let preimage = [addressVersion, scheme] @ pubKey
      in copy_at 0 (Hash256 P preimage) (zeros AddressSize))"

definition NewAddress :: "'p prims_scheme \<Rightarrow> PrivateKey \<Rightarrow> error + Address" where
  "NewAddress P key = bind_result (PublicBytes key) (\<lambda>pub. Inr (AddressOfPubKey P (pkScheme key) pub))"

definition Address_SetBytes :: "bytes \<Rightarrow> error + Address" where
  "Address_SetBytes b = (if length b \<noteq> AddressSize then Inl Panic else Inr b)"

subsection \<open>The signature envelope\<close>

definition envelopeFull :: byte where "envelopeFull = 0x01"
definition envelopeCompact :: byte where "envelopeCompact = 0x02"
definition envelopeRecover :: byte where "envelopeRecover = 0x03"

lemmas envelope_tags = envelopeFull_def envelopeCompact_def envelopeRecover_def

text \<open>A resolver looks up a registered key (scheme byte and public key, empty when absent); \<open>None\<close> is
  the nil resolver.\<close>

type_synonym PubKeyResolver = "(Address \<Rightarrow> bytes) option"

definition envelope ::
  "'p prims_scheme \<Rightarrow> error \<Rightarrow> error \<Rightarrow> bytes \<Rightarrow> bytes \<Rightarrow> PubKeyResolver \<Rightarrow> error + SigScheme \<times> bytes \<times> bytes" where
  "envelope P e_unsigned e_invalid Sign signingHash lookup =
     (if length Sign < 2 then Inl e_unsigned
      else let scheme = Sign ! 1; pkLen = PubKeySize P scheme; sigLen = SigSize P scheme
           in if pkLen = 0 then Inl e_invalid
              else let body = drop 2 Sign
                   in if Sign ! 0 = envelopeFull
                      then if length body \<noteq> pkLen + sigLen then Inl e_invalid
                           else Inr (scheme, take pkLen body, drop pkLen body)
                      else if Sign ! 0 = envelopeRecover
                      then if \<not> HasRecovery scheme \<or> length body \<noteq> sigLen then Inl e_invalid
                           else case RecoverPubKey P scheme signingHash body of
                                  None \<Rightarrow> Inl e_invalid
                                | Some pubKey \<Rightarrow> Inr (scheme, pubKey, body)
                      else if Sign ! 0 = envelopeCompact
                      then if length body \<noteq> AddressSize + sigLen then Inl e_invalid
                           else case lookup of
                                  None \<Rightarrow> Inl e_invalid
                                | Some look \<Rightarrow>
                                    let from = copy_at 0 (take AddressSize body) (zeros AddressSize);
                                        entry = look from
                                    in if length entry \<noteq> 1 + pkLen \<or> entry ! 0 \<noteq> scheme then Inl e_invalid
                                       else let pubKey = drop 1 entry
                                            in if AddressOfPubKey P scheme pubKey \<noteq> from then Inl e_invalid
                                               else Inr (scheme, pubKey, drop AddressSize body)
                      else Inl e_unsigned)"

definition envelope_from ::
  "'p prims_scheme \<Rightarrow> error \<Rightarrow> bytes \<Rightarrow> bytes \<Rightarrow> error + Address" where
  "envelope_from P e_unsigned Sign signingHash =
     (if length Sign < 2 then Inl e_unsigned
      else let scheme = Sign ! 1; pkLen = PubKeySize P scheme; sigLen = SigSize P scheme;
               body = drop 2 Sign
           in if Sign ! 0 = envelopeFull
              then if pkLen = 0 \<or> length body \<noteq> pkLen + sigLen then Inl e_unsigned
                   else Inr (AddressOfPubKey P scheme (take pkLen body))
              else if Sign ! 0 = envelopeCompact
              then if pkLen = 0 \<or> length body \<noteq> AddressSize + sigLen then Inl e_unsigned
                   else Inr (copy_at 0 (take AddressSize body) (zeros AddressSize))
              else if Sign ! 0 = envelopeRecover
              then if \<not> HasRecovery scheme \<or> length body \<noteq> sigLen then Inl e_unsigned
                   else case RecoverPubKey P scheme signingHash body of
                          None \<Rightarrow> Inl e_unsigned
                        | Some pubKey \<Rightarrow> Inr (AddressOfPubKey P scheme pubKey)
              else Inl e_unsigned)"

text \<open>The envelope a key signs a digest with: the recover form for a recovery scheme, else the full
  form (\<^verbatim>\<open>Signature\<close>) or the compact one (\<^verbatim>\<open>SignatureCompact\<close>).\<close>

definition sign_envelope :: "'p prims_scheme \<Rightarrow> PrivateKey \<Rightarrow> bytes \<Rightarrow> error + bytes" where
  "sign_envelope P key hash =
     bind_result (SignHash P key hash) (\<lambda>sig.
       if HasRecovery (pkScheme key) then Inr ([envelopeRecover, pkScheme key] @ sig)
       else bind_result (PublicBytes key) (\<lambda>pub. Inr ([envelopeFull, pkScheme key] @ pub @ sig)))"

definition sign_compact :: "'p prims_scheme \<Rightarrow> PrivateKey \<Rightarrow> bytes \<Rightarrow> error + bytes" where
  "sign_compact P key hash =
     (if HasRecovery (pkScheme key) then sign_envelope P key hash
      else bind_result (SignHash P key hash) (\<lambda>sig.
             bind_result (PublicBytes key) (\<lambda>pub.
               Inr ([envelopeCompact, pkScheme key] @ AddressOfPubKey P (pkScheme key) pub @ sig))))"

section \<open>Lemmas\<close>

lemma length_AddressOfPubKey [simp]: "length (AddressOfPubKey P scheme pub) = AddressSize"
  by (simp add: AddressOfPubKey_def)

lemma copy_address [simp]:
  "length b = AddressSize \<Longrightarrow> copy_at 0 b (zeros AddressSize) = b"
  by (simp add: copy_at_def)

lemma VerifyHashSig_sizes:
  "VerifyHashSig P scheme pub hash sig \<Longrightarrow>
   known_scheme scheme \<and> length pub = PubKeySize P scheme \<and> length sig = SigSize P scheme"
  by (auto simp: VerifyHashSig_def known_scheme_def split: if_splits)

lemma VerifyHashSig_unknown: "\<not> known_scheme scheme \<Longrightarrow> \<not> VerifyHashSig P scheme pub hash sig"
  using VerifyHashSig_sizes by blast

lemma RecoverPubKey_verifies:
  "RecoverPubKey P scheme hash sig = Some pub \<Longrightarrow> length pub = PubKeySize P scheme \<Longrightarrow>
   VerifyHashSig P scheme pub hash sig"
  by (auto simp: RecoverPubKey_def VerifyHashSig_def split: if_splits option.splits prod.splits)

lemma ParsePrivateKey_Serialize:
  assumes "NewKeyFromSeed P scheme seed = Inr key"
  shows "ParsePrivateKey P (Serialize key) = Inr key"
proof -
  from assms have seed: "length seed = 32" and "pkScheme key = scheme" "pkSeed key = seed"
    by (auto simp: NewKeyFromSeed_def KeySeedSize_def result_simps split: if_splits)
  then have "Serialize key = scheme # seed"
    using tagged_buf [of seed scheme] by (simp add: Serialize_def KeySeedSize_def)
  with assms seed show ?thesis by (simp add: ParsePrivateKey_def KeySeedSize_def)
qed

text \<open>Whatever the envelope, the address it charges is the hash of the key the signature is checked
  against.\<close>

lemma envelope_from_key:
  assumes "envelope P e_unsigned e_invalid Sign h lookup = Inr (scheme, pub, sig)"
  shows "envelope_from P e_unsigned' Sign h = Inr (AddressOfPubKey P scheme pub)"
  using assms
  by (auto simp: envelope_def envelope_from_def envelope_tags AddressSize_def Let_def
      split: if_splits option.splits)

lemma envelope_scheme:
  assumes "envelope P e_unsigned e_invalid Sign h lookup = Inr (scheme, pub, sig)"
  shows "2 \<le> length Sign \<and> scheme = Sign ! 1"
  using assms by (auto simp: envelope_def Let_def split: if_splits option.splits)

text \<open>Where the three parts of an accepted envelope stand in the signature field.\<close>

lemma envelope_form:
  assumes "envelope P e_unsigned e_invalid Sign h lookup = Inr (scheme, pub, sig)"
  shows "length sig = SigSize P scheme \<and>
    (Sign = [envelopeFull, scheme] @ pub @ sig \<and> length pub = PubKeySize P scheme \<or>
     Sign = [envelopeRecover, scheme] @ sig \<and> RecoverPubKey P scheme h sig = Some pub \<or>
     (\<exists>look. lookup = Some look \<and> Sign = [envelopeCompact, scheme] @ AddressOfPubKey P scheme pub @ sig \<and>
        look (AddressOfPubKey P scheme pub) = scheme # pub))"
proof -
  have "2 \<le> length Sign" using envelope_scheme [OF assms] by simp
  then obtain t s body where Sign: "Sign = t # s # body" by (cases Sign; cases "tl Sign") auto
  have entry: "length e = Suc n \<Longrightarrow> e = e ! 0 # drop (Suc 0) e" for e :: bytes and n by (cases e) auto
  from assms show ?thesis unfolding Sign
    by (auto simp: envelope_def Let_def split: if_splits option.splits intro: entry)
qed

text \<open>A compact envelope needs a resolver.\<close>

lemma envelope_compact_nil:
  "Sign \<noteq> [] \<Longrightarrow> Sign ! 0 = envelopeCompact \<Longrightarrow> envelope P e_unsigned e_invalid Sign h None \<noteq> Inr r"
  by (auto simp: envelope_def envelope_tags Let_def split: if_splits)

lemma envelope_compact:
  assumes "Sign = [envelopeCompact, scheme] @ from @ sig" "length from = AddressSize"
    "length sig = SigSize P scheme" "look from = scheme # pub" "length pub = PubKeySize P scheme"
    "0 < PubKeySize P scheme" "AddressOfPubKey P scheme pub = from"
  shows "envelope P e_unsigned e_invalid Sign h (Some look) = Inr (scheme, pub, sig)"
    and "envelope_from P e_unsigned Sign h = Inr from"
  using assms by (auto simp: envelope_def envelope_from_def envelope_tags Let_def)

lemma envelope_full:
  assumes "Sign = [envelopeFull, scheme] @ pub @ sig" "length pub = PubKeySize P scheme" "0 < PubKeySize P scheme"
    "length sig = SigSize P scheme"
  shows "envelope P e_unsigned e_invalid Sign h lookup = Inr (scheme, pub, sig)"
    and "envelope_from P e_unsigned Sign h = Inr (AddressOfPubKey P scheme pub)"
  using assms by (auto simp: envelope_def envelope_from_def envelope_tags Let_def)

lemma envelope_recover:
  assumes "Sign = [envelopeRecover, SchemeSecp256k1] @ sig" "length sig = 65"
    "recoverCompact P sig h = Some (pub, True)"
  shows "envelope P e_unsigned e_invalid Sign h lookup = Inr (SchemeSecp256k1, pub, sig)"
    and "envelope_from P e_unsigned Sign h = Inr (AddressOfPubKey P SchemeSecp256k1 pub)"
  using assms
  by (auto simp: envelope_def envelope_from_def envelope_tags HasRecovery_def RecoverPubKey_def
      PubKeySize_def SigSize_def Let_def)

text \<open>What the sources rely on from the signature packages: a signature made with a derived key has the
  scheme's size and verifies under the derived public key.\<close>

definition signing_correct :: "'p prims_scheme \<Rightarrow> bool" where
  "signing_correct P \<longleftrightarrow>
     (\<forall>scheme seed sk pk hash sig. known_scheme scheme \<longrightarrow> keyGen P scheme seed = Inr (sk, pk) \<longrightarrow>
        signRaw P scheme sk hash = Inr sig \<longrightarrow> VerifyHashSig P scheme pk hash sig)"

lemma NewKeyFromSeed_signs:
  assumes "signing_correct P" "NewKeyFromSeed P scheme seed = Inr key" "SignHash P key hash = Inr sig"
  shows "VerifyHashSig P (pkScheme key) (pkPublic key) hash sig \<and> PublicBytes key = Inr (pkPublic key)"
  using assms
  by (auto simp: NewKeyFromSeed_def SignHash_def PublicBytes_def signing_correct_def result_simps
      split: if_splits)

lemma sign_envelope_verifies:
  assumes P: "signing_correct P" "\<And>s. known_scheme s \<Longrightarrow> 0 < PubKeySize P s"
    and key: "NewKeyFromSeed P scheme seed = Inr key" and Sign: "sign_envelope P key h = Inr Sign"
  shows "\<exists>sig. envelope P e_unsigned e_invalid Sign h lookup = Inr (pkScheme key, pkPublic key, sig)
    \<and> VerifyHashSig P (pkScheme key) (pkPublic key) h sig"
proof -
  from Sign obtain sig where sig: "SignHash P key h = Inr sig"
    by (auto simp: sign_envelope_def result_simps)
  note v = NewKeyFromSeed_signs [OF P(1) key sig]
  note sz = VerifyHashSig_sizes [OF conjunct1 [OF v]]
  have ne: "0 < PubKeySize P (pkScheme key)" using sz P(2) by blast
  show ?thesis
  proof (cases "HasRecovery (pkScheme key)")
    case True
    then have s: "pkScheme key = SchemeSecp256k1" by (simp add: HasRecovery_def)
    with v have rec: "recoverCompact P sig h = Some (pkPublic key, True)" and len: "length sig = 65"
      by (auto simp: VerifyHashSig_def SigSize_def split: if_splits option.splits)
    have "Sign = [envelopeRecover, SchemeSecp256k1] @ sig" using Sign sig True s by (simp add: sign_envelope_def)
    from envelope_recover(1) [OF this len rec] v s show ?thesis by auto
  next
    case False
    with Sign sig v have "Sign = [envelopeFull, pkScheme key] @ pkPublic key @ sig"
      by (simp add: sign_envelope_def)
    from envelope_full(1) [OF this _ ne] sz v show ?thesis by blast
  qed
qed

end
