(* ===== verification/Tx.thy ===== *)
theory Tx
  imports Keys "HOL-Library.Multiset"
begin

text \<open>
  \<^verbatim>\<open>ngtypes/tx.go\<close>, \<^verbatim>\<open>tx_extra.go\<close>, \<^verbatim>\<open>tx_genesis.go\<close>, \<^verbatim>\<open>tx_trie.go\<close> and \<^verbatim>\<open>commitment.go\<close>: transactions and the
  blind commitments of the private mempool, their content hashes, signature envelopes and self checks,
  the formats of a transaction's extra payload, and the content root a block commits to.  The lemmas
  tie the charged address to the verified key, show that signing and verifying round-trip, and that the
  content root is a function of the multiset of contents.
\<close>

section \<open>Definitions\<close>

subsection \<open>Transactions\<close>

definition NewTx ::
  "Network \<Rightarrow> TxType \<Rightarrow> u64 \<Rightarrow> Address \<Rightarrow> int option \<Rightarrow> int option \<Rightarrow> bytes \<Rightarrow> bytes \<Rightarrow> FullTx" where
  "NewTx network ttype height to value fee extraData sign =
     \<lparr>txNetwork = network, txType = ttype, txHeight = height, txTo = to,
      txValue = (case value of None \<Rightarrow> 0 | Some v \<Rightarrow> v), txFee = (case fee of None \<Rightarrow> 0 | Some f \<Rightarrow> f),
      txExtra = extraData, txSign = sign, txSalt = []\<rparr>"

definition NewUnsignedTx ::
  "Network \<Rightarrow> TxType \<Rightarrow> u64 \<Rightarrow> Address \<Rightarrow> int option \<Rightarrow> int option \<Rightarrow> bytes \<Rightarrow> FullTx" where
  "NewUnsignedTx network ttype height to value fee extraData =
     NewTx network ttype height to value fee extraData []"

definition FullTx_IsSigned :: "FullTx \<Rightarrow> bool" where
  "FullTx_IsSigned x = (length (txSign x) \<noteq> 0)"

definition IsCompactEnvelope :: "FullTx \<Rightarrow> bool" where
  "IsCompactEnvelope x = (length (txSign x) > 0 \<and> txSign x ! 0 = envelopeCompact)"

definition EnvelopeScheme :: "FullTx \<Rightarrow> SigScheme" where
  "EnvelopeScheme x = (if length (txSign x) < 2 then 0 else txSign x ! 1)"

definition FullTx_GetUnsignedHash :: "'p prims_scheme \<Rightarrow> FullTx \<Rightarrow> bytes" where
  "FullTx_GetUnsignedHash P x = Hash256 P (rlpTx P (x\<lparr>txSign := [], txSalt := []\<rparr>))"

definition FullTx_GetHash :: "'p prims_scheme \<Rightarrow> FullTx \<Rightarrow> bytes" where
  "FullTx_GetHash P x = FullTx_GetUnsignedHash P x"

definition UnheightedHash :: "'p prims_scheme \<Rightarrow> FullTx \<Rightarrow> bytes" where
  "UnheightedHash P x = Hash256 P (rlpTx P (x\<lparr>txSign := [], txSalt := [], txHeight := 0\<rparr>))"

definition FullTx_SigningHash :: "'p prims_scheme \<Rightarrow> FullTx \<Rightarrow> bytes" where
  "FullTx_SigningHash P x =
     (if txType x = TransactTx \<or> txType x = DeployTx then UnheightedHash P x
      else FullTx_GetUnsignedHash P x)"

definition FullTx_envelope ::
  "'p prims_scheme \<Rightarrow> FullTx \<Rightarrow> PubKeyResolver \<Rightarrow> error + SigScheme \<times> bytes \<times> bytes" where
  "FullTx_envelope P x lookup =
     envelope P ErrTxUnsigned ErrTxSignInvalid (txSign x) (FullTx_SigningHash P x) lookup"

definition FullTx_From :: "'p prims_scheme \<Rightarrow> FullTx \<Rightarrow> error + Address" where
  "FullTx_From P x = envelope_from P ErrTxUnsigned (txSign x) (FullTx_SigningHash P x)"

definition FullTx_Verify :: "'p prims_scheme \<Rightarrow> FullTx \<Rightarrow> PubKeyResolver \<Rightarrow> error + unit" where
  "FullTx_Verify P x lookup =
     (if txHeight x = 0 then Inr ()
      else if length (txSign x) = 0 then Inl ErrTxUnsigned
      else if length (txExtra x) > TxMaxExtraSize then Inl ErrTxExtraExcess
      else bind_result (FullTx_envelope P x lookup) (\<lambda>(scheme, pubKey, sig).
             if \<not> VerifyHashSig P scheme pubKey (FullTx_SigningHash P x) sig then Inl ErrTxSignInvalid
             else Inr ()))"

definition FullTx_Equals :: "FullTx \<Rightarrow> FullTx \<Rightarrow> bool" where
  "FullTx_Equals x tx =
     (if txNetwork x \<noteq> txNetwork tx then False
      else if txHeight x \<noteq> txHeight tx then False
      else if txTo x \<noteq> txTo tx then False
      else if txValue x \<noteq> txValue tx then False
      else if txFee x \<noteq> txFee tx then False
      else if txExtra x \<noteq> txExtra tx then False
      else True)"

definition TotalExpenditure :: "FullTx \<Rightarrow> int" where
  "TotalExpenditure x = txFee x + txValue x"

definition CheckGenerate :: "'p prims_scheme \<Rightarrow> FullTx \<Rightarrow> u64 \<Rightarrow> PubKeyResolver \<Rightarrow> error + unit" where
  "CheckGenerate P x blockHeight lookup =
     (if TotalExpenditure x \<noteq> GetBlockReward blockHeight then Inl ErrRewardInvalid
      else if txFee x \<noteq> 0 then Inl ErrTxFeeInvalid
      else bind_result (FullTx_Verify P x lookup) (\<lambda>_.
             if txHeight x \<noteq> 0
             then bind_result (FullTx_From P x) (\<lambda>from.
                    if from \<noteq> txTo x then Inl ErrTxToInvalid else Inr ())
             else Inr ()))"

definition checkNoTransfer :: "FullTx \<Rightarrow> error + unit" where
  "checkNoTransfer x =
     (if txTo x \<noteq> zeros AddressSize then Inl ErrTxToInvalid
      else if txValue x \<noteq> 0 then Inl ErrTxValueInvalid
      else Inr ())"

definition CheckTransaction :: "'p prims_scheme \<Rightarrow> FullTx \<Rightarrow> PubKeyResolver \<Rightarrow> error + unit" where
  "CheckTransaction P x lookup =
     (if txValue x < 0 then Inl ErrTxValueInvalid else FullTx_Verify P x lookup)"

definition CheckDeploy :: "'p prims_scheme \<Rightarrow> FullTx \<Rightarrow> PubKeyResolver \<Rightarrow> error + unit" where
  "CheckDeploy P x lookup = bind_result (checkNoTransfer x) (\<lambda>_. FullTx_Verify P x lookup)"

definition FullTx_Signature :: "'p prims_scheme \<Rightarrow> FullTx \<Rightarrow> PrivateKey \<Rightarrow> error + FullTx" where
  "FullTx_Signature P x privateKey =
     (let x = x\<lparr>txSign := []\<rparr>
      in bind_result (sign_envelope P privateKey (FullTx_SigningHash P x))
           (\<lambda>envl. Inr (x\<lparr>txSign := envl\<rparr>)))"

definition SignatureCompact :: "'p prims_scheme \<Rightarrow> FullTx \<Rightarrow> PrivateKey \<Rightarrow> error + FullTx" where
  "SignatureCompact P x privateKey =
     (let x = x\<lparr>txSign := []\<rparr>
      in bind_result (sign_compact P privateKey (FullTx_SigningHash P x))
           (\<lambda>envl. Inr (x\<lparr>txSign := envl\<rparr>)))"

definition ManuallySetSignature :: "FullTx \<Rightarrow> bytes \<Rightarrow> FullTx" where
  "ManuallySetSignature x sign = x\<lparr>txSign := sign\<rparr>"

definition GetGenesisGenerateTx :: "Network \<Rightarrow> error + FullTx" where
  "GetGenesisGenerateTx network =
     (let ggtx = NewTx network GenerateTx 0 GenesisAddress (Some (GetBlockReward 0)) (Some 0) [] []
      in bind_result (GetGenesisGenerateTxSignature network)
           (\<lambda>sign. Inr (ManuallySetSignature ggtx sign)))"

subsection \<open>Extra payloads\<close>

definition commitRaw :: byte where "commitRaw = 0x00"
definition commitDeflate :: byte where "commitDeflate = 0x01"

definition EncodeCommitCode :: "'p prims_scheme \<Rightarrow> bytes \<Rightarrow> bytes" where
  "EncodeCommitCode P code =
     (case deflate P code of
        Some buf \<Rightarrow> if length buf < length code then [commitDeflate] @ buf else [commitRaw] @ code
      | None \<Rightarrow> [commitRaw] @ code)"

text \<open>\<^verbatim>\<open>io.ReadAll(io.LimitReader(r, 1<<24))\<close> stops at the limit before it can see a later stream error.\<close>

definition inflateLimit :: nat where "inflateLimit = 2 ^ 24"

definition DecodeCommitCode :: "'p prims_scheme \<Rightarrow> bytes \<Rightarrow> error + bytes" where
  "DecodeCommitCode P extra =
     (if length extra < 1 then Inl ErrCommitExtraInvalid
      else if extra ! 0 = commitRaw then Inr (drop 1 extra)
      else if extra ! 0 = commitDeflate
      then (let (out, eof) = inflate P (drop 1 extra)
            in if length out \<ge> inflateLimit then Inr (take inflateLimit out)
               else if eof then Inr out else Inl (ErrMsg ''flate''))
      else Inl ErrCommitExtraInvalid)"

text \<open>The reserved export names; a Go string is its bytes.\<close>

definition str :: "string \<Rightarrow> bytes" where
  "str s = map of_char s"

definition EntryOnTx :: bytes where "EntryOnTx = str ''ng:main''"
definition EntryOnActivate :: bytes where "EntryOnActivate = str ''ng:init''"
definition EntryOnUpgrade :: bytes where "EntryOnUpgrade = str ''ng:upgrade''"
definition EntryOnValidate :: bytes where "EntryOnValidate = str ''ng:validate''"

definition EncodeCallData :: "'p prims_scheme \<Rightarrow> bytes \<Rightarrow> bytes \<Rightarrow> bytes" where
  "EncodeCallData P method args =
     (let method = (if method = EntryOnTx then [] else method)
      in if method = [] \<and> length args = 0 then [] else rlpCallData P (method, args))"

definition DecodeCallData :: "'p prims_scheme \<Rightarrow> bytes \<Rightarrow> error + bytes \<times> bytes" where
  "DecodeCallData P extra =
     (case rlpCallDataDec P extra of None \<Rightarrow> Inl (ErrMsg ''rlp'') | Some cd \<Rightarrow> Inr cd)"

subsection \<open>Commitments\<close>

definition NewCommitment :: "Network \<Rightarrow> u64 \<Rightarrow> bytes \<Rightarrow> int option \<Rightarrow> Commitment" where
  "NewCommitment network height hash fee =
     \<lparr>cmNetwork = network, cmHeight = height, cmHash = hash,
      cmFee = Some (case fee of None \<Rightarrow> 0 | Some f \<Rightarrow> f), cmSign = []\<rparr>"

definition Commitment_IsSigned :: "Commitment \<Rightarrow> bool" where
  "Commitment_IsSigned c = (length (cmSign c) \<noteq> 0)"

definition Commitment_GetUnsignedHash :: "'p prims_scheme \<Rightarrow> Commitment \<Rightarrow> bytes" where
  "Commitment_GetUnsignedHash P c = Hash256 P (rlpCommit P (c\<lparr>cmSign := []\<rparr>))"

definition Commitment_SigningHash :: "'p prims_scheme \<Rightarrow> Commitment \<Rightarrow> bytes" where
  "Commitment_SigningHash P c = Hash256 P (rlpCommit P (c\<lparr>cmSign := [], cmHeight := 0\<rparr>))"

definition Commitment_envelope ::
  "'p prims_scheme \<Rightarrow> Commitment \<Rightarrow> PubKeyResolver \<Rightarrow> error + SigScheme \<times> bytes \<times> bytes" where
  "Commitment_envelope P c lookup =
     envelope P ErrCommitUnsigned ErrCommitSignInvalid (cmSign c) (Commitment_SigningHash P c) lookup"

definition Commitment_From :: "'p prims_scheme \<Rightarrow> Commitment \<Rightarrow> error + Address" where
  "Commitment_From P c = envelope_from P ErrCommitUnsigned (cmSign c) (Commitment_SigningHash P c)"

definition Commitment_Signature :: "'p prims_scheme \<Rightarrow> Commitment \<Rightarrow> PrivateKey \<Rightarrow> error + Commitment" where
  "Commitment_Signature P c privateKey =
     (let c = c\<lparr>cmSign := []\<rparr>
      in bind_result (sign_envelope P privateKey (Commitment_SigningHash P c))
           (\<lambda>envl. Inr (c\<lparr>cmSign := envl\<rparr>)))"

definition Commitment_Verify :: "'p prims_scheme \<Rightarrow> Commitment \<Rightarrow> PubKeyResolver \<Rightarrow> error + unit" where
  "Commitment_Verify P c lookup =
     (if length (cmSign c) = 0 then Inl ErrCommitUnsigned
      else bind_result (Commitment_envelope P c lookup) (\<lambda>(scheme, pubKey, sig).
             if \<not> VerifyHashSig P scheme pubKey (Commitment_SigningHash P c) sig then Inl ErrCommitSignInvalid
             else Inr ()))"

definition Commitment_CheckError ::
  "'p prims_scheme \<Rightarrow> Commitment \<Rightarrow> u64 \<Rightarrow> PubKeyResolver \<Rightarrow> error + unit" where
  "Commitment_CheckError P c blockHeight lookup =
     (if length (cmHash c) \<noteq> 32 then Inl ErrCommitHashInvalid
      else if cmFee c = None then Inl ErrCommitFeeInvalid
      else if cmHeight c \<noteq> blockHeight then Inl ErrCommitHeightInvalid
      else Commitment_Verify P c lookup)"

definition Commitment_Equals :: "'p prims_scheme \<Rightarrow> Commitment \<Rightarrow> Commitment \<Rightarrow> bool" where
  "Commitment_Equals P c oc = (Commitment_GetUnsignedHash P c = Commitment_GetUnsignedHash P oc)"

subsection \<open>Content root\<close>

definition NewTxTrie :: "'p prims_scheme \<Rightarrow> FullTx list \<Rightarrow> FullTx list" where
  "NewTxTrie P txs = sort_key (FullTx_GetHash P) txs"

text \<open>\<^verbatim>\<open>contentRoot\<close> over the \<^verbatim>\<open>CalculateHash\<close> values of the contents.\<close>

definition contentRoot :: "'p prims_scheme \<Rightarrow> bytes list \<Rightarrow> bytes" where
  "contentRoot P hashes = (if length hashes = 0 then zeros 32 else merkleRoot P (sort hashes))"

definition TrieRoot :: "'p prims_scheme \<Rightarrow> FullTx list \<Rightarrow> bytes" where
  "TrieRoot P txs = (if length txs = 0 then zeros 32 else contentRoot P (map (FullTx_GetUnsignedHash P) txs))"

definition ContentRoot :: "'p prims_scheme \<Rightarrow> FullTx list \<Rightarrow> Commitment list \<Rightarrow> bytes" where
  "ContentRoot P txs commits =
     (if length txs = 0 \<and> length commits = 0 then zeros 32
      else contentRoot P (map (FullTx_GetUnsignedHash P) txs @ map (Commitment_GetUnsignedHash P) commits))"

section \<open>Signatures\<close>

text \<open>The content hash ignores signature and salt; the signing hash of an effect transaction ignores the
  height as well.\<close>

lemma content_hash_frame [simp]:
  "FullTx_GetUnsignedHash P (x\<lparr>txSign := s\<rparr>) = FullTx_GetUnsignedHash P x"
  "FullTx_GetUnsignedHash P (x\<lparr>txSalt := t\<rparr>) = FullTx_GetUnsignedHash P x"
  "UnheightedHash P (x\<lparr>txSign := s\<rparr>) = UnheightedHash P x"
  "UnheightedHash P (x\<lparr>txSalt := t\<rparr>) = UnheightedHash P x"
  "UnheightedHash P (x\<lparr>txHeight := h\<rparr>) = UnheightedHash P x"
  "FullTx_SigningHash P (x\<lparr>txSign := s\<rparr>) = FullTx_SigningHash P x"
  by (simp_all add: FullTx_GetUnsignedHash_def UnheightedHash_def FullTx_SigningHash_def)

lemma commit_hash_frame [simp]:
  "Commitment_SigningHash P (c\<lparr>cmSign := s\<rparr>) = Commitment_SigningHash P c"
  "Commitment_SigningHash P (c\<lparr>cmHeight := h\<rparr>) = Commitment_SigningHash P c"
  by (simp_all add: Commitment_SigningHash_def)

lemma FullTx_Verify_Inr:
  assumes "FullTx_Verify P x lookup = Inr ()" "txHeight x \<noteq> 0"
  shows "\<exists>scheme pub sig. FullTx_envelope P x lookup = Inr (scheme, pub, sig)
    \<and> VerifyHashSig P scheme pub (FullTx_SigningHash P x) sig"
  using assms by (auto simp: FullTx_Verify_def result_simps split: if_splits)

text \<open>C19: a transaction above height zero that passes \<^verbatim>\<open>Verify\<close> is authenticated: the signature in its envelope
  verifies over its signing hash under a public key whose address is exactly the one \<^verbatim>\<open>From\<close> returns, so the state
  layer charges the holder of the verified key. The key stands before the signature in a full envelope, is recovered
  from the signature in a recover envelope, and is the registered key of the address in a compact one.\<close>

theorem Verify_authenticates:
  assumes "FullTx_Verify P x lookup = Inr ()" and "txHeight x \<noteq> 0"
  shows "\<exists>scheme pub sig. FullTx_From P x = Inr (AddressOfPubKey P scheme pub)
    \<and> known_scheme scheme \<and> VerifyHashSig P scheme pub (FullTx_SigningHash P x) sig
    \<and> (txSign x = [envelopeFull, scheme] @ pub @ sig
       \<or> txSign x = [envelopeRecover, scheme] @ sig \<and> RecoverPubKey P scheme (FullTx_SigningHash P x) sig = Some pub
       \<or> (\<exists>look. lookup = Some look \<and> txSign x = [envelopeCompact, scheme] @ AddressOfPubKey P scheme pub @ sig
            \<and> look (AddressOfPubKey P scheme pub) = scheme # pub))"
proof -
  from FullTx_Verify_Inr [OF assms] obtain scheme pub sig where
    e: "FullTx_envelope P x lookup = Inr (scheme, pub, sig)"
    and v: "VerifyHashSig P scheme pub (FullTx_SigningHash P x) sig" by blast
  note e' = e [unfolded FullTx_envelope_def]
  show ?thesis
    using envelope_from_key [OF e', of ErrTxUnsigned] envelope_form [OF e'] VerifyHashSig_sizes [OF v] v
    unfolding FullTx_From_def by blast
qed

lemma Verify_scheme:
  assumes "FullTx_Verify P x lookup = Inr ()" "txHeight x \<noteq> 0"
  shows "known_scheme (EnvelopeScheme x)"
proof -
  from FullTx_Verify_Inr [OF assms] obtain scheme pub sig where
    e: "FullTx_envelope P x lookup = Inr (scheme, pub, sig)"
    and v: "VerifyHashSig P scheme pub (FullTx_SigningHash P x) sig" by blast
  from envelope_scheme [OF e [unfolded FullTx_envelope_def]] VerifyHashSig_sizes [OF v] show ?thesis
    by (simp add: EnvelopeScheme_def)
qed

lemma Signature_Verify:
  assumes "signing_correct P" "\<And>s. known_scheme s \<Longrightarrow> 0 < PubKeySize P s"
    and "NewKeyFromSeed P scheme seed = Inr key" and "FullTx_Signature P x key = Inr y"
    and "length (txExtra x) \<le> TxMaxExtraSize"
  shows "FullTx_Verify P y lookup = Inr () \<and>
    FullTx_From P y = Inr (AddressOfPubKey P (pkScheme key) (pkPublic key))"
proof -
  from assms(4) obtain envl where
    envl: "sign_envelope P key (FullTx_SigningHash P x) = Inr envl" and y: "y = x\<lparr>txSign := envl\<rparr>"
    by (auto simp: FullTx_Signature_def Let_def result_simps)
  from sign_envelope_verifies [OF assms(1,2,3) envl] obtain sig where
    e: "envelope P ErrTxUnsigned ErrTxSignInvalid envl (FullTx_SigningHash P x) lookup
          = Inr (pkScheme key, pkPublic key, sig)"
    and v: "VerifyHashSig P (pkScheme key) (pkPublic key) (FullTx_SigningHash P x) sig" by blast
  have "2 \<le> length envl" using envelope_scheme [OF e] by simp
  then have "envl \<noteq> []" by auto
  with e v y assms(5) envelope_from_key [OF e, of ErrTxUnsigned] show ?thesis
    by (simp add: FullTx_Verify_def FullTx_envelope_def FullTx_From_def)
qed

lemma Signature_resigns:
  assumes "FullTx_Signature P x key = Inr y" "FullTx_SigningHash P (x\<lparr>txHeight := h, txSalt := salt\<rparr>) = FullTx_SigningHash P x"
  shows "FullTx_Signature P (x\<lparr>txHeight := h, txSalt := salt\<rparr>) key = Inr (y\<lparr>txHeight := h, txSalt := salt\<rparr>)"
  using assms by (auto simp: FullTx_Signature_def Let_def result_simps)


subsection \<open>Witnesses\<close>

definition demo_tx :: FullTx where
  "demo_tx = \<lparr>txNetwork = ZERONET, txType = TransactTx, txHeight = 5, txTo = replicate 32 9,
     txValue = 70, txFee = 3, txExtra = [], txSign = [3, 1] @ replicate 33 7 @ zeros 32, txSalt = zeros 16\<rparr>"

lemma demo_tx_verifies: "FullTx_Verify demo_prims demo_tx lookup = Inr ()"
  by (simp add: FullTx_Verify_def FullTx_envelope_def envelope_def envelope_tags demo_tx_def demo_prims_def
      PubKeySize_def SigSize_def HasRecovery_def RecoverPubKey_def VerifyHashSig_def scheme_defs Let_def)

theorem Verify_authenticates_witness:
  "\<exists>scheme pub sig. FullTx_From demo_prims demo_tx = Inr (AddressOfPubKey demo_prims scheme pub)
    \<and> known_scheme scheme \<and> VerifyHashSig demo_prims scheme pub (FullTx_SigningHash demo_prims demo_tx) sig
    \<and> txSign demo_tx = [envelopeRecover, scheme] @ sig"
proof -
  have "txHeight demo_tx \<noteq> 0" "txSign demo_tx ! 0 = envelopeRecover" by (simp_all add: demo_tx_def envelope_tags)
  with Verify_authenticates [OF demo_tx_verifies [of None]] show ?thesis by (auto simp: envelope_tags)
qed

lemma demo_key_sizes: "known_scheme s \<Longrightarrow> 0 < PubKeySize demo_prims s"
  by (auto simp: known_scheme_def PubKeySize_def demo_prims_def)

lemma demo_sizes:
  assumes "known_scheme s"
  shows "length (demo_key s seed) = PubKeySize demo_prims s" "length (demo_sig s sk) = SigSize demo_prims s"
  using assms unfolding known_scheme_def
  by (elim insertE emptyE;
      simp add: PubKeySize_def SigSize_def demo_key_def demo_sig_def demo_prims_def scheme_defs)+

lemma demo_verifies: "known_scheme s \<Longrightarrow> VerifyHashSig demo_prims s (demo_key s sk) h (demo_sig s sk)"
  unfolding VerifyHashSig_def by (simp add: demo_sizes)
    (auto simp: known_scheme_def demo_prims_def scheme_defs demo_sig_def demo_key_def min_def)

lemma demo_signing_correct: "signing_correct demo_prims"
proof -
  have "keyGen demo_prims scheme input = Inr (drop 14 input, demo_key scheme (drop 14 input))"
    and "signRaw demo_prims scheme sk h = Inr (demo_sig scheme sk)" for scheme input sk h
    by (simp_all add: demo_prims_def)
  then show ?thesis by (simp add: signing_correct_def demo_verifies)
qed

definition demo_private :: PrivateKey where
  "demo_private = \<lparr>pkScheme = SchemeSecp256k1, pkSeed = replicate 32 7, pkSecret = replicate 32 7,
     pkPublic = replicate 32 7 @ [0]\<rparr>"

lemma demo_secret: "SetBytes (replicate 32 7) \<noteq> 0"
proof -
  have "replicate 32 (7 :: byte) = replicate (Suc 31) 7" by (rule arg_cong2 [of _ _ _ _ replicate]) simp_all
  then have "rev (replicate 32 7) = 7 # replicate 31 (7 :: byte)" unfolding rev_replicate by (simp only: replicate_Suc)
  then show ?thesis by (simp only: SetBytes_def unpack_le_def) simp
qed

lemma demo_private_new: "NewKeyFromSeed demo_prims SchemeSecp256k1 (replicate 32 7) = Inr demo_private"
  by (simp add: NewKeyFromSeed_def KeySeedSize_def known_scheme_def demo_prims_def demo_key_def keygen_input_def
      demo_private_def scheme_defs zeros_def demo_secret)


section \<open>Extra payloads\<close>

text \<open>C37: deploy payloads round-trip. If inflating a deflated module delivers the module, decoding an
  encoded module returns it, for every module within the decompression limit; and call data round-trip
  to the method and arguments, the default entry being addressed by the empty method.\<close>

theorem extra_roundtrip:
  assumes "\<forall>code buf. deflate P code = Some buf \<longrightarrow> inflate P buf = (code, True)"
    and "\<forall>cd. rlpCallDataDec P (rlpCallData P cd) = Some cd"
    and "length code \<le> inflateLimit"
  shows "DecodeCommitCode P (EncodeCommitCode P code) = Inr code \<and>
    (EncodeCallData P method args = [] \<and> (method = [] \<or> method = EntryOnTx) \<and> args = [] \<or>
     DecodeCallData P (EncodeCallData P method args)
       = Inr (if method = EntryOnTx then [] else method, args))"
proof -
  have "DecodeCommitCode P (EncodeCommitCode P code) = Inr code"
  proof (cases "deflate P code")
    case (Some buf)
    with assms(1) have "inflate P buf = (code, True)" by blast
    with Some assms(3) show ?thesis
      by (auto simp: DecodeCommitCode_def EncodeCommitCode_def commitRaw_def commitDeflate_def)
  qed (simp add: DecodeCommitCode_def EncodeCommitCode_def commitRaw_def)
  moreover have "EncodeCallData P method args = [] \<and> (method = [] \<or> method = EntryOnTx) \<and> args = [] \<or>
     DecodeCallData P (EncodeCallData P method args) = Inr (if method = EntryOnTx then [] else method, args)"
    using assms(2) by (auto simp: EncodeCallData_def DecodeCallData_def Let_def)
  ultimately show ?thesis ..
qed

theorem extra_roundtrip_witness:
  "DecodeCommitCode demo_prims (EncodeCommitCode demo_prims [1, 2, 3]) = Inr [1, 2, 3] \<and>
   DecodeCallData demo_prims (EncodeCallData demo_prims [65] [4, 5]) = Inr ([65], [4, 5])"
  using extra_roundtrip [of demo_prims "[1, 2, 3]" "[65]" "[4, 5]"]
  by (simp add: demo_prims_def demo_unpair_pair EntryOnTx_def str_def inflateLimit_def)

section \<open>Content root\<close>

text \<open>C38: the content root binds contents, not order. Two lists of transactions and commitments with the
  same multiset of content hashes have the same root, so reordering a block's transactions (as
  \<^verbatim>\<open>NewTxTrie\<close> does in place) never changes it; in particular the root of a block equals the root of its
  canonically sorted transactions.\<close>

theorem ContentRoot_canonical:
  assumes "image_mset (FullTx_GetUnsignedHash P) (mset txs) + image_mset (Commitment_GetUnsignedHash P) (mset cs)
    = image_mset (FullTx_GetUnsignedHash P) (mset txs') + image_mset (Commitment_GetUnsignedHash P) (mset cs')"
  shows "ContentRoot P txs cs = ContentRoot P txs' cs' \<and> ContentRoot P (NewTxTrie P txs) cs = ContentRoot P txs cs"
proof -
  have root: "ContentRoot P xs ys = ContentRoot P xs' ys'"
    if eq: "image_mset (FullTx_GetUnsignedHash P) (mset xs) + image_mset (Commitment_GetUnsignedHash P) (mset ys)
      = image_mset (FullTx_GetUnsignedHash P) (mset xs') + image_mset (Commitment_GetUnsignedHash P) (mset ys')"
    for xs xs' ys ys'
  proof -
    let ?h = "\<lambda>xs ys. map (FullTx_GetUnsignedHash P) xs @ map (Commitment_GetUnsignedHash P) ys"
    from eq have "mset (?h xs ys) = mset (?h xs' ys')" by simp
    then have "sort (?h xs' ys') = sort (?h xs ys)" and "length (?h xs ys) = length (?h xs' ys')"
      using properties_for_sort [of "sort (?h xs ys)" "?h xs' ys'"] mset_eq_length [of "?h xs ys" "?h xs' ys'"]
      by simp_all
    then show ?thesis by (auto simp: ContentRoot_def contentRoot_def)
  qed
  show ?thesis using root [OF assms] root [of "NewTxTrie P txs" cs txs cs] by (simp add: NewTxTrie_def)
qed

theorem ContentRoot_canonical_witness:
  "ContentRoot demo_prims [demo_tx, demo_tx\<lparr>txFee := 9\<rparr>] [] = ContentRoot demo_prims [demo_tx\<lparr>txFee := 9\<rparr>, demo_tx] []"
  using ContentRoot_canonical [of demo_prims "[demo_tx, demo_tx\<lparr>txFee := 9\<rparr>]" "[]" "[demo_tx\<lparr>txFee := 9\<rparr>, demo_tx]" "[]"]
  by (simp add: add_mset_commute)

end
