(* ===== verification/Block.thy ===== *)
theory Block
  imports Tx "HOL-Library.Signed_Division"
begin

text \<open>
  \<^verbatim>\<open>ngtypes/block_header.go\<close>, \<^verbatim>\<open>block.go\<close>, \<^verbatim>\<open>block_genesis.go\<close>, \<^verbatim>\<open>difficulty.go\<close> and the block part of
  \<^verbatim>\<open>feemarket.go\<close>: the header and its proof-of-work preimage, the life of a block from bare to sealed, the
  context-free validity check, the genesis block, and the difficulty rule.  The local clock
  (\<^verbatim>\<open>time.Now().UnixMilli()\<close>) is the argument \<open>now\<close>.  A \<^verbatim>\<open>big.Int\<close> division by zero is a panic.
\<close>

section \<open>Definitions\<close>

subsection \<open>Headers\<close>

text \<open>\<^verbatim>\<open>copy(raw[i:j], src)\<close>.\<close>

definition copy_slice :: "nat \<Rightarrow> nat \<Rightarrow> bytes \<Rightarrow> bytes \<Rightarrow> bytes" where
  "copy_slice i j src dst = take i dst @ copy_at 0 src (take (j - i) (drop i dst)) @ drop j dst"

definition GetPoWRawHeader :: "BlockHeader \<Rightarrow> bytes option \<Rightarrow> bytes" where
  "GetPoWRawHeader x nonce =
     (let raw = (zeros 281)[0 := hdNetwork x];
          raw = copy_slice 1 9 (PackUint64LE (hdHeight x)) raw;
          raw = copy_slice 9 17 (PackUint64LE (hdTimestamp x)) raw;
          raw = copy_slice 17 49 (hdPrevBlockHash x) raw;
          raw = copy_slice 49 81 (hdTxTrieHash x) raw;
          raw = copy_slice 81 113 (hdWitnessRoot x) raw;
          raw = copy_slice 113 145 (ReverseBytes (hdDifficulty x)) raw;
          raw = copy_slice 145 177 (hdCoinbase x) raw;
          raw = copy_slice 177 209 (hdUnclesHash x) raw;
          raw = copy_slice 209 241 (hdStateRoot x) raw;
          raw = copy_slice 241 273 (ReverseBytes (hdBaseFee x)) raw
      in case nonce of
           None \<Rightarrow> copy_slice 273 281 (hdNonce x) raw
         | Some n \<Rightarrow> copy_slice 273 281 n raw)"

definition PowHash :: "'p prims_scheme \<Rightarrow> BlockHeader \<Rightarrow> bytes" where
  "PowHash P x = powHash P (GetPoWRawHeader x None)"

definition bigDiv :: "int \<Rightarrow> int \<Rightarrow> error + int" where
  "bigDiv a b = (if b = 0 then Inl Panic else Inr (a div b))"

definition ActualDiff :: "'p prims_scheme \<Rightarrow> BlockHeader \<Rightarrow> error + int" where
  "ActualDiff P x = bigDiv MaxTarget (SetBytes (PowHash P x))"

definition Header_GetHash :: "'p prims_scheme \<Rightarrow> BlockHeader \<Rightarrow> bytes" where
  "Header_GetHash P x = Hash256 P (rlpHeader P x)"

definition checkStandaloneError :: "'p prims_scheme \<Rightarrow> u64 \<Rightarrow> BlockHeader \<Rightarrow> error + unit" where
  "checkStandaloneError P now x =
     (if length (hdPrevBlockHash x) \<noteq> 32 \<or> length (hdTxTrieHash x) \<noteq> 32 \<or> length (hdWitnessRoot x) \<noteq> 32
         \<or> length (hdUnclesHash x) \<noteq> 32 \<or> length (hdStateRoot x) \<noteq> 32 \<or> length (hdCoinbase x) \<noteq> AddressSize
      then Inl (ErrMsg ''malformed fixed-size field'')
      else if length (hdDifficulty x) = 0 \<or> length (hdDifficulty x) > DiffSize
      then Inl (ErrMsg ''malformed difficulty'')
      else if length (hdBaseFee x) > DiffSize then Inl (ErrMsg ''malformed base fee'')
      else if length (hdNonce x) \<noteq> NonceSize then Inl (ErrMsg ''nonce length is incorrect'')
      else if hdHeight x = 0 then Inl (ErrMsg ''the genesis block cannot be an uncle'')
      else if hdTimestamp x > now + TimestampDriftTolerance then Inl (ErrMsg ''timestamp'')
      else bind_result (bigDiv MaxTarget (SetBytes (hdDifficulty x))) (\<lambda>target.
             if SetBytes (PowHash P x) \<ge> target then Inl (ErrMsg ''nonce'') else Inr ()))"

definition Header_Equals :: "BlockHeader \<Rightarrow> BlockHeader \<Rightarrow> bool" where
  "Header_Equals x h =
     (if hdNetwork x \<noteq> hdNetwork h then False
      else if hdHeight x \<noteq> hdHeight h then False
      else if hdTimestamp x \<noteq> hdTimestamp h then False
      else if hdPrevBlockHash x \<noteq> hdPrevBlockHash h then False
      else if hdTxTrieHash x \<noteq> hdTxTrieHash h then False
      else if hdWitnessRoot x \<noteq> hdWitnessRoot h then False
      else if hdDifficulty x \<noteq> hdDifficulty h then False
      else if hdCoinbase x \<noteq> hdCoinbase h then False
      else if hdUnclesHash x \<noteq> hdUnclesHash h then False
      else if hdStateRoot x \<noteq> hdStateRoot h then False
      else if hdBaseFee x \<noteq> hdBaseFee h then False
      else if hdNonce x \<noteq> hdNonce h then False
      else True)"

subsection \<open>Blocks\<close>

definition NewBlock ::
  "Network \<Rightarrow> u64 \<Rightarrow> u64 \<Rightarrow> bytes \<Rightarrow> bytes \<Rightarrow> bytes \<Rightarrow> bytes \<Rightarrow> bytes \<Rightarrow> FullTx list \<Rightarrow> FullBlock" where
  "NewBlock network height timestamp prevBlockHash txTrieHash witnessRoot difficulty nonce txs =
     \<lparr>bkHeader =
        \<lparr>hdNetwork = network, hdHeight = height, hdTimestamp = timestamp,
         hdPrevBlockHash = prevBlockHash, hdTxTrieHash = txTrieHash, hdWitnessRoot = witnessRoot,
         hdDifficulty = difficulty, hdCoinbase = zeros AddressSize, hdUnclesHash = zeros 32,
         hdStateRoot = zeros 32, hdBaseFee = bigBytes MinBaseFee, hdNonce = nonce\<rparr>,
      bkTxs = txs, bkUncles = [], bkCommits = []\<rparr>"

definition SetCoinbase :: "FullBlock \<Rightarrow> Address \<Rightarrow> FullBlock" where
  "SetCoinbase x addr = x\<lparr>bkHeader := (bkHeader x)\<lparr>hdCoinbase := addr\<rparr>\<rparr>"

definition CalcUnclesHash :: "'p prims_scheme \<Rightarrow> BlockHeader list \<Rightarrow> bytes" where
  "CalcUnclesHash P uncles =
     (if length uncles = 0 then zeros 32
      else Hash256 P (foldl (\<lambda>buf u. buf @ Header_GetHash P u) [] uncles))"

definition SetUncles :: "'p prims_scheme \<Rightarrow> FullBlock \<Rightarrow> BlockHeader list \<Rightarrow> FullBlock" where
  "SetUncles P x uncles =
     (let uncles = sort_key (Header_GetHash P) uncles
      in x\<lparr>bkUncles := uncles, bkHeader := (bkHeader x)\<lparr>hdUnclesHash := CalcUnclesHash P uncles\<rparr>\<rparr>)"

definition CalcWitnessRoot :: "'p prims_scheme \<Rightarrow> FullTx list \<Rightarrow> Commitment list \<Rightarrow> bytes" where
  "CalcWitnessRoot P txs commits =
     (let buf = foldl (\<lambda>buf tx. buf @ Hash256 P (txSign tx)) [] txs;
          buf = foldl (\<lambda>buf commit. buf @ Hash256 P (cmSign commit)) buf commits
      in Hash256 P buf)"

definition NewBareBlock :: "Network \<Rightarrow> u64 \<Rightarrow> u64 \<Rightarrow> bytes \<Rightarrow> int \<Rightarrow> FullBlock" where
  "NewBareBlock network height blockTime prevBlockHash diff =
     NewBlock network height blockTime prevBlockHash (zeros 32) (zeros 32) (bigBytes diff) (zeros NonceSize) []"

definition IsUnsealing :: "FullBlock \<Rightarrow> bool" where
  "IsUnsealing x = (hdTxTrieHash (bkHeader x) \<noteq> [])"

definition IsSealed :: "FullBlock \<Rightarrow> bool" where
  "IsSealed x = (hdNonce (bkHeader x) \<noteq> [])"

definition IsHead :: "FullBlock \<Rightarrow> bool" where
  "IsHead x = (hdHeight (bkHeader x) mod of_nat BlockCheckRound = 0)"

definition IsTail :: "FullBlock \<Rightarrow> bool" where
  "IsTail x = ((hdHeight (bkHeader x) + 1) mod of_nat BlockCheckRound = 0)"

definition Block_GetHash :: "'p prims_scheme \<Rightarrow> FullBlock \<Rightarrow> bytes" where
  "Block_GetHash P x = Hash256 P (rlpHeader P (bkHeader x))"

text \<open>The loop of \<^verbatim>\<open>ToUnsealing\<close> over the transactions after the first.\<close>

fun unsealing_txs :: "u64 \<Rightarrow> FullTx list \<Rightarrow> error + unit" where
  "unsealing_txs height [] = Inr ()"
| "unsealing_txs height (tx # txs) =
     (if txType tx = GenerateTx
      then if FullTx_IsSigned tx then Inl ErrBlockOnlyOneGen else unsealing_txs height txs
      else if txHeight tx \<noteq> height then Inl ErrTxExtraInvalid
      else unsealing_txs height txs)"

definition ToUnsealing :: "'p prims_scheme \<Rightarrow> FullBlock \<Rightarrow> FullTx list \<Rightarrow> error + FullBlock" where
  "ToUnsealing P x txsWithGen =
     (case txsWithGen of
        [] \<Rightarrow> Inl Panic
      | tx0 # txs \<Rightarrow>
          if txType tx0 \<noteq> GenerateTx then Inl ErrBlockNoGen
          else bind_result (unsealing_txs (hdHeight (bkHeader x)) txs) (\<lambda>_.
                 let xTxs = NewTxTrie P txsWithGen
                 in Inr (x\<lparr>bkTxs := xTxs,
                          bkHeader := (bkHeader x)\<lparr>hdTxTrieHash := ContentRoot P xTxs (bkCommits x),
                                                   hdWitnessRoot := CalcWitnessRoot P xTxs (bkCommits x)\<rparr>\<rparr>)))"

definition SetCommits :: "FullBlock \<Rightarrow> Commitment list \<Rightarrow> FullBlock" where
  "SetCommits x commits = x\<lparr>bkCommits := commits\<rparr>"

definition ToSealed :: "FullBlock \<Rightarrow> bytes \<Rightarrow> error + FullBlock" where
  "ToSealed x nonce =
     (if \<not> IsUnsealing x then Inl ErrBlockSealBare
      else if length nonce \<noteq> NonceSize then Inl ErrInvalidNonce
      else Inr (x\<lparr>bkHeader := (bkHeader x)\<lparr>hdNonce := nonce\<rparr>\<rparr>))"

definition verifyNonce :: "'p prims_scheme \<Rightarrow> FullBlock \<Rightarrow> error + unit" where
  "verifyNonce P x =
     (if hdHeight (bkHeader x) = 0 then Inr ()
      else bind_result (bigDiv MaxTarget (SetBytes (hdDifficulty (bkHeader x)))) (\<lambda>target.
             if SetBytes (PowHash P (bkHeader x)) < target then Inr () else Inl ErrInvalidNonce))"

definition GetActualDiff :: "'p prims_scheme \<Rightarrow> FullBlock \<Rightarrow> error + int" where
  "GetActualDiff P x = bigDiv MaxTarget (SetBytes (PowHash P (bkHeader x)))"

text \<open>The duplicate loops of \<^verbatim>\<open>CheckError\<close> with their \<^verbatim>\<open>seen\<close> set, and the loops over commitments and
  uncles.\<close>

fun no_duplicates :: "error \<Rightarrow> bytes list \<Rightarrow> bytes list \<Rightarrow> error + unit" where
  "no_duplicates e seen [] = Inr ()"
| "no_duplicates e seen (i # ids) = (if i \<in> set seen then Inl e else no_duplicates e (i # seen) ids)"

fun check_commits :: "'p prims_scheme \<Rightarrow> u64 \<Rightarrow> Commitment list \<Rightarrow> error + unit" where
  "check_commits P height [] = Inr ()"
| "check_commits P height (c # cs) =
     bind_result (Commitment_CheckError P c height None) (\<lambda>_. check_commits P height cs)"

fun check_uncles :: "'p prims_scheme \<Rightarrow> u64 \<Rightarrow> bytes \<Rightarrow> bytes list \<Rightarrow> BlockHeader list \<Rightarrow> error + unit" where
  "check_uncles P now prev seen [] = Inr ()"
| "check_uncles P now prev seen (u # us) =
     (case checkStandaloneError P now u of
        Inl e \<Rightarrow> if e = Panic then Inl Panic else Inl ErrBlockUnclesInvalid
      | Inr _ \<Rightarrow>
          let uh = Header_GetHash P u
          in if uh \<in> set seen then Inl ErrBlockUnclesInvalid
             else if uh = prev then Inl ErrBlockUnclesInvalid
             else check_uncles P now prev (uh # seen) us)"

definition Block_CheckError :: "'p prims_scheme \<Rightarrow> u64 \<Rightarrow> FullBlock \<Rightarrow> error + unit" where
  "Block_CheckError P now x =
     (let hd = bkHeader x in
      if length (bkTxs x) > MaxBlockTxCount then Inl ErrBlockTxsExcess
      else if length (bkCommits x) > MaxBlockCommitCount then Inl ErrBlockCommitsExcess
      else if length (rlpBlock P x) > MaxBlockBytes then Inl ErrBlockBytesExcess
      else if length (hdPrevBlockHash hd) \<noteq> 32 then Inl ErrBlockPrevHashInvalid
      else if length (hdTxTrieHash hd) \<noteq> 32 then Inl ErrBlockTxTrieHashInvalid
      else if length (hdNonce hd) \<noteq> NonceSize then Inl ErrInvalidNonce
      else if hdTimestamp hd > now + TimestampDriftTolerance then Inl ErrBlockTimestampInvalid
      else if \<not> IsSealed x then Inl ErrBlockNotSealed
      else bind_result (check_commits P (hdHeight hd) (bkCommits x)) (\<lambda>_.
      bind_result (no_duplicates ErrBlockDuplicateTx []
          (map (FullTx_GetHash P) (filter (\<lambda>tx. txType tx \<noteq> GenerateTx) (bkTxs x)))) (\<lambda>_.
      bind_result (no_duplicates ErrBlockDuplicateCommit [] (map cmHash (bkCommits x))) (\<lambda>_.
      if ContentRoot P (bkTxs x) (bkCommits x) \<noteq> hdTxTrieHash hd then Inl ErrBlockTxTrieHashInvalid
      else if CalcWitnessRoot P (bkTxs x) (bkCommits x) \<noteq> hdWitnessRoot hd then Inl ErrBlockWitnessRootInvalid
      else if length (hdCoinbase hd) \<noteq> AddressSize then Inl ErrBlockUnclesInvalid
      else if length (hdUnclesHash hd) \<noteq> 32 then Inl ErrBlockUnclesInvalid
      else if length (hdStateRoot hd) \<noteq> 32 then Inl ErrBlockStateRootInvalid
      else if length (hdBaseFee hd) > DiffSize then Inl ErrBlockBaseFeeInvalid
      else if length (bkUncles x) > MaxUncles then Inl ErrBlockUnclesInvalid
      else if CalcUnclesHash P (bkUncles x) \<noteq> hdUnclesHash hd then Inl ErrBlockUnclesInvalid
      else bind_result (check_uncles P now (hdPrevBlockHash hd) [] (bkUncles x)) (\<lambda>_.
           verifyNonce P x)))))"

definition Block_Equals :: "FullBlock \<Rightarrow> FullBlock \<Rightarrow> bool" where
  "Block_Equals x other =
     (if \<not> Header_Equals (bkHeader x) (bkHeader other) then False
      else if length (bkTxs x) \<noteq> length (bkTxs other) then False
      else list_all2 FullTx_Equals (bkTxs x) (bkTxs other))"

definition GetTx :: "FullBlock \<Rightarrow> int \<Rightarrow> FullTx option" where
  "GetTx x i = (if i \<ge> int (length (bkTxs x)) \<or> i < 0 then None else Some (bkTxs x ! nat i))"

subsection \<open>Genesis\<close>

definition genesisStateRoot :: "'p prims_scheme \<Rightarrow> Network \<Rightarrow> bytes" where
  "genesisStateRoot P network =
     (let store = NewMemStore;
          reward = GetBlockReward 0;
          store = (if reward \<noteq> 0
                   then case Update (Hash256 P) MemStore_ops store
                               (LeafPath (Hash256 P) DomainBalance GenesisAddress)
                               (ValueHash (Hash256 P) (bigBytes reward)) of
                          Inl e \<Rightarrow> store
                        | Inr s \<Rightarrow> s
                   else store)
      in Root (Hash256 P) MemStore_ops store)"

definition GetGenesisBlock :: "'p prims_scheme \<Rightarrow> Network \<Rightarrow> error + FullBlock" where
  "GetGenesisBlock P network =
     bind_result (GetGenesisGenerateTx network) (\<lambda>gen.
     bind_result (GetGenesisTimestamp network) (\<lambda>ts.
     bind_result (GetGenesisBlockNonce network) (\<lambda>nonce.
       let txs = NewTxTrie P [gen];
           b = NewBlock network 0 ts (zeros 32) (TrieRoot P txs) (CalcWitnessRoot P txs [])
                 (bigBytes (MinimumDiffOf network)) nonce txs;
           b = SetCoinbase b GenesisAddress
       in Inr (b\<lparr>bkHeader := (bkHeader b)\<lparr>hdStateRoot := genesisStateRoot P network,
                                          hdBaseFee := bigBytes MinBaseFee\<rparr>\<rparr>))))"

definition IsGenesis :: "'p prims_scheme \<Rightarrow> FullBlock \<Rightarrow> error + bool" where
  "IsGenesis P x =
     bind_result (GetGenesisBlock P (hdNetwork (bkHeader x))) (\<lambda>g. Inr (Block_GetHash P x = Block_GetHash P g))"

subsection \<open>Difficulty and used bytes\<close>

text \<open>Signed 64-bit arithmetic is word arithmetic read with \<^const>\<open>sint\<close>; \<^verbatim>\<open>Quo\<close> truncates.\<close>

definition GetNextDiff :: "u64 \<Rightarrow> u64 \<Rightarrow> FullBlock \<Rightarrow> error + int" where
  "GetNextDiff blockHeight blockTime parentBlock =
     (let hd = bkHeader parentBlock; diff = SetBytes (hdDifficulty hd)
      in bind_result (GetGenesisTimestamp (hdNetwork hd)) (\<lambda>genesisTime.
         if hdTimestamp hd < genesisTime then Inl Panic
         else let target = targetTimeAt (hdNetwork hd) blockHeight;
                  target = (if target < 1 then 1 else target);
                  d = blockTime - hdTimestamp hd;
                  factor = sint (of_int target - d);
                  factor = (if factor > target then target else factor);
                  factor = (if factor < -99 * target then -99 * target else factor);
                  diff = diff + (diff * factor) sdiv (2048 * target);
                  ex = sint blockHeight sdiv 100000 - 2;
                  diff = (if ex \<ge> 0 then diff + 2 ^ nat ex else diff);
                  minimum = MinimumDiffOf (hdNetwork hd)
              in Inr (if diff < minimum then minimum else diff)))"

definition BlockUsedBytes :: "'p prims_scheme \<Rightarrow> FullBlock \<Rightarrow> u64" where
  "BlockUsedBytes P block =
     foldl (\<lambda>used tx. if txType tx = GenerateTx then used else used + of_nat (length (rlpTx P tx))) 0 (bkTxs block)"

section \<open>The proof-of-work preimage\<close>

definition padr :: "nat \<Rightarrow> bytes \<Rightarrow> bytes" where
  "padr n s = s @ zeros (n - length s)"

lemma length_padr [simp]: "length s \<le> n \<Longrightarrow> length (padr n s) = n"
  by (simp add: padr_def)

lemma padr_full [simp]: "length s = n \<Longrightarrow> padr n s = s"
  by (simp add: padr_def zeros_def)

lemma copy_slice_field:
  assumes "length pre = i" "i \<le> j" "length src \<le> j - i" "j - i \<le> k"
  shows "copy_slice i j src (pre @ zeros k) = (pre @ padr (j - i) src) @ zeros (k - (j - i))"
  using assms by (simp add: copy_slice_def copy_at_def padr_def zeros_def min_def)

lemma unpack_le_append_zeros: "unpack_le (s @ zeros n) = unpack_le s"
proof -
  have "unpack_le (zeros n) = 0" by (induction n) (simp_all add: zeros_def)
  then show ?thesis by (induction s) simp_all
qed

lemma padr_SetBytes:
  assumes "padr n (rev a) = padr n (rev b)" shows "SetBytes a = SetBytes b"
proof -
  have "unpack_le (padr n (rev a)) = unpack_le (padr n (rev b))" using assms by simp
  then show ?thesis by (simp add: padr_def unpack_le_append_zeros SetBytes_def)
qed

definition header_sized :: "BlockHeader \<Rightarrow> bool" where
  "header_sized x \<longleftrightarrow> length (hdPrevBlockHash x) = 32 \<and> length (hdTxTrieHash x) = 32
     \<and> length (hdWitnessRoot x) = 32 \<and> length (hdDifficulty x) \<le> 32 \<and> length (hdCoinbase x) = 32
     \<and> length (hdUnclesHash x) = 32 \<and> length (hdStateRoot x) = 32 \<and> length (hdBaseFee x) \<le> 32
     \<and> length (hdNonce x) = 8"

lemma PoW_layout:
  assumes "header_sized x"
  shows "GetPoWRawHeader x None =
    ([hdNetwork x] @ PackUint64LE (hdHeight x) @ PackUint64LE (hdTimestamp x) @ hdPrevBlockHash x
     @ hdTxTrieHash x @ hdWitnessRoot x @ padr 32 (rev (hdDifficulty x)) @ hdCoinbase x @ hdUnclesHash x
     @ hdStateRoot x @ padr 32 (rev (hdBaseFee x)) @ hdNonce x)"
proof -
  have "(281 :: nat) = Suc 280" by simp
  then have init: "(zeros 281)[0 := n] = [n] @ zeros 280" for n
    by (simp only: zeros_def replicate_Suc list_update.simps append.simps nat.case)
  show ?thesis
    using assms unfolding GetPoWRawHeader_def Let_def init header_sized_def
    by (simp add: copy_slice_field ReverseBytes_rev del: append.simps append_assoc)
      (simp add: zeros_def)
qed

text \<open>C28: nothing in a well-formed header escapes the proof of work. Two headers with fixed-size fields
  of the right length and the same preimage agree in every field; difficulty and base fee, whose
  big-endian form is not forced to be minimal, agree as numbers.\<close>

theorem PoW_preimage_binding:
  assumes "header_sized x" and "header_sized y" and "GetPoWRawHeader x None = GetPoWRawHeader y None"
  shows "hdNetwork x = hdNetwork y \<and> hdHeight x = hdHeight y \<and> hdTimestamp x = hdTimestamp y
    \<and> hdPrevBlockHash x = hdPrevBlockHash y \<and> hdTxTrieHash x = hdTxTrieHash y
    \<and> hdWitnessRoot x = hdWitnessRoot y \<and> SetBytes (hdDifficulty x) = SetBytes (hdDifficulty y)
    \<and> hdCoinbase x = hdCoinbase y \<and> hdUnclesHash x = hdUnclesHash y \<and> hdStateRoot x = hdStateRoot y
    \<and> SetBytes (hdBaseFee x) = SetBytes (hdBaseFee y) \<and> hdNonce x = hdNonce y"
proof -
  have app: "a @ r = b @ t \<longleftrightarrow> a = b \<and> r = t" if "length a = length b" for a b r t :: bytes
    using that by simp
  have len: "length (padr 32 (rev (hdDifficulty x))) = length (padr 32 (rev (hdDifficulty y)))"
    "length (padr 32 (rev (hdBaseFee x))) = length (padr 32 (rev (hdBaseFee y)))"
    using assms(1,2) by (simp_all add: header_sized_def)
  from assms(3) have "padr 32 (rev (hdDifficulty x)) = padr 32 (rev (hdDifficulty y))
      \<and> padr 32 (rev (hdBaseFee x)) = padr 32 (rev (hdBaseFee y))
      \<and> hdNetwork x = hdNetwork y \<and> hdHeight x = hdHeight y \<and> hdTimestamp x = hdTimestamp y
    \<and> hdPrevBlockHash x = hdPrevBlockHash y \<and> hdTxTrieHash x = hdTxTrieHash y
    \<and> hdWitnessRoot x = hdWitnessRoot y
    \<and> hdCoinbase x = hdCoinbase y \<and> hdUnclesHash x = hdUnclesHash y \<and> hdStateRoot x = hdStateRoot y
    \<and> hdNonce x = hdNonce y"
    unfolding PoW_layout [OF assms(1)] PoW_layout [OF assms(2)]
    using assms(1,2) len by (simp add: header_sized_def app)
  with padr_SetBytes show ?thesis by blast
qed

section \<open>The context-free check\<close>

lemma no_duplicates_iff:
  "no_duplicates e seen ids = Inr () \<longleftrightarrow> distinct ids \<and> set ids \<inter> set seen = {}"
  by (induction ids arbitrary: seen) auto

lemma no_duplicates_Inl: "no_duplicates e seen ids = Inl e' \<Longrightarrow> e' = e"
  by (induction ids arbitrary: seen) (auto split: if_splits)

lemma check_commits_iff:
  "check_commits P h cs = Inr () \<longleftrightarrow> (\<forall>c \<in> set cs. Commitment_CheckError P c h None = Inr ())"
  by (induction cs) (auto simp: result_simps)

lemma Commitment_CheckError_Inr:
  assumes "Commitment_CheckError P c h lookup = Inr ()"
  shows "length (cmHash c) = 32 \<and> cmFee c \<noteq> None \<and> cmHeight c = h \<and> Commitment_Verify P c lookup = Inr ()"
  using assms by (auto simp: Commitment_CheckError_def split: if_splits)

lemma Commitment_Verify_compact_nil:
  assumes "cmSign c \<noteq> []" "cmSign c ! 0 = envelopeCompact"
  shows "Commitment_Verify P c None \<noteq> Inr ()"
  using envelope_compact_nil [OF assms, of P]
  by (auto simp: Commitment_Verify_def Commitment_envelope_def result_simps)

lemma check_uncles_Inr:
  assumes "check_uncles P now prev seen us = Inr ()"
  shows "(\<forall>u \<in> set us. checkStandaloneError P now u = Inr () \<and> Header_GetHash P u \<noteq> prev)
    \<and> distinct (map (Header_GetHash P) us) \<and> set (map (Header_GetHash P) us) \<inter> set seen = {}"
  using assms
proof (induction us arbitrary: seen)
  case (Cons u us)
  from Cons.prems have
    "checkStandaloneError P now u = Inr () \<and> Header_GetHash P u \<notin> set seen \<and> Header_GetHash P u \<noteq> prev"
    and "check_uncles P now prev (Header_GetHash P u # seen) us = Inr ()"
    by (auto simp: Let_def split: sum.splits if_splits)
  with Cons.IH [of "Header_GetHash P u # seen"] show ?case by auto
qed simp

lemma Block_CheckError_Inr:
  assumes "Block_CheckError P now x = Inr ()"
  defines "h \<equiv> bkHeader x"
  shows "length (bkTxs x) \<le> MaxBlockTxCount" "length (bkCommits x) \<le> MaxBlockCommitCount"
    "length (rlpBlock P x) \<le> MaxBlockBytes" "hdTimestamp h \<le> now + TimestampDriftTolerance"
    "length (hdPrevBlockHash h) = 32" "length (hdNonce h) = 8"
    "check_commits P (hdHeight h) (bkCommits x) = Inr ()"
    "no_duplicates ErrBlockDuplicateTx []
       (map (FullTx_GetHash P) (filter (\<lambda>tx. txType tx \<noteq> GenerateTx) (bkTxs x))) = Inr ()"
    "no_duplicates ErrBlockDuplicateCommit [] (map cmHash (bkCommits x)) = Inr ()"
    "hdTxTrieHash h = ContentRoot P (bkTxs x) (bkCommits x)"
    "hdWitnessRoot h = CalcWitnessRoot P (bkTxs x) (bkCommits x)"
    "length (bkUncles x) \<le> MaxUncles" "hdUnclesHash h = CalcUnclesHash P (bkUncles x)"
    "check_uncles P now (hdPrevBlockHash h) [] (bkUncles x) = Inr ()"
    "verifyNonce P x = Inr ()"
    "length (hdTxTrieHash h) = 32" "IsSealed x" "length (hdCoinbase h) = AddressSize"
    "length (hdUnclesHash h) = 32" "length (hdStateRoot h) = 32" "length (hdBaseFee h) \<le> DiffSize"
  using assms
  by (auto simp: Block_CheckError_def NonceSize_def Let_def result_simps split: if_splits)

lemma verifyNonce_Inr:
  assumes "verifyNonce P x = Inr ()" "hdHeight (bkHeader x) \<noteq> 0"
  shows "0 < SetBytes (hdDifficulty (bkHeader x))
    \<and> SetBytes (PowHash P (bkHeader x)) < MaxTarget div SetBytes (hdDifficulty (bkHeader x))"
  using assms SetBytes_nonneg [of "hdDifficulty (bkHeader x)"]
  by (auto simp: verifyNonce_def bigDiv_def result_simps less_le split: if_splits)

lemma checkStandaloneError_Inr:
  assumes "checkStandaloneError P now u = Inr ()"
  shows "hdHeight u \<noteq> 0 \<and> hdTimestamp u \<le> now + TimestampDriftTolerance \<and> 0 < SetBytes (hdDifficulty u)
    \<and> SetBytes (PowHash P u) < MaxTarget div SetBytes (hdDifficulty u)"
  using assms SetBytes_nonneg [of "hdDifficulty u"]
  by (auto simp: checkStandaloneError_def bigDiv_def result_simps less_le split: if_splits)

text \<open>C18: what an accepted block guarantees. Its header commits to its content and witness roots and its
  uncles; its commitments are well-formed, carry the block's height and verify without a key registry;
  no effect transaction id and no commitment hash occurs twice; it carries at most two uncles, all distinct, none of
  them the parent or a genesis block, none from the future, each with a nonce whose proof of work meets the positive
  difficulty the uncle declares; and above genesis its own nonce meets the declared difficulty, which is positive.\<close>

theorem CheckError_guarantees:
  assumes "Block_CheckError P now x = Inr ()"
  shows "hdTxTrieHash (bkHeader x) = ContentRoot P (bkTxs x) (bkCommits x)
    \<and> hdWitnessRoot (bkHeader x) = CalcWitnessRoot P (bkTxs x) (bkCommits x)
    \<and> hdUnclesHash (bkHeader x) = CalcUnclesHash P (bkUncles x)
    \<and> (\<forall>c \<in> set (bkCommits x). cmHeight c = hdHeight (bkHeader x) \<and> length (cmHash c) = 32
         \<and> Commitment_Verify P c None = Inr ())
    \<and> distinct (map (FullTx_GetHash P) (filter (\<lambda>tx. txType tx \<noteq> GenerateTx) (bkTxs x)))
    \<and> distinct (map cmHash (bkCommits x))
    \<and> length (bkUncles x) \<le> MaxUncles \<and> distinct (map (Header_GetHash P) (bkUncles x))
    \<and> (\<forall>u \<in> set (bkUncles x). Header_GetHash P u \<noteq> hdPrevBlockHash (bkHeader x) \<and> hdHeight u \<noteq> 0
         \<and> hdTimestamp u \<le> now + TimestampDriftTolerance \<and> 0 < SetBytes (hdDifficulty u)
         \<and> SetBytes (PowHash P u) < MaxTarget div SetBytes (hdDifficulty u))
    \<and> (hdHeight (bkHeader x) \<noteq> 0 \<longrightarrow> 0 < SetBytes (hdDifficulty (bkHeader x))
         \<and> SetBytes (PowHash P (bkHeader x)) < MaxTarget div SetBytes (hdDifficulty (bkHeader x)))"
proof -
  note ok = Block_CheckError_Inr [OF assms]
  have commits: "\<forall>c \<in> set (bkCommits x). cmHeight c = hdHeight (bkHeader x) \<and> length (cmHash c) = 32
         \<and> Commitment_Verify P c None = Inr ()"
    using ok(7) Commitment_CheckError_Inr [of P] by (auto simp: check_commits_iff)
  have uncles: "\<forall>u \<in> set (bkUncles x). Header_GetHash P u \<noteq> hdPrevBlockHash (bkHeader x) \<and> hdHeight u \<noteq> 0
         \<and> hdTimestamp u \<le> now + TimestampDriftTolerance \<and> 0 < SetBytes (hdDifficulty u)
         \<and> SetBytes (PowHash P u) < MaxTarget div SetBytes (hdDifficulty u)"
    using check_uncles_Inr [OF ok(14)] checkStandaloneError_Inr [of P now] by blast
  show ?thesis
    using ok(8-13) commits uncles check_uncles_Inr [OF ok(14)] verifyNonce_Inr [OF ok(15)]
    by (simp add: no_duplicates_iff)
qed

text \<open>C34: a block that carries a commitment with a compact envelope is never accepted, because the
  context-free check verifies commitments without a key registry. The pool and the state layer resolve
  compact commitments against the registry and accept them, so one such pooled commitment invalidates
  every block template that includes it.\<close>

theorem CheckError_rejects_compact_commitments:
  assumes "c \<in> set (bkCommits x)" and "cmSign c \<noteq> []" and "cmSign c ! 0 = envelopeCompact"
  shows "Block_CheckError P now x \<noteq> Inr ()"
proof
  assume "Block_CheckError P now x = Inr ()"
  from Block_CheckError_Inr(7) [OF this] assms(1) have "Commitment_Verify P c None = Inr ()"
    by (auto simp: check_commits_iff dest: Commitment_CheckError_Inr)
  with Commitment_Verify_compact_nil [OF assms(2,3)] show False by blast
qed

text \<open>C33: a declared difficulty of zero crashes the check instead of failing it. Take any acceptable block
  above genesis and replace its difficulty field by bytes that denote zero (the empty string included):
  \<^verbatim>\<open>CheckError\<close> then divides by zero. The gossip validator calls it on every decoded block without a
  recover.\<close>

theorem CheckError_zero_difficulty_panics:
  assumes "Block_CheckError P now y = Inr ()" and "hdHeight (bkHeader y) \<noteq> 0" and "SetBytes d = 0"
    and "x = y\<lparr>bkHeader := (bkHeader y)\<lparr>hdDifficulty := d\<rparr>\<rparr>" and "length (rlpBlock P x) \<le> MaxBlockBytes"
  shows "Block_CheckError P now x = Inl Panic"
proof -
  have "verifyNonce P x = Inl Panic"
    using assms(2,3) by (simp add: assms(4) verifyNonce_def bigDiv_def)
  moreover have "Block_CheckError P now x = verifyNonce P x"
  proof -
    note ok = Block_CheckError_Inr [OF assms(1)]
    have "\<not> length (bkTxs y) > MaxBlockTxCount" "\<not> length (bkCommits y) > MaxBlockCommitCount"
      "\<not> hdTimestamp (bkHeader y) > now + TimestampDriftTolerance"
      "\<not> length (hdBaseFee (bkHeader y)) > DiffSize" "\<not> length (bkUncles y) > MaxUncles"
      "\<not> length (rlpBlock P x) > MaxBlockBytes" "length (hdNonce (bkHeader y)) = NonceSize"
      using ok assms(5) by (simp_all add: NonceSize_def)
    moreover have "IsSealed x" using ok(17) by (simp add: assms(4) IsSealed_def)
    moreover have "bkTxs x = bkTxs y" "bkCommits x = bkCommits y" "bkUncles x = bkUncles y"
      "hdHeight (bkHeader x) = hdHeight (bkHeader y)" "hdTimestamp (bkHeader x) = hdTimestamp (bkHeader y)"
      "hdPrevBlockHash (bkHeader x) = hdPrevBlockHash (bkHeader y)" "hdNonce (bkHeader x) = hdNonce (bkHeader y)"
      "hdTxTrieHash (bkHeader x) = hdTxTrieHash (bkHeader y)"
      "hdWitnessRoot (bkHeader x) = hdWitnessRoot (bkHeader y)" "hdCoinbase (bkHeader x) = hdCoinbase (bkHeader y)"
      "hdUnclesHash (bkHeader x) = hdUnclesHash (bkHeader y)"
      "hdStateRoot (bkHeader x) = hdStateRoot (bkHeader y)" "hdBaseFee (bkHeader x) = hdBaseFee (bkHeader y)"
      by (simp_all add: assms(4))
    ultimately show ?thesis
      unfolding Block_CheckError_def Let_def using ok(5,7-11,13,14,16,18-20) by simp
  qed
  ultimately show ?thesis by simp
qed

lemma MaxTarget_eq: "MaxTarget = 2 ^ 256 - 1"
proof -
  have "unpack_le (replicate n 255) + 1 = 256 ^ n" for n by (induction n) simp_all
  from this [of 32] show ?thesis by (simp add: MaxTarget_def SetBytes_def)
qed

lemma length_MinBaseFee: "length (bigBytes MinBaseFee) = 5"
  by (simp add: bigBytes_def MinBaseFee_def le_digits.simps)

definition demo_block :: FullBlock where
  "demo_block = NewBlock ZERONET 1 1603497604000 (zeros 32) (zeros 32) (zeros 32) [1] (zeros 8) []"

lemma demo_block_ok: "Block_CheckError demo_prims 1603497604000 demo_block = Inr ()"
proof -
  have "zeros 8 \<noteq> []" by (simp add: zeros_def)
  then show ?thesis
    by (simp add: length_MinBaseFee DiffSize_def Block_CheckError_def demo_block_def NewBlock_def demo_prims_def IsSealed_def NonceSize_def
        ContentRoot_def CalcWitnessRoot_def CalcUnclesHash_def verifyNonce_def bigDiv_def PowHash_def
        MaxTarget_eq TimestampDriftTolerance_def AddressSize_def MaxUncles_def pad32_def HashSize_def
        SetBytes_def Let_def)
qed

theorem PoW_preimage_binding_witness:
  "\<exists>x y. header_sized x \<and> header_sized y \<and> x \<noteq> y \<and> GetPoWRawHeader x None = GetPoWRawHeader y None
    \<and> SetBytes (hdDifficulty x) = SetBytes (hdDifficulty y)"
proof -
  let ?x = "bkHeader demo_block" and ?y = "(bkHeader demo_block)\<lparr>hdDifficulty := [0, 1]\<rparr>"
  have sized: "header_sized ?x" "header_sized ?y"
    by (simp_all add: header_sized_def demo_block_def NewBlock_def AddressSize_def length_MinBaseFee)
  have "padr 32 (rev [1]) = padr 32 (rev [0, 1 :: byte])"
    by (simp add: padr_def zeros_def flip: replicate_Suc)
  then have eq: "GetPoWRawHeader ?x None = GetPoWRawHeader ?y None"
    unfolding PoW_layout [OF sized(1)] PoW_layout [OF sized(2)] by (simp add: demo_block_def NewBlock_def)
  have "?x \<noteq> ?y" by (simp add: demo_block_def NewBlock_def)
  with sized eq PoW_preimage_binding [OF sized eq] show ?thesis by blast
qed

theorem CheckError_guarantees_witness:
  "hdTxTrieHash (bkHeader demo_block) = ContentRoot demo_prims (bkTxs demo_block) (bkCommits demo_block)
    \<and> 0 < SetBytes (hdDifficulty (bkHeader demo_block))
    \<and> SetBytes (PowHash demo_prims (bkHeader demo_block)) < MaxTarget div SetBytes (hdDifficulty (bkHeader demo_block))"
proof -
  have "hdHeight (bkHeader demo_block) \<noteq> 0" by (simp add: demo_block_def NewBlock_def)
  with CheckError_guarantees [OF demo_block_ok] show ?thesis by blast
qed

definition demo_compact :: Commitment where
  "demo_compact = \<lparr>cmNetwork = ZERONET, cmHeight = 1, cmHash = zeros 32, cmFee = Some 1,
     cmSign = [2, 16] @ zeros 32 @ zeros 666\<rparr>"

theorem CheckError_rejects_compact_commitments_witness:
  "Block_CheckError demo_prims 1603497604000 (SetCommits demo_block [demo_compact]) \<noteq> Inr ()"
  by (rule CheckError_rejects_compact_commitments [where c = demo_compact])
    (simp_all add: SetCommits_def demo_compact_def envelope_tags)

theorem CheckError_zero_difficulty_panics_witness:
  "Block_CheckError demo_prims 1603497604000
     (demo_block\<lparr>bkHeader := (bkHeader demo_block)\<lparr>hdDifficulty := []\<rparr>\<rparr>) = Inl Panic"
  by (rule CheckError_zero_difficulty_panics [OF demo_block_ok _ _ refl])
    (simp_all add: demo_block_def NewBlock_def demo_prims_def)

section \<open>Building a block\<close>

lemma unsealing_txs_Inr:
  "unsealing_txs h txs = Inr () \<longleftrightarrow>
     (\<forall>tx \<in> set txs. if txType tx = GenerateTx then \<not> FullTx_IsSigned tx else txHeight tx = h)"
  by (induction h txs rule: unsealing_txs.induct) auto

text \<open>C26: a mined block satisfies its own commitments. From any transaction list, \<^verbatim>\<open>ToUnsealing\<close> followed by
  \<^verbatim>\<open>ToSealed\<close> yields a block with exactly those transactions in canonical hash order, whose header roots
  are the ones \<^verbatim>\<open>CheckError\<close> recomputes, all effect transactions after the first locked to the block's
  height and no second signed generate.\<close>

theorem mined_block_commits:
  assumes "ToUnsealing P x txs = Inr y" and "ToSealed y nonce = Inr z"
  shows "mset (bkTxs z) = mset txs \<and> sorted (map (FullTx_GetHash P) (bkTxs z))
    \<and> hdTxTrieHash (bkHeader z) = ContentRoot P (bkTxs z) (bkCommits z)
    \<and> hdWitnessRoot (bkHeader z) = CalcWitnessRoot P (bkTxs z) (bkCommits z)
    \<and> hdNonce (bkHeader z) = nonce \<and> length nonce = NonceSize
    \<and> txs \<noteq> [] \<and> txType (txs ! 0) = GenerateTx
    \<and> (\<forall>tx \<in> set (tl txs). if txType tx = GenerateTx then \<not> FullTx_IsSigned tx
         else txHeight tx = hdHeight (bkHeader z))"
  using assms
  by (cases txs) (auto simp: ToUnsealing_def ToSealed_def NewTxTrie_def unsealing_txs_Inr result_simps Let_def
      sorted_insort_key split: if_splits)

lemma length_ContentRoot_demo: "length (ContentRoot demo_prims txs cs) = 32"
  using hash32_pad32 by (simp add: ContentRoot_def contentRoot_def demo_prims_def hash32_def HashSize_def)

theorem mined_block_commits_witness:
  "\<exists>y z. ToUnsealing demo_prims demo_block [demo_tx\<lparr>txType := GenerateTx\<rparr>, demo_tx\<lparr>txHeight := 1\<rparr>] = Inr y
    \<and> ToSealed y (replicate 8 3) = Inr z
    \<and> hdTxTrieHash (bkHeader z) = ContentRoot demo_prims (bkTxs z) (bkCommits z)"
proof -
  obtain y where y: "ToUnsealing demo_prims demo_block
      [demo_tx\<lparr>txType := GenerateTx\<rparr>, demo_tx\<lparr>txHeight := 1\<rparr>] = Inr y" "length (hdTxTrieHash (bkHeader y)) = 32"
    by (simp add: ToUnsealing_def demo_tx_def demo_block_def NewBlock_def tx_type_defs Let_def
        length_ContentRoot_demo)
  then have "hdTxTrieHash (bkHeader y) \<noteq> []" by auto
  then obtain z where "ToSealed y (replicate 8 3) = Inr z"
    by (simp add: ToSealed_def IsUnsealing_def NonceSize_def)
  with mined_block_commits [OF y(1) this] y(1) show ?thesis by blast
qed

section \<open>Difficulty\<close>

lemma sdiv_pos: "0 < b \<Longrightarrow> (a :: int) sdiv b = sgn a * (\<bar>a\<bar> div b)"
  by (simp add: signed_divide_int_def)

text \<open>The retarget step as a function of the clamped factor: between \<open>-99/2048\<close> and \<open>1/2048\<close> of the parent
  difficulty, with the sign of the factor.\<close>

lemma retarget_step:
  fixes D f :: int
  assumes D: "0 \<le> D" and f: "- 99 * 4000 \<le> f" "f \<le> 4000"
  shows "(D * f) sdiv 8192000 \<le> D div 2048" "- (99 * D div 2048) \<le> (D * f) sdiv 8192000"
    "0 \<le> f \<Longrightarrow> 0 \<le> (D * f) sdiv 8192000" "f \<le> 0 \<Longrightarrow> (D * f) sdiv 8192000 \<le> 0"
proof -
  have up: "D * g div 8192000 \<le> k * D div 2048" if "0 \<le> g" "g \<le> k * 4000" for g k
  proof -
    have "D * g \<le> D * (k * 4000)" using D that by (intro mult_left_mono) simp_all
    then have "D * g div 8192000 \<le> D * (k * 4000) div 8192000" by (rule zdiv_mono1) simp
    also have "D * (k * 4000) div 8192000 = (k * D) * 4000 div (2048 * 4000)" by (simp add: algebra_simps)
    also have "\<dots> = k * D div 2048" by (rule div_mult_mult2) simp
    finally show ?thesis .
  qed
  have nonneg: "0 \<le> D * g div 8192000" if "0 \<le> g" for g
    using D that by (simp add: pos_imp_zdiv_nonneg_iff)
  have pos: "(D * f) sdiv 8192000 = D * f div 8192000" if "0 \<le> f"
    using D that by (cases "D * f = 0") (auto simp: sdiv_pos zero_less_mult_iff abs_mult)
  have neg: "(D * f) sdiv 8192000 = - (D * (- f) div 8192000)" if "f \<le> 0"
  proof (cases "D * f = 0")
    case False
    then have "D * f < 0" using D that by (auto simp: mult_less_0_iff)
    then show ?thesis by (simp add: sdiv_pos)
  qed (auto simp: sdiv_pos)
  have D8: "0 \<le> D div 2048" "0 \<le> 99 * D div 2048" using D by (simp_all add: pos_imp_zdiv_nonneg_iff)
  show "0 \<le> f \<Longrightarrow> 0 \<le> (D * f) sdiv 8192000" using pos nonneg by simp
  show "f \<le> 0 \<Longrightarrow> (D * f) sdiv 8192000 \<le> 0" using neg nonneg [of "- f"] by simp
  show "(D * f) sdiv 8192000 \<le> D div 2048"
    using pos neg up [of f 1] nonneg [of "- f"] f D8 by (cases "0 \<le> f") (auto intro: order_trans)
  show "- (99 * D div 2048) \<le> (D * f) sdiv 8192000"
    using pos neg up [of "- f" 99] nonneg [of f] f D8 by (cases "0 \<le> f") auto
qed

lemma signed_63: "- (2 ^ 63) \<le> k \<Longrightarrow> k < 2 ^ 63 \<Longrightarrow> signed_take_bit 63 (k :: int) = k"
  by (rule signed_take_bit_int_eq_self)

lemma uint_bound: "unat (w :: u64) < 2 ^ n \<Longrightarrow> uint w < 2 ^ n"
proof -
  assume "unat w < 2 ^ n"
  then have "int (unat w) < int (2 ^ n)" by (simp only: of_nat_less_iff)
  then show ?thesis by simp
qed

lemma sint_small:
  assumes "unat (w :: u64) < 2 ^ 62" shows "sint w = uint w"
proof -
  have "uint w < 2 ^ 62" "0 \<le> uint w" using uint_bound [OF assms] by simp_all
  moreover have "(2 :: int) ^ 62 \<le> 2 ^ 63" "(0 :: int) \<le> 2 ^ 63" by simp_all
  ultimately have "- (2 ^ 63) \<le> uint w" "uint w < 2 ^ 63" by linarith+
  from signed_63 [OF this] show ?thesis by (simp add: sint_uint)
qed

lemma interval_factor:
  assumes "p \<le> (t :: u64)" "unat t < 2 ^ 62"
  shows "sint (4000 - (t - p)) = 4000 - (uint t - uint p)"
proof -
  have "4000 - (t - p) = word_of_int (4000 - (uint t - uint p))" by simp
  then have eq: "sint (4000 - (t - p)) = signed_take_bit 63 (4000 - (uint t - uint p))"
    by (simp only: signed_of_int) simp
  have "uint t < 2 ^ 62" "uint p \<le> uint t" "0 \<le> uint p"
    using uint_bound [OF assms(2)] assms(1) by (simp_all add: word_le_def)
  moreover have "(2 :: int) ^ 62 \<le> 2 ^ 63" "(4000 :: int) < 2 ^ 63" by simp_all
  ultimately have "- (2 ^ 63) \<le> 4000 - (uint t - uint p)" "4000 - (uint t - uint p) < 2 ^ 63" by linarith+
  from signed_63 [OF this] show ?thesis by (simp only: eq)
qed

text \<open>C29: the difficulty rule. For a block whose timestamp is not below its parent's, before the
  height-driven bump sets in, and with timestamps far from the 64-bit border, the next difficulty exists,
  never falls below the network minimum, rises by at most 1/2048 and falls by at most 99/2048 of the
  parent's (the minimum apart); a block faster than the four-second target never lowers it and a slower
  one never raises it above the minimum.\<close>

theorem GetNextDiff_step:
  assumes "GetGenesisTimestamp (hdNetwork (bkHeader parent)) = Inr g"
    and "g \<le> hdTimestamp (bkHeader parent)" and "hdTimestamp (bkHeader parent) \<le> t"
    and "unat t < 2 ^ 62" and "h < 200000"
  defines "D \<equiv> SetBytes (hdDifficulty (bkHeader parent))"
    and "M \<equiv> MinimumDiffOf (hdNetwork (bkHeader parent))"
  shows "\<exists>d. GetNextDiff h t parent = Inr d \<and> M \<le> d
    \<and> d \<le> max M (D + D div 2048) \<and> D - 99 * D div 2048 \<le> d
    \<and> (t \<le> hdTimestamp (bkHeader parent) + 4000 \<longrightarrow> D \<le> d)
    \<and> (t \<ge> hdTimestamp (bkHeader parent) + 4000 \<longrightarrow> d \<le> max M D)"
proof -
  let ?p = "hdTimestamp (bkHeader parent)"
  define f where "f = (let f = 4000 - (uint t - uint ?p) in if f < -99 * 4000 then -99 * 4000 else f)"
  have bounds: "uint t < 2 ^ 62" "uint ?p \<le> uint t" "0 \<le> uint ?p"
    using uint_bound [OF assms(4)] assms(3) by (simp_all add: word_le_def)
  have f: "-99 * 4000 \<le> f" "f \<le> 4000" using bounds by (auto simp: f_def Let_def)
  have sum: "uint (?p + 4000) = uint ?p + 4000"
    using bounds by (simp add: uint_word_ariths)
  have sign: "t \<le> ?p + 4000 \<Longrightarrow> 0 \<le> f" "t \<ge> ?p + 4000 \<Longrightarrow> f \<le> 0"
    using sum by (auto simp: word_le_def f_def Let_def)
  have D: "0 \<le> D" by (simp add: D_def)
  note step = retarget_step [OF D f]
  have "unat h < 2 ^ 62" using assms(5) by (simp add: word_less_nat_alt)
  moreover have "uint h div 100000 < 2" using assms(5) by (simp add: word_less_def div_less_iff_less_mult)
  ultimately have ex: "\<not> 0 \<le> sint h sdiv 100000 - 2" using sint_small [of h] by (simp add: sdiv_pos sgn_if)
  have next_d: "GetNextDiff h t parent =
      Inr (if D + D * f sdiv 8192000 < M then M else D + D * f sdiv 8192000)"
    using interval_factor [OF assms(3,4)] bounds assms(1,2) ex
    by (simp add: GetNextDiff_def Let_def targetTimeAt_def TargetTime_ms_def f_def D_def M_def)
  show ?thesis
    unfolding next_d using step sign by auto
qed

theorem GetNextDiff_step_witness:
  "\<exists>d. GetNextDiff 2 1603497605000 demo_block = Inr d \<and> 1 \<le> d"
  using GetNextDiff_step [of demo_block 1603497600000 1603497605000 2]
  by (auto simp: demo_block_def NewBlock_def GetGenesisTimestamp_def MinimumDiffOf_def)

end
