(* ===== verification/Storage.thy ===== *)
theory Storage
  imports Statetrie
begin

text \<open>
  The persistent store.  The node keeps everything in bbolt buckets (\<^verbatim>\<open>storage/init.go\<close>): ordered
  byte-keyed maps, read with \<^verbatim>\<open>Get\<close>, written with \<^verbatim>\<open>Put\<close> and \<^verbatim>\<open>Delete\<close>, scanned in key order with a
  cursor.  bbolt is a third-party package; a bucket is its content in cursor order, a list of pairs
  with strictly increasing keys, and the locale \<open>kv_store\<close> states the documented laws the sources
  rely on.  Disk errors of a write are not modelled.
\<close>

section \<open>Definitions\<close>

type_synonym bucket = "(bytes \<times> bytes) list"

definition bempty :: bucket where
  "bempty = []"

definition bget :: "bucket \<Rightarrow> bytes \<Rightarrow> bytes option" where
  "bget b k = map_of b k"

fun bput :: "bucket \<Rightarrow> bytes \<Rightarrow> bytes \<Rightarrow> bucket" where
  "bput [] k v = [(k, v)]"
| "bput ((k', v') # b) k v =
     (if k < k' then (k, v) # (k', v') # b
      else if k = k' then (k, v) # b
      else (k', v') # bput b k v)"

definition bdel :: "bucket \<Rightarrow> bytes \<Rightarrow> bucket" where
  "bdel b k = filter (\<lambda>kv. fst kv \<noteq> k) b"

definition bucket_ok :: "bucket \<Rightarrow> bool" where
  "bucket_ok b \<longleftrightarrow> sorted_wrt (<) (map fst b)"

text \<open>The scan \<^verbatim>\<open>for k, v := c.Seek(p); k != nil && bytes.HasPrefix(k, p); k, v = c.Next()\<close>.\<close>

definition seek_prefix :: "bucket \<Rightarrow> bytes \<Rightarrow> (bytes \<times> bytes) list" where
  "seek_prefix b p = takeWhile (\<lambda>kv. has_prefix (fst kv) p) (dropWhile (\<lambda>kv. fst kv < p) b)"

section \<open>Laws\<close>

text \<open>What every key-value component promises (\<open>kv_map\<close>), and what a bucket promises in addition: its
  content determines it (\<open>kv_store\<close>).\<close>

locale kv_map =
  fixes get :: "'b \<Rightarrow> bytes \<Rightarrow> bytes option"
    and put :: "'b \<Rightarrow> bytes \<Rightarrow> bytes \<Rightarrow> 'b"
    and del :: "'b \<Rightarrow> bytes \<Rightarrow> 'b"
    and ok :: "'b \<Rightarrow> bool"
  assumes get_put: "ok b \<Longrightarrow> get (put b k v) k' = (if k' = k then Some v else get b k')"
    and get_del: "ok b \<Longrightarrow> get (del b k) k' = (if k' = k then None else get b k')"
    and ok_put: "ok b \<Longrightarrow> ok (put b k v)"
    and ok_del: "ok b \<Longrightarrow> ok (del b k)"
begin

lemma get_put_same: "ok b \<Longrightarrow> get (put b k v) k = Some v"
  by (simp add: get_put)

lemma get_put_twice: "ok b \<Longrightarrow> get (put (put b k v) k w) k' = get (put b k w) k'"
  by (simp add: get_put ok_put)

lemma get_del_put: "ok b \<Longrightarrow> get (del (put b k v) k) k' = get (del b k) k'"
  by (simp add: get_put get_del ok_put ok_del)

end

locale kv_store = kv_map +
  assumes ext: "ok b \<Longrightarrow> ok c \<Longrightarrow> (\<And>k. get b k = get c k) \<Longrightarrow> b = c"
begin

lemma put_put: "ok b \<Longrightarrow> put (put b k v) k w = put b k w"
  by (rule ext) (simp_all add: get_put ok_put)

lemma put_commute: "ok b \<Longrightarrow> k \<noteq> l \<Longrightarrow> put (put b k v) l w = put (put b l w) k v"
  by (rule ext) (auto simp: get_put ok_put)

lemma del_put: "ok b \<Longrightarrow> del (put b k v) k = del b k"
  by (rule ext) (simp_all add: get_put get_del ok_put ok_del)

lemma del_absent: "ok b \<Longrightarrow> get b k = None \<Longrightarrow> del b k = b"
  by (rule ext) (auto simp: get_del ok_del)

lemma put_same: "ok b \<Longrightarrow> get b k = Some v \<Longrightarrow> put b k v = b"
  by (rule ext) (auto simp: get_put ok_put)

text \<open>Undoing a write with the recorded old value restores the bucket.\<close>

lemma restore:
  assumes "ok b"
  shows "(case get b k of None \<Rightarrow> del (put b k v) k | Some old \<Rightarrow> put (put b k v) k old) = b"
    and "(case get b k of None \<Rightarrow> del (del b k) k | Some old \<Rightarrow> put (del b k) k old) = b"
  using assms by (auto intro!: ext split: option.splits simp: get_put get_del ok_put ok_del)

end

lemma bput_keys: "fst ` set (bput b k v) = insert k (fst ` set b)"
  by (induction b k v rule: bput.induct) auto

lemma bget_bput: "bget (bput b k v) k' = (if k' = k then Some v else bget b k')"
  by (induction b k v rule: bput.induct) (auto simp: bget_def)

lemma bget_bdel: "bget (bdel b k) k' = (if k' = k then None else bget b k')"
  by (induction b) (auto simp: bget_def bdel_def)

lemma bucket_ok_bput: "bucket_ok b \<Longrightarrow> bucket_ok (bput b k v)"
proof (induction b k v rule: bput.induct)
  case (2 k' v' b k v)
  have "\<forall>x \<in> fst ` set (bput b k v). x = k \<or> x \<in> fst ` set b" by (simp add: bput_keys)
  with 2 show ?case by (fastforce simp: bucket_ok_def)
qed (simp add: bucket_ok_def)

lemma bucket_ok_bdel: "bucket_ok b \<Longrightarrow> bucket_ok (bdel b k)"
  by (induction b) (auto simp: bucket_ok_def bdel_def)

lemma bucket_ok_bempty [simp]: "bucket_ok bempty"
  by (simp add: bucket_ok_def bempty_def)

lemma bget_bempty [simp]: "bget bempty k = None"
  by (simp add: bget_def bempty_def)

lemma bucket_ok_distinct: "bucket_ok b \<Longrightarrow> distinct (map fst b)"
  unfolding bucket_ok_def by (simp add: strict_sorted_iff)

lemma bget_Some_iff: "bucket_ok b \<Longrightarrow> bget b k = Some v \<longleftrightarrow> (k, v) \<in> set b"
  by (simp add: bget_def bucket_ok_distinct)

lemma bget_ext:
  assumes "bucket_ok b" "bucket_ok c" "\<And>k. bget b k = bget c k"
  shows "b = c"
proof -
  have "set b = set c" using assms by (auto simp flip: bget_Some_iff)
  moreover have "sorted (map fst b)" "sorted (map fst c)"
    using assms by (auto simp: bucket_ok_def intro: strict_sorted_imp_sorted)
  ultimately show ?thesis
    using assms by (intro map_sorted_distinct_set_unique [of fst])
      (auto simp: bucket_ok_distinct dest: eq_key_imp_eq_value [OF bucket_ok_distinct] intro!: inj_onI)
qed

interpretation bkt: kv_store bget bput bdel bucket_ok
  by unfold_locales (simp_all add: bget_bput bget_bdel bucket_ok_bput bucket_ok_bdel bget_ext)

lemmas bucket_simps = bget_bput bget_bdel bucket_ok_bput bucket_ok_bdel

text \<open>The keys with a given prefix are contiguous in key order, so the cursor scan finds them all.\<close>

lemma has_prefix_le: "has_prefix k p \<Longrightarrow> p \<le> k"
proof (erule has_prefixE)
  fix t
  assume k: "k = p @ t"
  have "p \<le> p @ t" by (induction p) simp_all
  then show "p \<le> k" by (simp only: k)
qed

lemma prefix_convex:
  assumes "p \<le> k" "k \<le> k'" "has_prefix k' p"
  shows "has_prefix k p"
  using assms
proof (induction p arbitrary: k k')
  case (Cons x p)
  from Cons.prems(3) obtain t where k': "k' = x # p @ t" by (auto elim: has_prefixE)
  from Cons.prems obtain y l where k: "k = y # l" by (cases k) auto
  from Cons.prems k k' have "x = y" "p \<le> l" "l \<le> p @ t"
    by (auto simp: list_le_def)
  with Cons.IH [of l "p @ t"] k show ?case by (simp add: has_prefix_def)
qed (simp add: has_prefix_def)

lemma takeWhile_prefix_sorted:
  assumes "bucket_ok b" "\<forall>kv \<in> set b. p \<le> fst kv"
  shows "takeWhile (\<lambda>kv. has_prefix (fst kv) p) b = filter (\<lambda>kv. has_prefix (fst kv) p) b"
  using assms
proof (induction b)
  case (Cons kv b)
  have "filter (\<lambda>kv. has_prefix (fst kv) p) b = []" if "\<not> has_prefix (fst kv) p"
  proof (rule ccontr)
    assume "filter (\<lambda>kv. has_prefix (fst kv) p) b \<noteq> []"
    then obtain kv' where kv': "kv' \<in> set b" "has_prefix (fst kv') p" by (auto simp: filter_empty_conv)
    then have "fst kv \<le> fst kv'" using Cons.prems by (auto simp: bucket_ok_def)
    with prefix_convex kv' Cons.prems that show False by auto
  qed
  with Cons show ?case by (auto simp: bucket_ok_def)
qed simp

lemma seek_prefix_filter:
  assumes "bucket_ok b"
  shows "seek_prefix b p = filter (\<lambda>kv. has_prefix (fst kv) p) b"
  using assms
proof (induction b)
  case (Cons kv b)
  then have ok: "bucket_ok b" by (simp add: bucket_ok_def)
  show ?case
  proof (cases "fst kv < p")
    case True
    then have "\<not> has_prefix (fst kv) p" using has_prefix_le leD by blast
    with True Cons ok show ?thesis by (simp add: seek_prefix_def)
  next
    case False
    then have "\<forall>x \<in> set (kv # b). p \<le> fst x" using Cons.prems by (auto simp: bucket_ok_def not_less)
    with takeWhile_prefix_sorted [OF Cons.prems] False show ?thesis by (simp add: seek_prefix_def)
  qed
qed (simp add: seek_prefix_def)

end
