(* ===== verification/Contract.thy ===== *)
theory Contract
  imports Tx Storage "HOL-Library.AList"
begin

text \<open>
  \<^verbatim>\<open>ngtypes/contract_context.go\<close> and \<^verbatim>\<open>contract.go\<close>: the on-chain key-value store of a contract and the
  contract slot.  A context holds its entries twice: the exported \<^verbatim>\<open>Keys\<close> and \<^verbatim>\<open>Values\<close> that are encoded,
  and a map that is rebuilt lazily after decoding (\<^verbatim>\<open>nil\<close> until then).  The Go map is an association
  list in insertion order, so that \<^verbatim>\<open>splitMap\<close> iterates over it in an order of its own.  The lemmas show
  that the exported lists are sorted and determined by the content alone, and that the operations are
  those of a map.  The context pointer of a slot is never nil here: \<^verbatim>\<open>NewContract\<close> and the decoder
  allocate it.
\<close>

section \<open>Definitions\<close>

record ContractContext =
  ccKeys :: "bytes list"
  ccValues :: "bytes list"
  ccMap :: "(bytes \<times> bytes) list option"

definition NewContractContext :: ContractContext where
  "NewContractContext = \<lparr>ccKeys = [], ccValues = [], ccMap = Some []\<rparr>"

definition ensureInit :: "ContractContext \<Rightarrow> ContractContext" where
  "ensureInit ctx =
     (case ccMap ctx of
        Some m \<Rightarrow> ctx
      | None \<Rightarrow> ctx\<lparr>ccMap := Some (foldl (\<lambda>m i. if i < length (ccValues ctx)
                   then AList.update (ccKeys ctx ! i) (ccValues ctx ! i) m else m)
                 [] [0..<length (ccKeys ctx)])\<rparr>)"

definition valMap :: "ContractContext \<Rightarrow> (bytes \<times> bytes) list" where
  "valMap ctx = (case ccMap (ensureInit ctx) of Some m \<Rightarrow> m | None \<Rightarrow> [])"

definition splitMap :: "ContractContext \<Rightarrow> ContractContext" where
  "splitMap ctx =
     (let m = valMap ctx;
          keys = sort (map fst m);
          values = map (\<lambda>k. case map_of m k of Some v \<Rightarrow> v | None \<Rightarrow> []) keys
      in ctx\<lparr>ccKeys := keys, ccValues := values\<rparr>)"

definition ctx_Set :: "ContractContext \<Rightarrow> bytes \<Rightarrow> bytes \<Rightarrow> ContractContext" where
  "ctx_Set ctx key val = splitMap ((ensureInit ctx)\<lparr>ccMap := Some (AList.update key val (valMap ctx))\<rparr>)"

definition ctx_Del :: "ContractContext \<Rightarrow> bytes \<Rightarrow> ContractContext" where
  "ctx_Del ctx key = splitMap ((ensureInit ctx)\<lparr>ccMap := Some (AList.delete key (valMap ctx))\<rparr>)"

definition ctx_Get :: "ContractContext \<Rightarrow> bytes \<Rightarrow> bytes" where
  "ctx_Get ctx key = (case map_of (valMap ctx) key of Some v \<Rightarrow> v | None \<Rightarrow> [])"

definition ctx_Has :: "ContractContext \<Rightarrow> bytes \<Rightarrow> bool" where
  "ctx_Has ctx key = (map_of (valMap ctx) key \<noteq> None)"

definition ctx_Clone :: "ContractContext \<Rightarrow> ContractContext" where
  "ctx_Clone ctx =
     splitMap (NewContractContext\<lparr>ccMap := Some (foldl (\<lambda>m (k, v). AList.update k v m) [] (valMap ctx))\<rparr>)"

definition ctx_Equals :: "ContractContext \<Rightarrow> ContractContext \<Rightarrow> bool" where
  "ctx_Equals ctx other =
     (if length (valMap ctx) \<noteq> length (valMap other) then False
      else \<forall>(k, v) \<in> set (valMap ctx). map_of (valMap other) k = Some v)"

record Contract =
  ctOwner :: Address
  ctSource :: bytes
  ctContext :: ContractContext

definition NewContract :: "Address \<Rightarrow> bytes \<Rightarrow> ContractContext option \<Rightarrow> Contract" where
  "NewContract owner source context =
     \<lparr>ctOwner = owner, ctSource = source,
      ctContext = (case context of None \<Rightarrow> NewContractContext | Some c \<Rightarrow> c)\<rparr>"

definition ContextKeyActive :: bytes where "ContextKeyActive = str ''_active''"

definition IsActive :: "Contract \<Rightarrow> bool" where
  "IsActive x = (length (ctx_Get (ctContext x) ContextKeyActive) \<noteq> 0)"

definition SetActive :: "Contract \<Rightarrow> bool \<Rightarrow> Contract" where
  "SetActive x active =
     (if active then x\<lparr>ctContext := ctx_Set (ctContext x) ContextKeyActive [1]\<rparr>
      else x\<lparr>ctContext := ctx_Del (ctContext x) ContextKeyActive\<rparr>)"

definition Contract_Equals :: "Contract \<Rightarrow> Contract \<Rightarrow> bool" where
  "Contract_Equals x other =
     (if ctOwner x \<noteq> ctOwner other then False
      else if ctSource x \<noteq> ctSource other then False
      else if \<not> ctx_Equals (ctContext x) (ctContext other) then False
      else True)"

text \<open>The well-formedness of a context: keys strictly increasing, one value each, and a live map that
  has exactly these entries.\<close>

definition ctx_ok :: "ContractContext \<Rightarrow> bool" where
  "ctx_ok ctx \<longleftrightarrow> sorted_wrt (<) (ccKeys ctx) \<and> length (ccValues ctx) = length (ccKeys ctx) \<and>
     (case ccMap ctx of None \<Rightarrow> True
      | Some m \<Rightarrow> distinct (map fst m) \<and> map_of m = map_of (zip (ccKeys ctx) (ccValues ctx)))"

text \<open>A history of writes, as the key-value imports issue them: a value to set, or nothing to delete.\<close>

definition ctx_write :: "ContractContext \<Rightarrow> bytes \<times> bytes option \<Rightarrow> ContractContext" where
  "ctx_write ctx w = (case w of (k, Some v) \<Rightarrow> ctx_Set ctx k v | (k, None) \<Rightarrow> ctx_Del ctx k)"

definition ctx_lookup :: "ContractContext \<Rightarrow> bytes \<Rightarrow> bytes option" where
  "ctx_lookup ctx key = map_of (valMap ctx) key"

section \<open>Lemmas\<close>

lemma valMap_Some [simp]: "ccMap ctx = Some m \<Longrightarrow> valMap ctx = m"
  by (simp add: valMap_def ensureInit_def)

lemma init_fold:
  "distinct ks \<Longrightarrow> length vs = length ks \<Longrightarrow> n \<le> length ks \<Longrightarrow>
   foldl (\<lambda>m i. if i < length vs then AList.update (ks ! i) (vs ! i) m else m) [] [0..<n]
     = take n (zip ks vs)"
proof (induction n)
  case (Suc n)
  have "fst ` set (take n (zip ks vs)) = set (map fst (take n (zip ks vs)))" by simp
  also have "map fst (take n (zip ks vs)) = take n ks" using Suc.prems by (simp flip: take_map)
  finally have fresh: "ks ! n \<notin> fst ` set (take n (zip ks vs))"
    using Suc.prems by (auto simp: in_set_conv_nth nth_eq_iff_index_eq)
  have "AList.update k v xs = xs @ [(k, v)]" if "k \<notin> fst ` set xs" for k v xs
    using that by (induction xs) auto
  from this [OF fresh] Suc show ?case by (simp add: take_Suc_conv_app_nth)
qed simp

lemma valMap_None:
  assumes "ctx_ok ctx" "ccMap ctx = None"
  shows "valMap ctx = zip (ccKeys ctx) (ccValues ctx)"
proof -
  have "distinct (ccKeys ctx)" using assms by (simp add: ctx_ok_def strict_sorted_iff)
  with init_fold [of "ccKeys ctx" "ccValues ctx" "length (ccKeys ctx)"] assms show ?thesis
    by (simp add: valMap_def ensureInit_def ctx_ok_def)
qed

lemma ctx_lookup_zip: "ctx_ok ctx \<Longrightarrow> ctx_lookup ctx = map_of (zip (ccKeys ctx) (ccValues ctx))"
  by (cases "ccMap ctx") (auto simp: ctx_lookup_def valMap_None ctx_ok_def)

lemma valMap_distinct: "ctx_ok ctx \<Longrightarrow> distinct (map fst (valMap ctx))"
  by (cases "ccMap ctx") (auto simp: valMap_None ctx_ok_def strict_sorted_iff)

lemma splitMap_ok:
  assumes "ccMap ctx = Some m" "distinct (map fst m)"
  shows "ctx_ok (splitMap ctx)" "ctx_lookup (splitMap ctx) = map_of m" "ccMap (splitMap ctx) = Some m"
proof -
  let ?ks = "sort (map fst m)" and ?f = "\<lambda>k. case map_of m k of Some v \<Rightarrow> v | None \<Rightarrow> []"
  have "map_of (zip ?ks (map ?f ?ks)) = map_of m"
  proof
    fix k
    show "map_of (zip ?ks (map ?f ?ks)) k = map_of m k"
    proof (cases "map_of m k")
      case None
      then have "k \<notin> set ?ks" by (simp add: map_of_eq_None_iff)
      with None show ?thesis by (simp add: map_of_zip_map)
    next
      case (Some v)
      then have "k \<in> set ?ks" by (metis domI dom_map_of_conv_image_fst list.set_map set_sort)
      with Some show ?thesis by (simp add: map_of_zip_map)
    qed
  qed
  with assms show "ctx_ok (splitMap ctx)" "ctx_lookup (splitMap ctx) = map_of m" "ccMap (splitMap ctx) = Some m"
    by (simp_all add: splitMap_def ctx_ok_def ctx_lookup_def fun_eq_iff Let_def strict_sorted_iff)
qed

lemma ctx_ok_New [simp]: "ctx_ok NewContractContext"
  by (simp add: ctx_ok_def NewContractContext_def)

lemma ctx_ok_Set: "ctx_ok ctx \<Longrightarrow> ctx_ok (ctx_Set ctx k v)"
  unfolding ctx_Set_def by (rule splitMap_ok) (auto intro!: AList.distinct_update valMap_distinct)

lemma ctx_ok_Del: "ctx_ok ctx \<Longrightarrow> ctx_ok (ctx_Del ctx k)"
  unfolding ctx_Del_def by (rule splitMap_ok) (auto intro!: AList.distinct_delete valMap_distinct)

lemma ctx_lookup_Set:
  assumes "ctx_ok ctx"
  shows "ctx_lookup (ctx_Set ctx k v) k' = (if k' = k then Some v else ctx_lookup ctx k')"
proof -
  have "ctx_lookup (ctx_Set ctx k v) = map_of (AList.update k v (valMap ctx))"
    unfolding ctx_Set_def
    by (rule splitMap_ok(2) [OF _ AList.distinct_update [OF valMap_distinct [OF assms]]]) simp
  then show ?thesis by (simp add: AList.update_conv ctx_lookup_def)
qed

lemma ctx_lookup_Del:
  assumes "ctx_ok ctx"
  shows "ctx_lookup (ctx_Del ctx k) k' = (if k' = k then None else ctx_lookup ctx k')"
proof -
  have "ctx_lookup (ctx_Del ctx k) = map_of (AList.delete k (valMap ctx))"
    unfolding ctx_Del_def
    by (rule splitMap_ok(2) [OF _ AList.distinct_delete [OF valMap_distinct [OF assms]]]) simp
  then show ?thesis by (simp add: AList.delete_conv ctx_lookup_def)
qed

interpretation ctx: kv_map ctx_lookup ctx_Set ctx_Del ctx_ok
  by unfold_locales (simp_all add: ctx_lookup_Set ctx_lookup_Del ctx_ok_Set ctx_ok_Del)

lemma ctx_Get_lookup: "ctx_Get ctx k = (case ctx_lookup ctx k of Some v \<Rightarrow> v | None \<Rightarrow> [])"
  by (simp add: ctx_Get_def ctx_lookup_def)

lemma ctx_Has_lookup: "ctx_Has ctx k \<longleftrightarrow> ctx_lookup ctx k \<noteq> None"
  by (simp add: ctx_Has_def ctx_lookup_def)

lemmas ctx_simps = ctx.get_put ctx.get_del ctx.ok_put ctx.ok_del ctx_Get_lookup ctx_Has_lookup

text \<open>The exported lists are a function of the content.\<close>

lemma strict_sorted_zip_unique:
  assumes "sorted_wrt (<) (ks :: 'a :: linorder list)" "sorted_wrt (<) ks'" "length vs = length ks"
    "length vs' = length ks'" "map_of (zip ks vs) = map_of (zip ks' vs')"
  shows "ks = ks' \<and> vs = vs'"
proof -
  have "dom (map_of (zip ks vs)) = set ks" "dom (map_of (zip ks' vs')) = set ks'"
    using assms(3,4) by simp_all
  then have "set ks = set ks'" by (simp only: assms(5))
  then have ks: "ks = ks'"
    using assms(1,2) by (intro sorted_distinct_set_unique) (simp_all add: strict_sorted_iff)
  have "vs = map (\<lambda>k. the (map_of (zip ks vs) k)) ks" if "length vs = length ks" for vs
    using assms(1) that by (intro nth_equalityI) (simp_all add: map_of_zip_nth strict_sorted_iff)
  with assms ks show ?thesis by metis
qed

lemma ctx_unique:
  assumes "ctx_ok c" "ctx_ok d" "ctx_lookup c = ctx_lookup d"
  shows "ccKeys c = ccKeys d \<and> ccValues c = ccValues d"
  using assms by (intro strict_sorted_zip_unique) (auto simp: ctx_ok_def ctx_lookup_zip)

lemma ctx_Equals_lookup:
  assumes "ctx_ok c" "ctx_ok d"
  shows "ctx_Equals c d \<longleftrightarrow> ctx_lookup c = ctx_lookup d"
proof -
  let ?c = "map_of (valMap c)" and ?d = "map_of (valMap d)"
  note dist = valMap_distinct [OF assms(1)] valMap_distinct [OF assms(2)]
  have card: "length (valMap c) = card (dom ?c)" "length (valMap d) = card (dom ?d)"
    using dist by (metis distinct_card dom_map_of_conv_image_fst length_map list.set_map)+
  have "(\<forall>(k, v) \<in> set (valMap c). ?d k = Some v) \<longleftrightarrow> ?c \<subseteq>\<^sub>m ?d"
    using dist(1) by (auto simp: map_le_def dom_def split: prod.splits)
  moreover have "?c = ?d" if "?c \<subseteq>\<^sub>m ?d" "card (dom ?c) = card (dom ?d)"
  proof -
    have "dom ?c = dom ?d"
      using that by (intro card_subset_eq) (auto simp: map_le_implies_dom_le finite_dom_map_of)
    with that(1) show ?thesis by (metis map_le_antisym map_le_def)
  qed
  ultimately show ?thesis
    by (auto simp: ctx_Equals_def ctx_lookup_def [abs_def] card simp del: not_None_eq)
qed

lemma ctx_ok_write: "ctx_ok c \<Longrightarrow> ctx_ok (foldl ctx_write c ws)"
  by (induction ws arbitrary: c) (auto simp: ctx_write_def ctx_simps split: prod.splits option.splits)

lemma ctx_lookup_writes:
  "ctx_ok c \<Longrightarrow> ctx_lookup (foldl ctx_write c ws) k
     = (case map_of (rev ws) k of Some w \<Rightarrow> w | None \<Rightarrow> ctx_lookup c k)"
  by (induction ws rule: rev_induct)
    (auto simp: ctx_write_def ctx_simps ctx_ok_write split: prod.splits option.splits)

text \<open>C25: contract storage is canonical. Any history of \<^verbatim>\<open>Set\<close> and \<^verbatim>\<open>Del\<close> on a
  well-formed context, freshly created or just decoded, gives a context in which the last write of every
  key wins and the exported keys are strictly sorted; two contexts with any two histories encode the same
  keys and values exactly when they read the same, which is also what \<^verbatim>\<open>Equals\<close> answers, so the
  encoding that is hashed into the state root does not depend on the order of execution.\<close>

theorem context_canonical:
  fixes c d :: ContractContext and ws us :: "(bytes \<times> bytes option) list"
  assumes "ctx_ok c" "ctx_ok d"
  defines "c' \<equiv> foldl ctx_write c ws" and "d' \<equiv> foldl ctx_write d us"
  shows "ctx_lookup c' k = (case map_of (rev ws) k of Some w \<Rightarrow> w | None \<Rightarrow> ctx_lookup c k)
    \<and> sorted_wrt (<) (ccKeys c')
    \<and> ((ccKeys c' = ccKeys d' \<and> ccValues c' = ccValues d')
         \<longleftrightarrow> (\<forall>k. ctx_Has c' k = ctx_Has d' k \<and> ctx_Get c' k = ctx_Get d' k))
    \<and> (ctx_Equals c' d' \<longleftrightarrow> (ccKeys c' = ccKeys d' \<and> ccValues c' = ccValues d'))"
proof -
  have ok: "ctx_ok c'" "ctx_ok d'" using assms by (simp_all add: ctx_ok_write)
  have same: "(ccKeys c' = ccKeys d' \<and> ccValues c' = ccValues d') \<longleftrightarrow> ctx_lookup c' = ctx_lookup d'"
    using ctx_unique [OF ok] ok by (auto simp: ctx_lookup_zip)
  have "(\<forall>k. ctx_Has c' k = ctx_Has d' k \<and> ctx_Get c' k = ctx_Get d' k) \<longleftrightarrow> ctx_lookup c' = ctx_lookup d'"
    by (auto simp: fun_eq_iff ctx_Get_lookup ctx_Has_lookup split: option.splits)
      (metis not_None_eq option.sel)
  moreover have "sorted_wrt (<) (ccKeys c')" using ok by (simp add: ctx_ok_def)
  moreover have "ctx_lookup c' k = (case map_of (rev ws) k of Some w \<Rightarrow> w | None \<Rightarrow> ctx_lookup c k)"
    using assms by (simp add: ctx_lookup_writes)
  moreover have "ctx_Equals c' d' \<longleftrightarrow> ctx_lookup c' = ctx_lookup d'"
    using ok by (simp add: ctx_Equals_lookup)
  ultimately show ?thesis using same by simp
qed

theorem context_canonical_witness:
  "ctx_Equals (foldl ctx_write NewContractContext [([1], Some [2]), ([0], Some [3])])
     (foldl ctx_write \<lparr>ccKeys = [[0], [5]], ccValues = [[3], [4]], ccMap = None\<rparr> [([5], None), ([1], Some [2])])"
proof -
  let ?d = "\<lparr>ccKeys = [[0], [5]], ccValues = [[3], [4]], ccMap = None\<rparr>"
  have "ctx_ok ?d" by (simp add: ctx_ok_def)
  note canonical = context_canonical [OF ctx_ok_New this, THEN conjunct2, THEN conjunct2, THEN conjunct2]
  show ?thesis unfolding canonical by code_simp
qed

end
