(* ===== verification/State.thy ===== *)
theory State
  imports Block Contract
begin

text \<open>
  The consensus state of \<^verbatim>\<open>ngstate\<close>: the buckets of \<^verbatim>\<open>storage/init.go\<close>, the write choke points of
  \<^verbatim>\<open>state_helper.go\<close>, \<^verbatim>\<open>beacon.go\<close> and \<^verbatim>\<open>changeset.go\<close>, and the state commitment of \<^verbatim>\<open>statetrie.go\<close> (a
  sparse Merkle tree kept in the \<^verbatim>\<open>state:trie\<close> bucket).  A \<open>DB\<close> is the content of the database inside
  one write transaction; a transaction that returns an error is rolled back by bbolt, so the operations
  return either an error or the new content.  The changeset recorder of a block application is the
  optional block height \<open>rec\<close>.

  The field \<open>dbTouched\<close> is a history variable of the proofs: the (domain, key) pairs written into the tree
  since it was last empty.  The main invariant \<open>trie_sync\<close> says that, as long as no two of these pairs
  collide under the leaf hash, the tree holds exactly the live entries of the five committed buckets.
\<close>

section \<open>Definitions\<close>

subsection \<open>The database\<close>

record DB =
  dbBlocks :: bucket
  dbTxs :: bucket
  dbContract :: bucket
  dbCode :: bucket
  dbBal :: bucket
  dbKey :: bucket
  dbCommit :: bucket
  dbSpent :: bucket
  dbSnapshot :: bucket
  dbReceipt :: bucket
  csBal :: bucket
  csContract :: bucket
  csKey :: bucket
  histBal :: bucket
  histContract :: bucket
  dbTrie :: bucket
  dbBeacon :: bucket
  csBeacon :: bucket
  dbTouched :: "(byte \<times> bytes) list"

definition InitDB :: DB where
  "InitDB =
     \<lparr>dbBlocks = bempty, dbTxs = bempty, dbContract = bempty, dbCode = bempty, dbBal = bempty,
      dbKey = bempty, dbCommit = bempty, dbSpent = bempty, dbSnapshot = bempty, dbReceipt = bempty,
      csBal = bempty, csContract = bempty, csKey = bempty, histBal = bempty, histContract = bempty,
      dbTrie = bempty, dbBeacon = bempty, csBeacon = bempty, dbTouched = []\<rparr>"

text \<open>The RLP form of a contract slot, by its encoder and decoder; the context is encoded by its exported
  lists.\<close>

record storedContract =
  scOwner :: Address
  scCodeHash :: bytes
  scKeys :: "bytes list"
  scValues :: "bytes list"

record sprims = prims +
  rlpStored :: "storedContract \<Rightarrow> bytes"
  rlpStoredDec :: "bytes \<Rightarrow> storedContract option"

subsection \<open>The state commitment\<close>

definition bolt_ops :: "bucket NodeStore" where
  "bolt_ops = \<lparr>nsGet = bget, nsPut = (\<lambda>s k v. Inr (bput s k v)), nsDelete = (\<lambda>s k. Inr (bdel s k))\<rparr>"

definition trieSetLeaf :: "'p prims_scheme \<Rightarrow> DB \<Rightarrow> byte \<Rightarrow> bytes \<Rightarrow> bytes \<Rightarrow> DB" where
  "trieSetLeaf P db domain key val =
     (let path = LeafPath (Hash256 P) domain key;
          vh = (if length val = 0 then ZeroHash else ValueHash (Hash256 P) val)
      in case Update (Hash256 P) bolt_ops (dbTrie db) path vh of
           Inl e \<Rightarrow> db
         | Inr t \<Rightarrow> db\<lparr>dbTrie := t, dbTouched := (domain, key) # dbTouched db\<rparr>)"

definition trieSetBalance :: "'p prims_scheme \<Rightarrow> DB \<Rightarrow> Address \<Rightarrow> int option \<Rightarrow> DB" where
  "trieSetBalance P db addr balance =
     trieSetLeaf P db DomainBalance addr
       (case balance of None \<Rightarrow> [] | Some b \<Rightarrow> if b \<noteq> 0 then bigBytes b else [])"

definition trieSetKey :: "'p prims_scheme \<Rightarrow> DB \<Rightarrow> Address \<Rightarrow> bytes \<Rightarrow> DB" where
  "trieSetKey P db addr entry = trieSetLeaf P db DomainKey addr entry"

definition trieSetContract :: "'p prims_scheme \<Rightarrow> DB \<Rightarrow> Address \<Rightarrow> bytes \<Rightarrow> DB" where
  "trieSetContract P db addr storedRLP = trieSetLeaf P db DomainContract addr storedRLP"

definition trieSetCommit :: "'p prims_scheme \<Rightarrow> DB \<Rightarrow> bytes \<Rightarrow> bytes \<Rightarrow> DB" where
  "trieSetCommit P db bucketKey from = trieSetLeaf P db DomainCommit bucketKey from"

definition BeaconStateKey :: bytes where
  "BeaconStateKey = str ''randao''"

definition trieSetBeacon :: "'p prims_scheme \<Rightarrow> DB \<Rightarrow> bytes \<Rightarrow> DB" where
  "trieSetBeacon P db seed = trieSetLeaf P db DomainBeacon BeaconStateKey seed"

definition StateRoot :: "'p prims_scheme \<Rightarrow> DB \<Rightarrow> bytes" where
  "StateRoot P db = Root (Hash256 P) bolt_ops (dbTrie db)"

definition rebuild_leaf :: "'p prims_scheme \<Rightarrow> DB \<Rightarrow> byte \<times> bytes \<times> bytes \<Rightarrow> error + DB" where
  "rebuild_leaf P db row =
     (case row of (domain, key, val) \<Rightarrow>
        bind_result (Update (Hash256 P) bolt_ops (dbTrie db) (LeafPath (Hash256 P) domain key)
                       (ValueHash (Hash256 P) val))
          (\<lambda>t. Inr (db\<lparr>dbTrie := t, dbTouched := (domain, key) # dbTouched db\<rparr>)))"

definition addr_row :: "byte \<Rightarrow> bytes \<times> bytes \<Rightarrow> byte \<times> bytes \<times> bytes" where
  "addr_row domain kv = (domain, copy_at 0 (fst kv) (zeros AddressSize), snd kv)"

definition RebuildTrie :: "'p prims_scheme \<Rightarrow> DB \<Rightarrow> error + DB" where
  "RebuildTrie P db =
     (let db = db\<lparr>dbTrie := bempty, dbTouched := []\<rparr>;
          bals = map (\<lambda>(k, v). addr_row DomainBalance (k, bigBytes (SetBytes v)))
                   (filter (\<lambda>(k, v). SetBytes v \<noteq> 0) (dbBal db));
          keys = map (addr_row DomainKey) (dbKey db);
          slots = map (addr_row DomainContract) (dbContract db);
          commits = map (\<lambda>(k, v). (DomainCommit, k, v)) (dbCommit db);
          beacon = (case bget (dbBeacon db) BeaconStateKey of
                      None \<Rightarrow> [] | Some v \<Rightarrow> [(DomainBeacon, BeaconStateKey, v)])
      in bind_result (foldM (rebuild_leaf P) bals db) (\<lambda>db.
         bind_result (foldM (rebuild_leaf P) keys db) (\<lambda>db.
         bind_result (foldM (rebuild_leaf P) slots db) (\<lambda>db.
         bind_result (foldM (rebuild_leaf P) commits db) (\<lambda>db.
         foldM (rebuild_leaf P) beacon db)))))"

definition CheckStateRoot :: "'p prims_scheme \<Rightarrow> DB \<Rightarrow> bytes \<Rightarrow> error + unit" where
  "CheckStateRoot P db want =
     (if StateRoot P db \<noteq> want then Inl ErrBlockStateRootInvalid else Inr ())"

definition stateDomain :: "string \<Rightarrow> error + byte \<times> (DB \<Rightarrow> bucket)" where
  "stateDomain domain =
     (if domain = ''balance'' then Inr (DomainBalance, dbBal)
      else if domain = ''key'' then Inr (DomainKey, dbKey)
      else if domain = ''contract'' then Inr (DomainContract, dbContract)
      else if domain = ''commit'' then Inr (DomainCommit, dbCommit)
      else if domain = ''beacon'' then Inr (DomainBeacon, dbBeacon)
      else Inl ErrUnknownStateDomain)"

record Proof =
  prRoot :: bytes
  prPath :: bytes
  prValue :: bytes
  prValueHash :: bytes
  prBranch :: "bytes list"

definition StateProof :: "'p prims_scheme \<Rightarrow> DB \<Rightarrow> string \<Rightarrow> bytes \<Rightarrow> error + Proof" where
  "StateProof P db domain rawKey =
     bind_result (stateDomain domain) (\<lambda>(tag, bucketOf).
       let path = LeafPath (Hash256 P) tag rawKey;
           val = (case bget (bucketOf db) rawKey of None \<Rightarrow> [] | Some v \<Rightarrow> v);
           valueHash = (if length val = 0 then ZeroHash else ValueHash (Hash256 P) val)
       in bind_result (Prove (Hash256 P) bolt_ops (dbTrie db) path) (\<lambda>branch.
            Inr \<lparr>prRoot = StateRoot P db, prPath = path, prValue = val, prValueHash = valueHash,
                 prBranch = branch\<rparr>))"

subsection \<open>Pre-images\<close>

definition taggedPreimage :: "bytes option \<Rightarrow> bytes" where
  "taggedPreimage old =
     (case old of None \<Rightarrow> [0x00] | Some old \<Rightarrow> copy_at 1 old ((zeros (1 + length old))[0 := 0x01]))"

definition splitPreimage :: "bytes \<Rightarrow> bytes option" where
  "splitPreimage tagged =
     (if length tagged = 0 \<or> tagged ! 0 = 0x00 then None else Some (drop 1 tagged))"

definition csKeyOf :: "u64 \<Rightarrow> Address \<Rightarrow> bytes" where
  "csKeyOf height addr =
     copy_at 8 addr (copy_at 0 (PackUint64LE height) (zeros (8 + AddressSize)))"

definition histKey :: "Address \<Rightarrow> u64 \<Rightarrow> bytes" where
  "histKey addr height =
     copy_at AddressSize (PutUint64BE height) (copy_at 0 addr (zeros (AddressSize + 8)))"

definition recordBal :: "u64 option \<Rightarrow> DB \<Rightarrow> Address \<Rightarrow> DB" where
  "recordBal rec db addr =
     (case rec of
        None \<Rightarrow> db
      | Some height \<Rightarrow>
          let k = csKeyOf height addr
          in if bget (csBal db) k \<noteq> None then db
             else db\<lparr>csBal := bput (csBal db) k (taggedPreimage (bget (dbBal db) addr)),
                     histBal := bput (histBal db) (histKey addr height) []\<rparr>)"

definition recordContract :: "u64 option \<Rightarrow> DB \<Rightarrow> Address \<Rightarrow> DB" where
  "recordContract rec db addr =
     (case rec of
        None \<Rightarrow> db
      | Some height \<Rightarrow>
          let k = csKeyOf height addr
          in if bget (csContract db) k \<noteq> None then db
             else db\<lparr>csContract := bput (csContract db) k (taggedPreimage (bget (dbContract db) addr)),
                     histContract := bput (histContract db) (histKey addr height) []\<rparr>)"

definition recordKey :: "u64 option \<Rightarrow> DB \<Rightarrow> Address \<Rightarrow> DB" where
  "recordKey rec db addr =
     (case rec of
        None \<Rightarrow> db
      | Some height \<Rightarrow>
          let k = csKeyOf height addr
          in if bget (csKey db) k \<noteq> None then db else db\<lparr>csKey := bput (csKey db) k [0x00]\<rparr>)"

definition recordBeacon :: "u64 option \<Rightarrow> DB \<Rightarrow> DB" where
  "recordBeacon rec db =
     (case rec of
        None \<Rightarrow> db
      | Some height \<Rightarrow>
          let k = PackUint64LE height
          in if bget (csBeacon db) k \<noteq> None then db
             else db\<lparr>csBeacon := bput (csBeacon db) k (taggedPreimage (bget (dbBeacon db) BeaconStateKey))\<rparr>)"

subsection \<open>Balances\<close>

definition getBalance :: "DB \<Rightarrow> Address \<Rightarrow> int" where
  "getBalance db addr = (case bget (dbBal db) addr of None \<Rightarrow> 0 | Some raw \<Rightarrow> SetBytes raw)"

definition setBalance :: "'p prims_scheme \<Rightarrow> u64 option \<Rightarrow> DB \<Rightarrow> Address \<Rightarrow> int \<Rightarrow> DB" where
  "setBalance P rec db addr balance =
     (let db = recordBal rec db addr;
          db = db\<lparr>dbBal := bput (dbBal db) addr (bigBytes balance)\<rparr>
      in trieSetBalance P db addr (Some balance))"

subsection \<open>Contract slots and the code registry\<close>

definition loadCode :: "DB \<Rightarrow> bytes \<Rightarrow> bytes" where
  "loadCode db codeHash =
     (case bget (dbCode db) codeHash of
        None \<Rightarrow> [] | Some entry \<Rightarrow> if length entry < 8 then [] else drop 8 entry)"

definition retainCode :: "DB \<Rightarrow> bytes \<Rightarrow> bytes \<Rightarrow> error + DB" where
  "retainCode db codeHash code =
     (case bget (dbCode db) codeHash of
        None \<Rightarrow> Inr (db\<lparr>dbCode := bput (dbCode db) codeHash
                  (copy_at 8 code (copy_at 0 (PackUint64LE 1) (zeros (8 + length code))))\<rparr>)
      | Some entry \<Rightarrow>
          (case UnpackUint64LE entry of
             None \<Rightarrow> Inl Panic
           | Some refs \<Rightarrow> Inr (db\<lparr>dbCode := bput (dbCode db) codeHash
                  (copy_at 0 (PackUint64LE (refs + 1)) entry)\<rparr>)))"

definition releaseCode :: "DB \<Rightarrow> bytes \<Rightarrow> bool \<Rightarrow> DB" where
  "releaseCode db codeHash keepForHistory =
     (case bget (dbCode db) codeHash of
        None \<Rightarrow> db
      | Some entry \<Rightarrow>
          (case UnpackUint64LE entry of
             None \<Rightarrow> db
           | Some refs \<Rightarrow>
               if refs \<le> 1 \<and> \<not> keepForHistory then db\<lparr>dbCode := bdel (dbCode db) codeHash\<rparr>
               else db\<lparr>dbCode := bput (dbCode db) codeHash
                      (copy_at 0 (PackUint64LE (if refs > 0 then refs - 1 else refs)) entry)\<rparr>))"

definition decodeStoredContract :: "'p sprims_scheme \<Rightarrow> DB \<Rightarrow> bytes \<Rightarrow> error + Contract" where
  "decodeStoredContract P db raw =
     (case rlpStoredDec P raw of
        None \<Rightarrow> Inl (ErrMsg ''rlp'')
      | Some sc \<Rightarrow> Inr \<lparr>ctOwner = scOwner sc, ctSource = loadCode db (scCodeHash sc),
                       ctContext = \<lparr>ccKeys = scKeys sc, ccValues = scValues sc, ccMap = None\<rparr>\<rparr>)"

definition getContract :: "'p sprims_scheme \<Rightarrow> DB \<Rightarrow> Address \<Rightarrow> error + Contract" where
  "getContract P db addr =
     (case bget (dbContract db) addr of
        None \<Rightarrow> Inl ErrKeyNotFound | Some raw \<Rightarrow> decodeStoredContract P db raw)"

definition contractExists :: "DB \<Rightarrow> Address \<Rightarrow> bool" where
  "contractExists db addr = (bget (dbContract db) addr \<noteq> None)"

definition storedOf :: "'p sprims_scheme \<Rightarrow> Contract \<Rightarrow> storedContract" where
  "storedOf P account =
     \<lparr>scOwner = ctOwner account, scCodeHash = Hash256 P (ctSource account),
      scKeys = ccKeys (ctContext account), scValues = ccValues (ctContext account)\<rparr>"

definition reconcile_code :: "'p sprims_scheme \<Rightarrow> u64 option \<Rightarrow> DB \<Rightarrow> Contract \<Rightarrow> error + DB" where
  "reconcile_code P rec db account =
     (let newHash = Hash256 P (ctSource account)
      in case bget (dbContract db) (ctOwner account) of
           None \<Rightarrow> retainCode db newHash (ctSource account)
         | Some prev \<Rightarrow>
             (case rlpStoredDec P prev of
                None \<Rightarrow> retainCode db newHash (ctSource account)
              | Some old \<Rightarrow>
                  if scCodeHash old \<noteq> newHash
                  then retainCode (releaseCode db (scCodeHash old) (rec \<noteq> None)) newHash (ctSource account)
                  else Inr db))"

definition setContract :: "'p sprims_scheme \<Rightarrow> u64 option \<Rightarrow> DB \<Rightarrow> Contract \<Rightarrow> error + DB" where
  "setContract P rec db account =
     bind_result (reconcile_code P rec (recordContract rec db (ctOwner account)) account) (\<lambda>db.
       let raw = rlpStored P (storedOf P account);
           db = db\<lparr>dbContract := bput (dbContract db) (ctOwner account) raw\<rparr>
       in Inr (trieSetContract P db (ctOwner account) raw))"

definition delContract :: "'p sprims_scheme \<Rightarrow> u64 option \<Rightarrow> DB \<Rightarrow> Address \<Rightarrow> DB" where
  "delContract P rec db addr =
     (let db = recordContract rec db addr;
          db = (case bget (dbContract db) addr of
                  None \<Rightarrow> db
                | Some prev \<Rightarrow>
                    (case rlpStoredDec P prev of
                       None \<Rightarrow> db | Some old \<Rightarrow> releaseCode db (scCodeHash old) (rec \<noteq> None)));
          db = db\<lparr>dbContract := bdel (dbContract db) addr\<rparr>
      in trieSetContract P db addr [])"

subsection \<open>The key registry\<close>

definition keyResolver :: "DB \<Rightarrow> PubKeyResolver" where
  "keyResolver db = Some (\<lambda>addr. case bget (dbKey db) addr of None \<Rightarrow> [] | Some entry \<Rightarrow> entry)"

definition registerPubKey :: "'p prims_scheme \<Rightarrow> u64 option \<Rightarrow> DB \<Rightarrow> FullTx \<Rightarrow> DB" where
  "registerPubKey P rec db tx =
     (if IsCompactEnvelope tx then db
      else let scheme = EnvelopeScheme tx; pkLen = PubKeySize P scheme
           in if pkLen = 0 \<or> length (txSign tx) \<noteq> 2 + pkLen + SigSize P scheme then db
              else let pubKey = take pkLen (drop 2 (txSign tx));
                       addr = AddressOfPubKey P scheme pubKey
                   in if bget (dbKey db) addr \<noteq> None then db
                      else let db = recordKey rec db addr;
                               db = db\<lparr>dbKey := bput (dbKey db) addr (scheme # pubKey)\<rparr>
                           in trieSetKey P db addr (scheme # pubKey))"

subsection \<open>The randomness beacon\<close>

definition beaconDomain :: bytes where
  "beaconDomain = str ''ngcore/randao''"

definition getBeacon :: "DB \<Rightarrow> bytes" where
  "getBeacon db =
     (case bget (dbBeacon db) BeaconStateKey of
        None \<Rightarrow> zeros HashSize | Some v \<Rightarrow> copy_at 0 v (zeros HashSize))"

definition setBeacon :: "'p prims_scheme \<Rightarrow> u64 option \<Rightarrow> DB \<Rightarrow> bytes \<Rightarrow> DB" where
  "setBeacon P rec db seed =
     (let db = recordBeacon rec db;
          db = db\<lparr>dbBeacon := bput (dbBeacon db) BeaconStateKey seed\<rparr>
      in trieSetBeacon P db seed)"

definition updateBeacon :: "'p prims_scheme \<Rightarrow> u64 option \<Rightarrow> DB \<Rightarrow> FullBlock \<Rightarrow> DB" where
  "updateBeacon P rec db block =
     (let hd = bkHeader block
      in if \<not> IsForkActive (hdNetwork hd) ForkRandomBeacon (hdHeight hd) then db
         else if hdHeight hd = 0 then db
         else let saltsHash = Hash256 P (concat (map txSalt (bkTxs block)));
                  buf = beaconDomain @ getBeacon db @ hdPrevBlockHash hd @ saltsHash @ PackUint64LE (hdHeight hd)
              in setBeacon P rec db (Hash256 P buf))"

subsection \<open>Invariants\<close>

text \<open>The value a leaf stands for; empty for an absent leaf.\<close>

definition bval :: "bucket \<Rightarrow> bytes \<Rightarrow> bytes" where
  "bval b k = (case bget b k of None \<Rightarrow> [] | Some v \<Rightarrow> v)"

definition leafValue :: "DB \<Rightarrow> byte \<Rightarrow> bytes \<Rightarrow> bytes" where
  "leafValue db d k =
     (if d = DomainBalance then bval (dbBal db) k
      else if d = DomainKey then bval (dbKey db) k
      else if d = DomainContract then bval (dbContract db) k
      else if d = DomainCommit then bval (dbCommit db) k
      else if d = DomainBeacon then bval (dbBeacon db) k
      else [])"

definition valueHashOf :: "'p prims_scheme \<Rightarrow> bytes \<Rightarrow> bytes" where
  "valueHashOf P v = (if v = [] then ZeroHash else ValueHash (Hash256 P) v)"

definition leaf_path :: "'p prims_scheme \<Rightarrow> byte \<times> bytes \<Rightarrow> bytes" where
  "leaf_path P x = LeafPath (Hash256 P) (fst x) (snd x)"

text \<open>No two leaves the tree was asked to hold share a path.\<close>

definition leaf_inj :: "'p prims_scheme \<Rightarrow> DB \<Rightarrow> bool" where
  "leaf_inj P db \<longleftrightarrow> inj_on (leaf_path P) (set (dbTouched db))"

definition state_leaves :: "'p prims_scheme \<Rightarrow> DB \<Rightarrow> bytes \<Rightarrow> bytes" where
  "state_leaves P db p =
     (case filter (\<lambda>x. leaf_path P x = p) (dbTouched db) of
        [] \<Rightarrow> zeros HashSize | x # _ \<Rightarrow> valueHashOf P (leafValue db (fst x) (snd x)))"

definition trie_sync :: "'p prims_scheme \<Rightarrow> DB \<Rightarrow> bool" where
  "trie_sync P db \<longleftrightarrow>
     bucket_ok (dbTrie db) \<and> (\<forall>d k. leafValue db d k \<noteq> [] \<longrightarrow> (d, k) \<in> set (dbTouched db)) \<and>
     (leaf_inj P db \<longrightarrow> represents (Hash256 P) bolt_ops (dbTrie db) (state_leaves P db))"

text \<open>Ordered buckets, and the shape of the committed entries: addresses of 32 bytes, balances in minimal
  form, no empty value elsewhere, one beacon key.\<close>

definition db_ok :: "DB \<Rightarrow> bool" where
  "db_ok db \<longleftrightarrow> bucket_ok (dbContract db) \<and> bucket_ok (dbCode db) \<and> bucket_ok (dbBal db) \<and>
     bucket_ok (dbKey db) \<and> bucket_ok (dbCommit db) \<and> bucket_ok (dbSpent db) \<and> bucket_ok (csBal db) \<and>
     bucket_ok (csContract db) \<and> bucket_ok (csKey db) \<and> bucket_ok (histBal db) \<and>
     bucket_ok (histContract db) \<and> bucket_ok (dbTrie db) \<and> bucket_ok (dbBeacon db) \<and> bucket_ok (csBeacon db)"

definition entry_ok :: "byte \<Rightarrow> bytes \<Rightarrow> bytes \<Rightarrow> bool" where
  "entry_ok d k v \<longleftrightarrow>
     (if d = DomainBalance then length k = AddressSize \<and> bigBytes (SetBytes v) = v
      else if d = DomainKey \<or> d = DomainContract then length k = AddressSize \<and> v \<noteq> []
      else if d = DomainCommit then v \<noteq> []
      else k = BeaconStateKey \<and> v \<noteq> [])"

definition db_wf :: "DB \<Rightarrow> bool" where
  "db_wf db \<longleftrightarrow>
     (\<forall>k v. bget (dbBal db) k = Some v \<longrightarrow> entry_ok DomainBalance k v) \<and>
     (\<forall>k v. bget (dbKey db) k = Some v \<longrightarrow> entry_ok DomainKey k v) \<and>
     (\<forall>k v. bget (dbContract db) k = Some v \<longrightarrow> entry_ok DomainContract k v) \<and>
     (\<forall>k v. bget (dbCommit db) k = Some v \<longrightarrow> entry_ok DomainCommit k v) \<and>
     (\<forall>k v. bget (dbBeacon db) k = Some v \<longrightarrow> entry_ok DomainBeacon k v)"

definition db_inv :: "'p prims_scheme \<Rightarrow> DB \<Rightarrow> bool" where
  "db_inv P db \<longleftrightarrow> db_ok db \<and> db_wf db \<and> trie_sync P db"

text \<open>What is used of the third-party functions: digests of 32 bytes and non-empty RLP encodings, decoded
  owners of 32 bytes.\<close>

definition prims_ok :: "'p sprims_scheme \<Rightarrow> bool" where
  "prims_ok P \<longleftrightarrow> hash32 (Hash256 P) \<and> (\<forall>sc. rlpStored P sc \<noteq> []) \<and>
     (\<forall>raw sc. rlpStoredDec P raw = Some sc \<longrightarrow> length (scOwner sc) = AddressSize)"

section \<open>The state commitment follows the buckets\<close>

interpretation blt: node_store bolt_ops bucket_ok
  by unfold_locales (simp_all add: bolt_ops_def bucket_simps)

lemma trieSetLeaf_ok:
  assumes "hash32 (Hash256 P)" "bucket_ok (dbTrie db)"
    "represents (Hash256 P) bolt_ops (dbTrie db) M"
  shows "\<exists>t. trieSetLeaf P db d k v = db\<lparr>dbTrie := t, dbTouched := (d, k) # dbTouched db\<rparr> \<and> bucket_ok t \<and>
    represents (Hash256 P) bolt_ops t (M(leaf_path P (d, k) := valueHashOf P v))"
  using blt.Update_represents [OF assms(2,3), of "leaf_path P (d, k)" "valueHashOf P v"] assms(1)
  by (auto simp: trieSetLeaf_def leaf_path_def valueHashOf_def)

lemma setNode_bolt: "bucket_ok s \<Longrightarrow> \<exists>s'. setNode H bolt_ops s k h v = Inr s' \<and> bucket_ok s'"
  by (auto simp: setNode_def bolt_ops_def bucket_simps)

lemma update_loop_bolt: "bucket_ok s \<Longrightarrow> \<exists>s'. update_loop H bolt_ops p d c s = Inr s' \<and> bucket_ok s'"
proof (induction H "bolt_ops :: bucket NodeStore" p d c s rule: update_loop.induct)
  case (2 H path d cur store)
  let ?c = "if pathBit path d = 0
    then internalHash H cur (getNode H bolt_ops store (siblingKey (Suc d) path) (Depth - Suc d))
    else internalHash H (getNode H bolt_ops store (siblingKey (Suc d) path) (Depth - Suc d)) cur"
  obtain s' where s': "setNode H bolt_ops store (nodeKey d path) (Depth - Suc d + 1) ?c = Inr s'" "bucket_ok s'"
    using setNode_bolt [OF 2(2)] by blast
  from 2(1) [OF refl refl refl s'(2)] s'(1) show ?case by (simp add: Let_def)
qed simp

lemma trieSetLeaf_total:
  assumes "hash32 (Hash256 P)" "bucket_ok (dbTrie db)"
  shows "\<exists>t. trieSetLeaf P db d k v = db\<lparr>dbTrie := t, dbTouched := (d, k) # dbTouched db\<rparr> \<and> bucket_ok t"
proof -
  let ?p = "LeafPath (Hash256 P) d k" and ?v = "if length v = 0 then ZeroHash else ValueHash (Hash256 P) v"
  obtain s where s: "setNode (Hash256 P) bolt_ops (dbTrie db) (nodeKey Depth ?p) 0 (leafHash (Hash256 P) ?p ?v) = Inr s"
    "bucket_ok s"
    using setNode_bolt [OF assms(2)] by blast
  obtain t where "update_loop (Hash256 P) bolt_ops ?p Depth (leafHash (Hash256 P) ?p ?v) s = Inr t" "bucket_ok t"
    using update_loop_bolt [OF s(2)] by blast
  with s(1) have "Update (Hash256 P) bolt_ops (dbTrie db) ?p ?v = Inr t"
    using assms(1) by (simp add: Update_def)
  with \<open>bucket_ok t\<close> show ?thesis by (intro exI [of _ t]) (simp add: trieSetLeaf_def)
qed

lemma leafValue_frame [simp]:
  "leafValue (db\<lparr>dbTrie := t, dbTouched := u\<rparr>) = leafValue db"
  by (simp add: leafValue_def fun_eq_iff)

lemma state_leaves_touched:
  assumes "leaf_inj P db" "(d, k) \<in> set (dbTouched db)"
  shows "state_leaves P db (leaf_path P (d, k)) = valueHashOf P (leafValue db d k)"
proof -
  let ?f = "filter (\<lambda>x. leaf_path P x = leaf_path P (d, k)) (dbTouched db)"
  have "set ?f = {(d, k)}" using assms by (auto simp: leaf_inj_def inj_on_def)
  then obtain x xs where "?f = x # xs" "x = (d, k)" by (cases ?f) auto
  then show ?thesis by (simp add: state_leaves_def)
qed

lemma state_leaves_other:
  assumes "p \<notin> leaf_path P ` set (dbTouched db)"
  shows "state_leaves P db p = zeros HashSize"
proof -
  have "filter (\<lambda>x. leaf_path P x = p) (dbTouched db) = []" using assms by (auto simp: filter_empty_conv)
  then show ?thesis by (simp add: state_leaves_def)
qed

text \<open>One write of a bucket together with its mirror in the tree.\<close>

lemma sync_write:
  assumes H: "hash32 (Hash256 P)" and sync: "trie_sync P db"
    and trie: "dbTrie db1 = dbTrie db" "dbTouched db1 = dbTouched db"
    and same: "leafValue db1 d k = v" "\<And>d' k'. (d', k') \<noteq> (d, k) \<Longrightarrow> leafValue db1 d' k' = leafValue db d' k'"
  shows "trie_sync P (trieSetLeaf P db1 d k v)"
proof -
  let ?db = "trieSetLeaf P db1 d k v"
  have ok: "bucket_ok (dbTrie db1)" using sync trie by (simp add: trie_sync_def)
  from trieSetLeaf_total [OF H ok] obtain t where t: "?db = db1\<lparr>dbTrie := t, dbTouched := (d, k) # dbTouched db1\<rparr>"
    "bucket_ok t" by blast
  have vals: "leafValue ?db = leafValue db1" by (simp add: t(1))
  have live: "(d', k') \<in> set (dbTouched ?db)" if "leafValue ?db d' k' \<noteq> []" for d' k'
  proof (cases "(d', k') = (d, k)")
    case False
    from same(2) [OF this] that have "leafValue db d' k' \<noteq> []" by (simp only: vals) simp
    with sync show ?thesis by (simp add: t(1) trie trie_sync_def)
  qed (simp add: t(1))
  moreover have "represents (Hash256 P) bolt_ops t (state_leaves P ?db)" if inj: "leaf_inj P ?db"
  proof -
    have old: "leaf_inj P db" using inj by (simp add: leaf_inj_def t trie)
    have "represents (Hash256 P) bolt_ops (dbTrie db1) (state_leaves P db)"
      using sync old trie by (simp add: trie_sync_def)
    from trieSetLeaf_ok [OF H ok this, of d k v] have
      "represents (Hash256 P) bolt_ops t ((state_leaves P db)(leaf_path P (d, k) := valueHashOf P v))"
      by (auto simp: t dest: arg_cong [where f = dbTrie])
    moreover have "(state_leaves P db)(leaf_path P (d, k) := valueHashOf P v) = state_leaves P ?db"
    proof
      fix p
      show "((state_leaves P db)(leaf_path P (d, k) := valueHashOf P v)) p = state_leaves P ?db p"
      proof (cases "p \<in> leaf_path P ` set (dbTouched ?db)")
        case False
        then show ?thesis using state_leaves_other [of p P db] state_leaves_other [OF False]
          by (auto simp: t trie)
      next
        case True
        then obtain d' k' where dk: "(d', k') \<in> set (dbTouched ?db)" "p = leaf_path P (d', k')" by auto
        show ?thesis
        proof (cases "(d', k') = (d, k)")
          case True
          with dk state_leaves_touched [OF inj dk(1)] same(1) show ?thesis by (simp add: vals)
        next
          case False
          then have mem: "(d', k') \<in> set (dbTouched db)" using dk(1) by (auto simp: t trie)
          have "p \<noteq> leaf_path P (d, k)"
            using inj dk False by (auto simp: leaf_inj_def t inj_on_def)
          with dk state_leaves_touched [OF inj dk(1)] state_leaves_touched [OF old mem] same(2) [OF False]
          show ?thesis by (simp add: vals)
        qed
      qed
    qed
    ultimately show ?thesis by simp
  qed
  ultimately show ?thesis using t by (simp add: trie_sync_def)
qed

text \<open>The rows of \<^verbatim>\<open>RebuildTrie\<close> are the live entries, and re-inserting them gives the leaf map back.\<close>

definition rebuild_rows :: "DB \<Rightarrow> (byte \<times> bytes \<times> bytes) list" where
  "rebuild_rows db =
     map (\<lambda>(k, v). addr_row DomainBalance (k, bigBytes (SetBytes v)))
        (filter (\<lambda>(k, v). SetBytes v \<noteq> 0) (dbBal db)) @
     map (addr_row DomainKey) (dbKey db) @ map (addr_row DomainContract) (dbContract db) @
     map (\<lambda>(k, v). (DomainCommit, k, v)) (dbCommit db) @
     (case bget (dbBeacon db) BeaconStateKey of None \<Rightarrow> [] | Some v \<Rightarrow> [(DomainBeacon, BeaconStateKey, v)])"

lemma RebuildTrie_rows:
  "RebuildTrie P db = foldM (rebuild_leaf P) (rebuild_rows db) (db\<lparr>dbTrie := bempty, dbTouched := []\<rparr>)"
  by (simp add: RebuildTrie_def rebuild_rows_def foldM_append [abs_def] Let_def)

lemma rebuild_fold:
  assumes H: "hash32 (Hash256 P)"
  shows "bucket_ok (dbTrie db) \<Longrightarrow> represents (Hash256 P) bolt_ops (dbTrie db) M \<Longrightarrow>
    \<exists>t u. foldM (rebuild_leaf P) rows db = Inr (db\<lparr>dbTrie := t, dbTouched := u\<rparr>) \<and> bucket_ok t \<and>
      set u = set (dbTouched db) \<union> (\<lambda>(d, k, v). (d, k)) ` set rows \<and>
      represents (Hash256 P) bolt_ops t
        (fold (\<lambda>(p, v) M. M(p := v)) (map (\<lambda>(d, k, v). (leaf_path P (d, k), ValueHash (Hash256 P) v)) rows) M)"
proof (induction rows arbitrary: db M)
  case (Cons row rows)
  obtain d k v where row: "row = (d, k, v)" by (cases row)
  obtain t where t: "Update (Hash256 P) bolt_ops (dbTrie db) (leaf_path P (d, k)) (ValueHash (Hash256 P) v) = Inr t"
    "bucket_ok t" "represents (Hash256 P) bolt_ops t (M(leaf_path P (d, k) := ValueHash (Hash256 P) v))"
    using blt.Update_represents [OF Cons.prems, of "leaf_path P (d, k)"] H by (auto simp: leaf_path_def)
  let ?db = "db\<lparr>dbTrie := t, dbTouched := (d, k) # dbTouched db\<rparr>"
  have step: "rebuild_leaf P db row = Inr ?db"
    using t(1) by (simp add: rebuild_leaf_def row leaf_path_def)
  have "bucket_ok (dbTrie ?db)"
    "represents (Hash256 P) bolt_ops (dbTrie ?db) (M(leaf_path P (d, k) := ValueHash (Hash256 P) v))"
    using t by simp_all
  from Cons.IH [OF this] obtain t' u where
    "foldM (rebuild_leaf P) rows ?db = Inr (?db\<lparr>dbTrie := t', dbTouched := u\<rparr>)" "bucket_ok t'"
    "set u = set (dbTouched ?db) \<union> (\<lambda>(d, k, v). (d, k)) ` set rows"
    "represents (Hash256 P) bolt_ops t' (fold (\<lambda>(p, v) M. M(p := v))
       (map (\<lambda>(d, k, v). (leaf_path P (d, k), ValueHash (Hash256 P) v)) rows)
       (M(leaf_path P (d, k) := ValueHash (Hash256 P) v)))"
    by blast
  then show ?case by (intro exI [of _ t'] exI [of _ u]) (simp add: row step [unfolded row] del: fun_upd_apply)
next
  case Nil
  then show ?case by (intro exI [of _ "dbTrie db"] exI [of _ "dbTouched db"]) simp
qed

lemma fold_upd_in:
  "(p, v) \<in> set us \<Longrightarrow> \<forall>(q, w) \<in> set us. q = p \<longrightarrow> w = v \<Longrightarrow> fold (\<lambda>(p, v) M. M(p := v)) us M p = v"
proof (induction us rule: rev_induct)
  case (snoc u us)
  then show ?case by (cases u) (auto split: if_splits)
qed simp

lemma fold_upd_out:
  "p \<notin> fst ` set us \<Longrightarrow> fold (\<lambda>(p, v) M. M(p := v)) us M p = M p"
  by (induction us arbitrary: M) (auto split: prod.splits)

lemmas domain_defs = DomainBalance_def DomainKey_def DomainContract_def DomainCommit_def DomainBeacon_def

lemma bval_cases:
  "bget b k = Some v \<Longrightarrow> bval b k = v" "bget b k = None \<Longrightarrow> bval b k = []"
  by (simp_all add: bval_def)

lemma bval_ne: "bval b k = v \<and> v \<noteq> [] \<longleftrightarrow> bget b k = Some v \<and> v \<noteq> []"
  by (auto simp: bval_def split: option.splits)

lemma bucket_ok_filter: "bucket_ok b \<Longrightarrow> bucket_ok (filter Q b)"
  unfolding bucket_ok_def by (induction b) auto

lemma addr_rows_live:
  assumes "bucket_ok b" "\<forall>k v. bget b k = Some v \<longrightarrow> length k = AddressSize"
  shows "(d, k, v) \<in> set (map (addr_row d') b) \<longleftrightarrow> d = d' \<and> bget b k = Some v"
proof -
  have "addr_row d' (k, v) = (d', k, v)" if "(k, v) \<in> set b" for k v
    using assms(2) that bget_Some_iff [OF assms(1)] by (auto simp: addr_row_def)
  then show ?thesis using bget_Some_iff [OF assms(1)] by force
qed

lemma rebuild_rows_live:
  assumes ok: "db_ok db" and wf: "db_wf db"
  shows "(d, k, v) \<in> set (rebuild_rows db) \<longleftrightarrow> leafValue db d k = v \<and> v \<noteq> []"
proof -
  have oks: "bucket_ok (dbBal db)" "bucket_ok (dbKey db)" "bucket_ok (dbContract db)" "bucket_ok (dbCommit db)"
    using ok by (simp_all add: db_ok_def)
  have wfs: "\<And>k v. bget (dbBal db) k = Some v \<Longrightarrow> length k = AddressSize \<and> bigBytes (SetBytes v) = v"
    "\<And>k v. bget (dbKey db) k = Some v \<Longrightarrow> length k = AddressSize \<and> v \<noteq> []"
    "\<And>k v. bget (dbContract db) k = Some v \<Longrightarrow> length k = AddressSize \<and> v \<noteq> []"
    "\<And>k v. bget (dbCommit db) k = Some v \<Longrightarrow> v \<noteq> []"
    "\<And>k v. bget (dbBeacon db) k = Some v \<Longrightarrow> k = BeaconStateKey \<and> v \<noteq> []"
    using wf unfolding db_wf_def by (auto simp: entry_ok_def domain_defs)
  have bal: "map (\<lambda>(k, v). addr_row DomainBalance (k, bigBytes (SetBytes v))) (filter (\<lambda>(k, v). SetBytes v \<noteq> 0) (dbBal db))
      = map (addr_row DomainBalance) (filter (\<lambda>(k, v). SetBytes v \<noteq> 0) (dbBal db))"
    using wfs(1) bget_Some_iff [OF oks(1)] by (intro map_cong) auto
  have zero: "SetBytes v \<noteq> 0 \<longleftrightarrow> v \<noteq> []" if "bget (dbBal db) k = Some v" for k v
    using wfs(1) [OF that] bigBytes_eq_Nil [of "SetBytes v"] by (cases "v = []") auto
  have r1: "(d, k, v) \<in> set (map (addr_row DomainBalance) (filter (\<lambda>(k, v). SetBytes v \<noteq> 0) (dbBal db)))
      \<longleftrightarrow> d = DomainBalance \<and> bget (dbBal db) k = Some v \<and> v \<noteq> []"
  proof -
    let ?b = "filter (\<lambda>(k, v). SetBytes v \<noteq> 0) (dbBal db)"
    have ok: "bucket_ok ?b" using oks(1) by (rule bucket_ok_filter)
    have iff: "bget ?b k = Some v \<longleftrightarrow> bget (dbBal db) k = Some v \<and> v \<noteq> []" for k v
      using zero [of k v] by (auto simp: bget_Some_iff [OF ok] bget_Some_iff [OF oks(1)])
    have "\<forall>k v. bget ?b k = Some v \<longrightarrow> length k = AddressSize" using wfs(1) by (simp add: iff)
    from addr_rows_live [OF ok this] show ?thesis by (simp only: iff)
  qed
  have r2: "(d, k, v) \<in> set (map (addr_row DomainKey) (dbKey db)) \<longleftrightarrow>
      d = DomainKey \<and> bget (dbKey db) k = Some v"
    using addr_rows_live [OF oks(2)] wfs(2) by blast
  have r3: "(d, k, v) \<in> set (map (addr_row DomainContract) (dbContract db)) \<longleftrightarrow>
      d = DomainContract \<and> bget (dbContract db) k = Some v"
    using addr_rows_live [OF oks(3)] wfs(3) by blast
  have r4: "(d, k, v) \<in> set (map (\<lambda>(k, v). (DomainCommit, k, v)) (dbCommit db))
      \<longleftrightarrow> d = DomainCommit \<and> bget (dbCommit db) k = Some v"
    by (auto simp: bget_Some_iff [OF oks(4)])
  have r5: "(d, k, v) \<in> set (case bget (dbBeacon db) BeaconStateKey of None \<Rightarrow> []
      | Some v \<Rightarrow> [(DomainBeacon, BeaconStateKey, v)]) \<longleftrightarrow> d = DomainBeacon \<and> bget (dbBeacon db) k = Some v"
    using wfs(5) [of k v] by (cases "k = BeaconStateKey") (auto split: option.splits)
  have ne: "bget b k = Some v \<longleftrightarrow> bval b k = v \<and> v \<noteq> []" if "bget b k = Some v \<Longrightarrow> v \<noteq> []" for b
    using that by (cases "bget b k") (auto simp: bval_def)
  have n: "bget (dbKey db) k = Some v \<longleftrightarrow> bval (dbKey db) k = v \<and> v \<noteq> []"
    "bget (dbContract db) k = Some v \<longleftrightarrow> bval (dbContract db) k = v \<and> v \<noteq> []"
    "bget (dbCommit db) k = Some v \<longleftrightarrow> bval (dbCommit db) k = v \<and> v \<noteq> []"
    "bget (dbBeacon db) k = Some v \<longleftrightarrow> bval (dbBeacon db) k = v \<and> v \<noteq> []"
    using wfs(2-5) by (blast intro!: ne)+
  show ?thesis
    unfolding rebuild_rows_def bal set_append Un_iff r1 r2 r3 r4 r5 n leafValue_def bval_ne [symmetric]
    by (simp add: domain_defs)
qed

lemma RebuildTrie_total:
  assumes H: "hash32 (Hash256 P)" and ok: "db_ok db" and wf: "db_wf db"
  shows "\<exists>t u. RebuildTrie P db = Inr (db\<lparr>dbTrie := t, dbTouched := u\<rparr>) \<and>
    (\<forall>d k. (d, k) \<in> set u \<longleftrightarrow> leafValue db d k \<noteq> []) \<and> trie_sync P (db\<lparr>dbTrie := t, dbTouched := u\<rparr>)"
proof -
  let ?us = "map (\<lambda>(d, k, v). (leaf_path P (d, k), ValueHash (Hash256 P) v)) (rebuild_rows db)"
  have "represents (Hash256 P) bolt_ops bempty (\<lambda>_. zeros HashSize)"
    using H by (intro blt.empty_represents) (simp_all add: bolt_ops_def)
  then obtain t u where tu: "RebuildTrie P db = Inr (db\<lparr>dbTrie := t, dbTouched := u\<rparr>)" "bucket_ok t"
    "set u = (\<lambda>(d, k, v). (d, k)) ` set (rebuild_rows db)"
    "represents (Hash256 P) bolt_ops t (fold (\<lambda>(p, v) M. M(p := v)) ?us (\<lambda>_. zeros HashSize))"
    using rebuild_fold [OF H, of "db\<lparr>dbTrie := bempty, dbTouched := []\<rparr>" "\<lambda>_. zeros HashSize" "rebuild_rows db"]
    by (auto simp: RebuildTrie_rows)
  let ?db = "db\<lparr>dbTrie := t, dbTouched := u\<rparr>"
  have mem: "(d, k) \<in> set u \<longleftrightarrow> leafValue db d k \<noteq> []" for d k
    unfolding tu(3) using rebuild_rows_live [OF ok wf] by force
  have "fold (\<lambda>(p, v) M. M(p := v)) ?us (\<lambda>_. zeros HashSize) p = state_leaves P ?db p" if inj: "leaf_inj P ?db" for p
  proof (cases "p \<in> leaf_path P ` set u")
    case True
    then obtain d k where dk: "(d, k) \<in> set u" "p = leaf_path P (d, k)" by auto
    have "(d, k, leafValue db d k) \<in> set (rebuild_rows db)"
      using dk(1) by (simp add: rebuild_rows_live [OF ok wf] mem)
    moreover have "w = ValueHash (Hash256 P) (leafValue db d k)" if "(p, w) \<in> set ?us" for w
    proof -
      from that obtain d' k' v' where "(d', k', v') \<in> set (rebuild_rows db)" "leaf_path P (d', k') = p"
        "w = ValueHash (Hash256 P) v'" by auto
      moreover from this have "(d', k') = (d, k)"
        using inj dk mem [of d' k'] by (auto simp: leaf_inj_def inj_on_def rebuild_rows_live [OF ok wf])
      ultimately show ?thesis by (simp add: rebuild_rows_live [OF ok wf])
    qed
    ultimately have "fold (\<lambda>(p, v) M. M(p := v)) ?us (\<lambda>_. zeros HashSize) p = ValueHash (Hash256 P) (leafValue db d k)"
      using dk(2) by (intro fold_upd_in) (force, blast)
    with state_leaves_touched [OF inj, of d k] dk mem show ?thesis by (simp add: valueHashOf_def)
  next
    case False
    then have "p \<notin> fst ` set ?us" by (force simp: tu(3))
    from fold_upd_out [OF this] state_leaves_other [of p P ?db] False show ?thesis by simp
  qed
  then have "fold (\<lambda>(p, v) M. M(p := v)) ?us (\<lambda>_. zeros HashSize) = state_leaves P ?db" if "leaf_inj P ?db"
    using that by blast
  with tu(4) have "leaf_inj P ?db \<longrightarrow> represents (Hash256 P) bolt_ops t (state_leaves P ?db)" by metis
  with tu(2) mem have "trie_sync P ?db" by (simp add: trie_sync_def)
  with tu(1) mem show ?thesis by blast
qed

lemma RebuildTrie_sync:
  assumes H: "hash32 (Hash256 P)" and ok: "db_ok db" and wf: "db_wf db" and sync: "trie_sync P db"
    and inj: "leaf_inj P db"
  shows "\<exists>u. RebuildTrie P db = Inr (db\<lparr>dbTouched := u\<rparr>)"
proof -
  from RebuildTrie_total [OF H ok wf] obtain t u where tu: "RebuildTrie P db = Inr (db\<lparr>dbTrie := t, dbTouched := u\<rparr>)"
    "\<forall>d k. (d, k) \<in> set u \<longleftrightarrow> leafValue db d k \<noteq> []" "trie_sync P (db\<lparr>dbTrie := t, dbTouched := u\<rparr>)" by blast
  let ?db = "db\<lparr>dbTrie := t, dbTouched := u\<rparr>"
  have sub: "set u \<subseteq> set (dbTouched db)" using tu(2) sync by (auto simp: trie_sync_def)
  then have inj': "leaf_inj P ?db" using inj by (auto simp: leaf_inj_def intro: inj_on_subset)
  have "state_leaves P ?db p = state_leaves P db p" for p
  proof (cases "p \<in> leaf_path P ` set (dbTouched db)")
    case True
    then obtain d k where dk: "(d, k) \<in> set (dbTouched db)" "p = leaf_path P (d, k)" by auto
    note old = state_leaves_touched [OF inj dk(1)]
    show ?thesis
    proof (cases "(d, k) \<in> set u")
      case True
      with state_leaves_touched [OF inj', of d k] old dk show ?thesis by simp
    next
      case False
      then have "p \<notin> leaf_path P ` set (dbTouched ?db)"
        using inj dk sub by (auto simp: leaf_inj_def inj_on_def)
      with state_leaves_other [OF this] old False dk tu(2) show ?thesis by (simp add: valueHashOf_def ZeroHash_def)
    qed
  next
    case False
    then have "p \<notin> leaf_path P ` set (dbTouched ?db)" using sub by auto
    with state_leaves_other [OF this] state_leaves_other [OF False] show ?thesis by simp
  qed
  then have "state_leaves P ?db = state_leaves P db" ..
  then have "represents (Hash256 P) bolt_ops t (state_leaves P db)"
    "represents (Hash256 P) bolt_ops (dbTrie db) (state_leaves P db)"
    using tu(3) inj' sync inj by (simp_all add: trie_sync_def)
  from blt.represents_unique [OF this] have "t = dbTrie db"
    using tu(3) sync by (intro bget_ext) (simp_all add: trie_sync_def bolt_ops_def)
  with tu(1) show ?thesis by auto
qed

section \<open>The write choke points keep the invariants\<close>

named_theorems db_frame "which buckets an operation leaves alone"

lemma trieSetLeaf_frame [db_frame, simp]:
  "dbBlocks (trieSetLeaf P db d k v) = dbBlocks db" "dbTxs (trieSetLeaf P db d k v) = dbTxs db"
  "dbContract (trieSetLeaf P db d k v) = dbContract db" "dbCode (trieSetLeaf P db d k v) = dbCode db"
  "dbBal (trieSetLeaf P db d k v) = dbBal db" "dbKey (trieSetLeaf P db d k v) = dbKey db"
  "dbCommit (trieSetLeaf P db d k v) = dbCommit db" "dbSpent (trieSetLeaf P db d k v) = dbSpent db"
  "dbSnapshot (trieSetLeaf P db d k v) = dbSnapshot db" "dbReceipt (trieSetLeaf P db d k v) = dbReceipt db"
  "csBal (trieSetLeaf P db d k v) = csBal db" "csContract (trieSetLeaf P db d k v) = csContract db"
  "csKey (trieSetLeaf P db d k v) = csKey db" "histBal (trieSetLeaf P db d k v) = histBal db"
  "histContract (trieSetLeaf P db d k v) = histContract db" "dbBeacon (trieSetLeaf P db d k v) = dbBeacon db"
  "csBeacon (trieSetLeaf P db d k v) = csBeacon db"
  by (simp_all add: trieSetLeaf_def Let_def split: sum.splits)

lemmas trie_wrappers = trieSetBalance_def trieSetKey_def trieSetContract_def trieSetCommit_def trieSetBeacon_def

lemma Update_bolt_ok:
  assumes "bucket_ok s" "Update H bolt_ops s p v = Inr t"
  shows "bucket_ok t"
proof -
  obtain s1 where s1: "setNode H bolt_ops s (nodeKey Depth p) 0 (leafHash H p v) = Inr s1" "bucket_ok s1"
    using setNode_bolt [OF assms(1)] by blast
  obtain t1 where "update_loop H bolt_ops p Depth (leafHash H p v) s1 = Inr t1" "bucket_ok t1"
    using update_loop_bolt [OF s1(2)] by blast
  with s1(1) assms(2) show ?thesis by (simp add: Update_def split: if_splits)
qed

lemma trieSetLeaf_trie_ok: "bucket_ok (dbTrie db) \<Longrightarrow> bucket_ok (dbTrie (trieSetLeaf P db d k v))"
  by (auto simp: trieSetLeaf_def Let_def split: sum.splits dest: Update_bolt_ok)

lemma db_ok_trieSetLeaf: "db_ok db \<Longrightarrow> db_ok (trieSetLeaf P db d k v)"
  by (simp add: db_ok_def trieSetLeaf_trie_ok)

lemma db_wf_trieSetLeaf [simp]: "db_wf (trieSetLeaf P db d k v) = db_wf db"
  by (simp add: db_wf_def)

text \<open>The recorders touch only the changesets and history indices.\<close>

lemma recordBal_frame [db_frame, simp]:
  "dbContract (recordBal r db a) = dbContract db" "dbCode (recordBal r db a) = dbCode db"
  "dbBal (recordBal r db a) = dbBal db" "dbKey (recordBal r db a) = dbKey db"
  "dbCommit (recordBal r db a) = dbCommit db" "dbSpent (recordBal r db a) = dbSpent db"
  "dbReceipt (recordBal r db a) = dbReceipt db" "csContract (recordBal r db a) = csContract db"
  "csKey (recordBal r db a) = csKey db" "histContract (recordBal r db a) = histContract db"
  "dbTrie (recordBal r db a) = dbTrie db" "dbTouched (recordBal r db a) = dbTouched db"
  "dbBeacon (recordBal r db a) = dbBeacon db" "csBeacon (recordBal r db a) = csBeacon db"
  "dbBlocks (recordBal r db a) = dbBlocks db" "dbTxs (recordBal r db a) = dbTxs db"
  "dbSnapshot (recordBal r db a) = dbSnapshot db"
  by (simp_all add: recordBal_def Let_def split: option.splits)

lemma recordContract_frame [db_frame, simp]:
  "dbContract (recordContract r db a) = dbContract db" "dbCode (recordContract r db a) = dbCode db"
  "dbBal (recordContract r db a) = dbBal db" "dbKey (recordContract r db a) = dbKey db"
  "dbCommit (recordContract r db a) = dbCommit db" "dbSpent (recordContract r db a) = dbSpent db"
  "dbReceipt (recordContract r db a) = dbReceipt db" "csBal (recordContract r db a) = csBal db"
  "csKey (recordContract r db a) = csKey db" "histBal (recordContract r db a) = histBal db"
  "dbTrie (recordContract r db a) = dbTrie db" "dbTouched (recordContract r db a) = dbTouched db"
  "dbBeacon (recordContract r db a) = dbBeacon db" "csBeacon (recordContract r db a) = csBeacon db"
  "dbBlocks (recordContract r db a) = dbBlocks db" "dbTxs (recordContract r db a) = dbTxs db"
  "dbSnapshot (recordContract r db a) = dbSnapshot db"
  by (simp_all add: recordContract_def Let_def split: option.splits)

lemma recordKey_frame [db_frame, simp]:
  "dbContract (recordKey r db a) = dbContract db" "dbCode (recordKey r db a) = dbCode db"
  "dbBal (recordKey r db a) = dbBal db" "dbKey (recordKey r db a) = dbKey db"
  "dbCommit (recordKey r db a) = dbCommit db" "dbSpent (recordKey r db a) = dbSpent db"
  "dbReceipt (recordKey r db a) = dbReceipt db" "csBal (recordKey r db a) = csBal db"
  "csContract (recordKey r db a) = csContract db" "histBal (recordKey r db a) = histBal db"
  "histContract (recordKey r db a) = histContract db"
  "dbTrie (recordKey r db a) = dbTrie db" "dbTouched (recordKey r db a) = dbTouched db"
  "dbBeacon (recordKey r db a) = dbBeacon db" "csBeacon (recordKey r db a) = csBeacon db"
  "dbBlocks (recordKey r db a) = dbBlocks db" "dbTxs (recordKey r db a) = dbTxs db"
  "dbSnapshot (recordKey r db a) = dbSnapshot db"
  by (simp_all add: recordKey_def Let_def split: option.splits)

lemma recordBeacon_frame [db_frame, simp]:
  "dbContract (recordBeacon r db) = dbContract db" "dbCode (recordBeacon r db) = dbCode db"
  "dbBal (recordBeacon r db) = dbBal db" "dbKey (recordBeacon r db) = dbKey db"
  "dbCommit (recordBeacon r db) = dbCommit db" "dbSpent (recordBeacon r db) = dbSpent db"
  "dbReceipt (recordBeacon r db) = dbReceipt db" "csBal (recordBeacon r db) = csBal db"
  "csContract (recordBeacon r db) = csContract db" "histBal (recordBeacon r db) = histBal db"
  "histContract (recordBeacon r db) = histContract db" "csKey (recordBeacon r db) = csKey db"
  "dbTrie (recordBeacon r db) = dbTrie db" "dbTouched (recordBeacon r db) = dbTouched db"
  "dbBeacon (recordBeacon r db) = dbBeacon db" "dbBlocks (recordBeacon r db) = dbBlocks db"
  "dbTxs (recordBeacon r db) = dbTxs db" "dbSnapshot (recordBeacon r db) = dbSnapshot db"
  by (simp_all add: recordBeacon_def Let_def split: option.splits)

lemma db_ok_record:
  "db_ok db \<Longrightarrow> db_ok (recordBal r db a)" "db_ok db \<Longrightarrow> db_ok (recordContract r db a)"
  "db_ok db \<Longrightarrow> db_ok (recordKey r db a)" "db_ok db \<Longrightarrow> db_ok (recordBeacon r db)"
  by (auto simp: db_ok_def recordBal_def recordContract_def recordKey_def recordBeacon_def Let_def
      bucket_simps split: option.splits)

lemma domain_distinct [simp]:
  "DomainBalance \<noteq> DomainKey" "DomainBalance \<noteq> DomainContract" "DomainBalance \<noteq> DomainCommit"
  "DomainBalance \<noteq> DomainBeacon" "DomainKey \<noteq> DomainBalance" "DomainKey \<noteq> DomainContract"
  "DomainKey \<noteq> DomainCommit" "DomainKey \<noteq> DomainBeacon" "DomainContract \<noteq> DomainBalance"
  "DomainContract \<noteq> DomainKey" "DomainContract \<noteq> DomainCommit" "DomainContract \<noteq> DomainBeacon"
  "DomainCommit \<noteq> DomainBalance" "DomainCommit \<noteq> DomainKey" "DomainCommit \<noteq> DomainContract"
  "DomainCommit \<noteq> DomainBeacon" "DomainBeacon \<noteq> DomainBalance" "DomainBeacon \<noteq> DomainKey"
  "DomainBeacon \<noteq> DomainContract" "DomainBeacon \<noteq> DomainCommit"
  by (simp_all add: domain_defs)

lemma entry_ok_simps [simp]:
  "entry_ok DomainBalance k v \<longleftrightarrow> length k = AddressSize \<and> bigBytes (SetBytes v) = v"
  "entry_ok DomainKey k v \<longleftrightarrow> length k = AddressSize \<and> v \<noteq> []"
  "entry_ok DomainContract k v \<longleftrightarrow> length k = AddressSize \<and> v \<noteq> []"
  "entry_ok DomainCommit k v \<longleftrightarrow> v \<noteq> []"
  "entry_ok DomainBeacon k v \<longleftrightarrow> k = BeaconStateKey \<and> v \<noteq> []"
  by (simp_all add: entry_ok_def)

lemma bigBytes_minimal [simp]: "bigBytes (SetBytes (bigBytes x)) = bigBytes x"
  by (simp only: SetBytes_bigBytes) (simp add: bigBytes_def)

lemma bigBytes_abs [simp]: "bigBytes \<bar>x\<bar> = bigBytes x"
  by (simp add: bigBytes_def)

lemma db_wf_put:
  "db_wf db \<Longrightarrow> length k = AddressSize \<Longrightarrow> db_wf (db\<lparr>dbBal := bput (dbBal db) k (bigBytes x)\<rparr>)"
  "db_wf db \<Longrightarrow> length k = AddressSize \<Longrightarrow> v \<noteq> [] \<Longrightarrow> db_wf (db\<lparr>dbKey := bput (dbKey db) k v\<rparr>)"
  "db_wf db \<Longrightarrow> length k = AddressSize \<Longrightarrow> v \<noteq> [] \<Longrightarrow> db_wf (db\<lparr>dbContract := bput (dbContract db) k v\<rparr>)"
  "db_wf db \<Longrightarrow> v \<noteq> [] \<Longrightarrow> db_wf (db\<lparr>dbCommit := bput (dbCommit db) k v\<rparr>)"
  "db_wf db \<Longrightarrow> v \<noteq> [] \<Longrightarrow> db_wf (db\<lparr>dbBeacon := bput (dbBeacon db) BeaconStateKey v\<rparr>)"
  by (auto simp: db_wf_def bucket_simps split: if_splits) (metis option.distinct(1) option.exhaust)

lemma db_wf_del:
  "db_wf db \<Longrightarrow> db_wf (db\<lparr>dbBal := bdel (dbBal db) k\<rparr>)"
  "db_wf db \<Longrightarrow> db_wf (db\<lparr>dbKey := bdel (dbKey db) k\<rparr>)"
  "db_wf db \<Longrightarrow> db_wf (db\<lparr>dbContract := bdel (dbContract db) k\<rparr>)"
  "db_wf db \<Longrightarrow> db_wf (db\<lparr>dbCommit := bdel (dbCommit db) k\<rparr>)"
  "db_wf db \<Longrightarrow> db_wf (db\<lparr>dbBeacon := bdel (dbBeacon db) k\<rparr>)"
  by (auto simp: db_wf_def bucket_simps split: if_splits)

lemma db_wf_frame [simp]:
  "db_wf (recordBal r db a) = db_wf db" "db_wf (recordContract r db a) = db_wf db"
  "db_wf (recordKey r db a) = db_wf db" "db_wf (recordBeacon r db) = db_wf db"
  "db_wf (db\<lparr>dbCode := b\<rparr>) = db_wf db" "db_wf (db\<lparr>dbSpent := b\<rparr>) = db_wf db"
  "db_wf (db\<lparr>dbReceipt := b\<rparr>) = db_wf db"
  by (simp_all add: db_wf_def)

lemma trie_sync_cong:
  assumes "dbTrie db' = dbTrie db" "dbTouched db' = dbTouched db" "leafValue db' = leafValue db"
  shows "trie_sync P db' = trie_sync P db"
proof -
  have "leaf_inj P db' = leaf_inj P db" "state_leaves P db' = state_leaves P db"
    using assms by (auto simp: leaf_inj_def state_leaves_def fun_eq_iff split: list.splits)
  then show ?thesis using assms by (simp add: trie_sync_def)
qed

lemma db_inv_ok: "db_inv P db \<Longrightarrow> db_ok db" and db_inv_wf: "db_inv P db \<Longrightarrow> db_wf db"
  by (simp_all add: db_inv_def)

lemma db_ok_write:
  assumes "db_ok db"
  shows "db_ok (db\<lparr>dbBal := bput (dbBal db) k v\<rparr>)" "db_ok (db\<lparr>dbKey := bput (dbKey db) k v\<rparr>)"
    "db_ok (db\<lparr>dbContract := bput (dbContract db) k v\<rparr>)" "db_ok (db\<lparr>dbCommit := bput (dbCommit db) k v\<rparr>)"
    "db_ok (db\<lparr>dbBeacon := bput (dbBeacon db) k v\<rparr>)" "db_ok (db\<lparr>dbSpent := bput (dbSpent db) k v\<rparr>)"
    "db_ok (db\<lparr>dbBal := bdel (dbBal db) k\<rparr>)" "db_ok (db\<lparr>dbKey := bdel (dbKey db) k\<rparr>)"
    "db_ok (db\<lparr>dbContract := bdel (dbContract db) k\<rparr>)" "db_ok (db\<lparr>dbCommit := bdel (dbCommit db) k\<rparr>)"
    "db_ok (db\<lparr>dbBeacon := bdel (dbBeacon db) k\<rparr>)" "db_ok (db\<lparr>dbSpent := bdel (dbSpent db) k\<rparr>)"
    "db_ok (db\<lparr>dbReceipt := b\<rparr>)"
  using assms by (simp_all add: db_ok_def bucket_simps)

lemma db_inv_cong:
  assumes "db_inv P db" "db_ok db'" "dbBal db' = dbBal db" "dbKey db' = dbKey db"
    "dbContract db' = dbContract db" "dbCommit db' = dbCommit db" "dbBeacon db' = dbBeacon db"
    "dbTrie db' = dbTrie db" "dbTouched db' = dbTouched db"
  shows "db_inv P db'"
proof -
  have "leafValue db' = leafValue db" using assms by (simp add: leafValue_def fun_eq_iff)
  from trie_sync_cong [OF assms(8,9) this] assms show ?thesis by (auto simp: db_inv_def db_wf_def)
qed

lemma db_inv_write:
  assumes "hash32 (Hash256 P)" "db_inv P db" "db_ok db1" "db_wf db1"
    "dbTrie db1 = dbTrie db" "dbTouched db1 = dbTouched db"
    "leafValue db1 d k = v" "\<And>d' k'. (d', k') \<noteq> (d, k) \<Longrightarrow> leafValue db1 d' k' = leafValue db d' k'"
  shows "db_inv P (trieSetLeaf P db1 d k v)"
  using sync_write [of P db db1 d k v] assms by (auto simp: db_inv_def db_ok_trieSetLeaf)

lemma setBalance_inv:
  assumes "hash32 (Hash256 P)" "db_inv P db" "length a = AddressSize"
  shows "db_inv P (setBalance P r db a x)"
proof -
  let ?db = "(recordBal r db a)\<lparr>dbBal := bput (dbBal (recordBal r db a)) a (bigBytes x)\<rparr>"
  have ok: "db_ok ?db" using db_ok_record(1) [of db r a] assms(2) by (simp add: db_inv_def db_ok_def bucket_simps)
  have wf: "db_wf ?db" using db_wf_put(1) [of "recordBal r db a" a x] assms(2,3) by (simp add: db_inv_def)
  have "db_inv P (trieSetLeaf P ?db DomainBalance a (bigBytes x))"
    using assms ok wf by (intro db_inv_write [of P db]) (auto simp: leafValue_def bval_def bucket_simps)
  moreover have "(if x \<noteq> 0 then bigBytes x else []) = bigBytes x" by simp
  ultimately show ?thesis by (simp add: setBalance_def trie_wrappers)
qed

text \<open>The code registry is not committed; its operations touch nothing else.\<close>

definition code_only :: "DB \<Rightarrow> DB \<Rightarrow> bool" where
  "code_only db db' \<longleftrightarrow> db' = db\<lparr>dbCode := dbCode db'\<rparr> \<and> (bucket_ok (dbCode db) \<longrightarrow> bucket_ok (dbCode db'))"

lemma code_only_refl [simp]: "code_only db db"
  by (simp add: code_only_def)

lemma code_only_trans: "code_only a b \<Longrightarrow> code_only b c \<Longrightarrow> code_only a c"
  unfolding code_only_def by (metis DB.update_convs(4) DB.surjective DB.select_convs(4))

lemma code_only_put: "bucket_ok (dbCode db) \<longrightarrow> bucket_ok b \<Longrightarrow> code_only db (db\<lparr>dbCode := b\<rparr>)"
  by (simp add: code_only_def)

lemma retainCode_only: "retainCode db h c = Inr db' \<Longrightarrow> code_only db db'"
  by (auto simp: retainCode_def bucket_simps code_only_put split: option.splits)

lemma releaseCode_only: "code_only db (releaseCode db h keep)"
  by (auto simp: releaseCode_def bucket_simps code_only_put split: option.splits)

lemma reconcile_code_only: "reconcile_code P r db ct = Inr db' \<Longrightarrow> code_only db db'"
  by (auto simp: reconcile_code_def Let_def split: option.splits if_splits
      intro: retainCode_only code_only_trans [OF releaseCode_only])

lemma code_only_inv: "code_only db db' \<Longrightarrow> db_inv P db \<Longrightarrow> db_inv P db'"
proof -
  assume only: "code_only db db'" and inv: "db_inv P db"
  obtain b where "db' = db\<lparr>dbCode := b\<rparr>" "bucket_ok (dbCode db) \<longrightarrow> bucket_ok b"
    using only unfolding code_only_def by blast
  with inv show ?thesis by (intro db_inv_cong [OF inv]) (auto simp: db_inv_def db_ok_def)
qed

lemma record_inv:
  "db_inv P db \<Longrightarrow> db_inv P (recordBal r db a)" "db_inv P db \<Longrightarrow> db_inv P (recordContract r db a)"
  "db_inv P db \<Longrightarrow> db_inv P (recordKey r db a)" "db_inv P db \<Longrightarrow> db_inv P (recordBeacon r db)"
  by (auto intro!: db_inv_cong [of P db] db_ok_record dest: db_inv_ok)

text \<open>A slot, key or beacon write together with its mirror.\<close>

lemma leafValue_upd:
  "leafValue (db\<lparr>dbBal := b\<rparr>) d k = (if d = DomainBalance then bval b k else leafValue db d k)"
  "leafValue (db\<lparr>dbKey := b\<rparr>) d k = (if d = DomainKey then bval b k else leafValue db d k)"
  "leafValue (db\<lparr>dbContract := b\<rparr>) d k = (if d = DomainContract then bval b k else leafValue db d k)"
  "leafValue (db\<lparr>dbCommit := b\<rparr>) d k = (if d = DomainCommit then bval b k else leafValue db d k)"
  "leafValue (db\<lparr>dbBeacon := b\<rparr>) d k = (if d = DomainBeacon then bval b k else leafValue db d k)"
  by (simp_all add: leafValue_def domain_distinct)

lemma leafValue_bval:
  "leafValue db DomainBalance k = bval (dbBal db) k" "leafValue db DomainKey k = bval (dbKey db) k"
  "leafValue db DomainContract k = bval (dbContract db) k" "leafValue db DomainCommit k = bval (dbCommit db) k"
  "leafValue db DomainBeacon k = bval (dbBeacon db) k"
  by (simp_all add: leafValue_def domain_distinct)

lemma bval_upd: "bval (bput b k v) k' = (if k' = k then v else bval b k')" "bval (bdel b k) k' = (if k' = k then [] else bval b k')"
  by (simp_all add: bval_def bucket_simps)

lemmas mirror_simps = leafValue_upd leafValue_bval bval_upd

lemma put_mirror_inv:
  assumes "hash32 (Hash256 P)" "db_inv P db" "v \<noteq> []"
  shows "length k = AddressSize \<Longrightarrow>
      db_inv P (trieSetLeaf P (db\<lparr>dbContract := bput (dbContract db) k v\<rparr>) DomainContract k v)"
    and "length k = AddressSize \<Longrightarrow>
      db_inv P (trieSetLeaf P (db\<lparr>dbKey := bput (dbKey db) k v\<rparr>) DomainKey k v)"
    and "db_inv P (trieSetLeaf P (db\<lparr>dbCommit := bput (dbCommit db) k v\<rparr>) DomainCommit k v)"
    and "db_inv P (trieSetLeaf P (db\<lparr>dbBeacon := bput (dbBeacon db) BeaconStateKey v\<rparr>) DomainBeacon BeaconStateKey v)"
proof -
  note ok = db_inv_ok [OF assms(2)] and wf = db_inv_wf [OF assms(2)] and wr = db_inv_write [OF assms(1,2)]
  note put = db_wf_put(2,3) [OF wf _ assms(3)] db_wf_put(4,5) [OF wf assms(3)]
  show "length k = AddressSize \<Longrightarrow>
      db_inv P (trieSetLeaf P (db\<lparr>dbContract := bput (dbContract db) k v\<rparr>) DomainContract k v)"
    by (rule wr) (auto intro: db_ok_write ok put simp: mirror_simps)
  show "length k = AddressSize \<Longrightarrow> db_inv P (trieSetLeaf P (db\<lparr>dbKey := bput (dbKey db) k v\<rparr>) DomainKey k v)"
    by (rule wr) (auto intro: db_ok_write ok put simp: mirror_simps)
  show "db_inv P (trieSetLeaf P (db\<lparr>dbCommit := bput (dbCommit db) k v\<rparr>) DomainCommit k v)"
    by (rule wr) (auto intro: db_ok_write ok put simp: mirror_simps)
  show "db_inv P (trieSetLeaf P (db\<lparr>dbBeacon := bput (dbBeacon db) BeaconStateKey v\<rparr>) DomainBeacon BeaconStateKey v)"
    by (rule wr) (auto intro: db_ok_write ok put simp: mirror_simps)
qed

lemma del_mirror_inv:
  assumes "hash32 (Hash256 P)" "db_inv P db"
  shows "db_inv P (trieSetLeaf P (db\<lparr>dbBal := bdel (dbBal db) k\<rparr>) DomainBalance k [])"
    and "db_inv P (trieSetLeaf P (db\<lparr>dbContract := bdel (dbContract db) k\<rparr>) DomainContract k [])"
    and "db_inv P (trieSetLeaf P (db\<lparr>dbKey := bdel (dbKey db) k\<rparr>) DomainKey k [])"
    and "db_inv P (trieSetLeaf P (db\<lparr>dbCommit := bdel (dbCommit db) k\<rparr>) DomainCommit k [])"
    and "db_inv P (trieSetLeaf P (db\<lparr>dbBeacon := bdel (dbBeacon db) k\<rparr>) DomainBeacon k [])"
proof -
  note ok = db_inv_ok [OF assms(2)] and wf = db_inv_wf [OF assms(2)] and wr = db_inv_write [OF assms(1,2)]
  show "db_inv P (trieSetLeaf P (db\<lparr>dbBal := bdel (dbBal db) k\<rparr>) DomainBalance k [])"
    by (rule wr) (auto intro: db_ok_write ok db_wf_del wf simp: mirror_simps)
  show "db_inv P (trieSetLeaf P (db\<lparr>dbContract := bdel (dbContract db) k\<rparr>) DomainContract k [])"
    by (rule wr) (auto intro: db_ok_write ok db_wf_del wf simp: mirror_simps)
  show "db_inv P (trieSetLeaf P (db\<lparr>dbKey := bdel (dbKey db) k\<rparr>) DomainKey k [])"
    by (rule wr) (auto intro: db_ok_write ok db_wf_del wf simp: mirror_simps)
  show "db_inv P (trieSetLeaf P (db\<lparr>dbCommit := bdel (dbCommit db) k\<rparr>) DomainCommit k [])"
    by (rule wr) (auto intro: db_ok_write ok db_wf_del wf simp: mirror_simps)
  show "db_inv P (trieSetLeaf P (db\<lparr>dbBeacon := bdel (dbBeacon db) k\<rparr>) DomainBeacon k [])"
    by (rule wr) (auto intro: db_ok_write ok db_wf_del wf simp: mirror_simps)
qed

lemma setContract_inv:
  assumes "prims_ok P" "db_inv P db" "length (ctOwner ct) = AddressSize" "setContract P r db ct = Inr db'"
  shows "db_inv P db'"
proof -
  obtain db1 where db1: "reconcile_code P r (recordContract r db (ctOwner ct)) ct = Inr db1"
    "db' = trieSetContract P (db1\<lparr>dbContract := bput (dbContract db1) (ctOwner ct) (rlpStored P (storedOf P ct))\<rparr>)
       (ctOwner ct) (rlpStored P (storedOf P ct))"
    using assms(4) by (auto simp: setContract_def Let_def result_simps)
  have "db_inv P db1"
    using code_only_inv [OF reconcile_code_only [OF db1(1)]] record_inv(2) assms(2) by blast
  with assms db1(2) show ?thesis by (simp add: trie_wrappers prims_ok_def put_mirror_inv)
qed

lemma delContract_inv:
  assumes "hash32 (Hash256 P)" "db_inv P db"
  shows "db_inv P (delContract P r db a)"
proof -
  let ?db = "recordContract r db a"
  let ?db1 = "case bget (dbContract ?db) a of None \<Rightarrow> ?db
    | Some prev \<Rightarrow> (case rlpStoredDec P prev of None \<Rightarrow> ?db | Some old \<Rightarrow> releaseCode ?db (scCodeHash old) (r \<noteq> None))"
  have "code_only ?db ?db1" by (auto split: option.splits intro: releaseCode_only)
  from code_only_inv [OF this] have "db_inv P ?db1" using record_inv(2) assms(2) by blast
  from del_mirror_inv(2) [OF assms(1) this] show ?thesis by (simp add: delContract_def Let_def trie_wrappers)
qed

lemma registerPubKey_inv:
  assumes "hash32 (Hash256 P)" "db_inv P db"
  shows "db_inv P (registerPubKey P r db tx)"
  using assms put_mirror_inv(2) [OF assms(1) record_inv(3) [OF assms(2)], where r1 = r]
  by (auto simp: registerPubKey_def Let_def trie_wrappers)

lemma setBeacon_inv:
  assumes "hash32 (Hash256 P)" "db_inv P db" "seed \<noteq> []"
  shows "db_inv P (setBeacon P r db seed)"
  using assms put_mirror_inv(4) [OF assms(1) record_inv(4) [OF assms(2)] assms(3), where r1 = r]
  by (auto simp: setBeacon_def Let_def trie_wrappers)

lemma updateBeacon_inv:
  assumes "hash32 (Hash256 P)" "db_inv P db"
  shows "db_inv P (updateBeacon P r db block)"
proof -
  have "Hash256 P x \<noteq> []" for x using hash32_length [OF assms(1), of x] by (auto simp: HashSize_def)
  with assms show ?thesis by (simp add: updateBeacon_def Let_def setBeacon_inv)
qed


section \<open>The state commitment as a whole\<close>

lemma db_inv_InitDB: "hash32 (Hash256 P) \<Longrightarrow> db_inv P InitDB"
  using blt.empty_represents [of "Hash256 P" bempty]
  by (simp add: db_inv_def db_ok_def db_wf_def trie_sync_def state_leaves_def [abs_def] InitDB_def bucket_simps leafValue_def
      bval_def bolt_ops_def)

text \<open>A leaf of the tree has the hash of the bucket entry, whether it was ever written or not.\<close>

lemma state_leaves_value:
  assumes "trie_sync P db" "inj_on (leaf_path P) (insert (d, k) (set (dbTouched db)))"
  shows "state_leaves P db (leaf_path P (d, k)) = valueHashOf P (leafValue db d k)"
proof (cases "(d, k) \<in> set (dbTouched db)")
  case True
  have "leaf_inj P db" using assms(2) by (simp add: leaf_inj_def)
  from state_leaves_touched [OF this True] show ?thesis .
next
  case False
  then have "leaf_path P (d, k) \<notin> leaf_path P ` set (dbTouched db)" using assms(2) by auto
  moreover have "leafValue db d k = []" using False assms(1) by (auto simp: trie_sync_def)
  ultimately show ?thesis using state_leaves_other [of "leaf_path P (d, k)" P db] by (simp add: valueHashOf_def ZeroHash_def)
qed

lemma stateDomain_leaf:
  "stateDomain domain = Inr (tag, b) \<Longrightarrow> leafValue db tag k = bval (b db) k"
  by (auto simp: stateDomain_def leafValue_bval split: if_splits)

lemma StateProof_complete:
  assumes "hash32 (Hash256 P)" "db_inv P db" "stateDomain domain = Inr (tag, b)"
    "inj_on (leaf_path P) (insert (tag, k) (set (dbTouched db)))"
  shows "\<exists>pr. StateProof P db domain k = Inr pr \<and> prRoot pr = StateRoot P db \<and> prPath pr = leaf_path P (tag, k) \<and>
    prValue pr = bval (b db) k \<and> prValueHash pr = valueHashOf P (prValue pr) \<and>
    Verify (Hash256 P) (prRoot pr) (prPath pr) (prValueHash pr) (prBranch pr)"
proof -
  have sync: "trie_sync P db" and inj: "leaf_inj P db" using assms(2,4) by (simp_all add: db_inv_def leaf_inj_def)
  then have rep: "represents (Hash256 P) bolt_ops (dbTrie db) (state_leaves P db)" by (simp add: trie_sync_def)
  note leaf = state_leaves_value [OF sync assms(4), unfolded stateDomain_leaf [OF assms(3)]]
  have "length (leaf_path P (tag, k)) = HashSize" "length (valueHashOf P (bval (b db) k)) = HashSize"
    using assms(1) by (simp_all add: leaf_path_def valueHashOf_def ZeroHash_def ValueHash_def hash32_length)
  with blt.Prove_Verify [OF assms(1) rep, of "leaf_path P (tag, k)"] leaf obtain br where
    br: "Prove (Hash256 P) bolt_ops (dbTrie db) (leaf_path P (tag, k)) = Inr br"
      "Verify (Hash256 P) (StateRoot P db) (leaf_path P (tag, k)) (valueHashOf P (bval (b db) k)) br"
    by (auto simp: StateRoot_def)
  have "StateProof P db domain k = Inr \<lparr>prRoot = StateRoot P db, prPath = leaf_path P (tag, k), prValue = bval (b db) k,
      prValueHash = valueHashOf P (bval (b db) k), prBranch = br\<rparr>"
    using br(1) by (simp add: StateProof_def assms(3) Let_def leaf_path_def valueHashOf_def bval_def)
  with br(2) show ?thesis by simp
qed

section \<open>Properties\<close>

text \<open>C17: the incremental state commitment is the one a rebuild from the flat buckets yields. From any
  database that keeps the invariant, and unless two written leaf keys collide under the leaf hash,
  \<^verbatim>\<open>RebuildTrie\<close> succeeds and reproduces every stored node, hence the state root, and changes no other
  bucket.\<close>

theorem RebuildTrie_reproduces:
  assumes "hash32 (Hash256 P)" and "db_inv P db" and "leaf_inj P db"
  shows "\<exists>u. RebuildTrie P db = Inr (db\<lparr>dbTouched := u\<rparr>) \<and> StateRoot P (db\<lparr>dbTouched := u\<rparr>) = StateRoot P db"
  using RebuildTrie_sync [OF assms(1) _ _ _ assms(3)] assms(2) by (simp add: db_inv_def StateRoot_def)

definition demo_sprims :: sprims where
  "demo_sprims = prims.extend demo_prims
     \<lparr>rlpStored = (\<lambda>sc. 0xc0 # scOwner sc @ scCodeHash sc @ concat (scKeys sc) @ concat (scValues sc)),
      rlpStoredDec = (\<lambda>raw. if length raw < 65 then None
        else Some \<lparr>scOwner = take 32 (drop 1 raw), scCodeHash = take 32 (drop 33 raw), scKeys = [], scValues = []\<rparr>)\<rparr>"

lemma demo_sprims_hash [simp]: "Hash256 demo_sprims = pad32" 
  by (simp add: demo_sprims_def demo_prims_def prims.defs)

definition demo_db :: DB where
  "demo_db = setBalance demo_sprims (Some 1) InitDB (replicate 32 7) 5"

lemma demo_db_inv: "db_inv demo_sprims demo_db"
  by (simp add: demo_db_def setBalance_inv db_inv_InitDB AddressSize_def)

lemma setBalance_touched:
  assumes "hash32 (Hash256 P)" "db_inv P db"
  shows "dbTouched (setBalance P r db a x) = (DomainBalance, a) # dbTouched db"
proof -
  let ?db = "(recordBal r db a)\<lparr>dbBal := bput (dbBal (recordBal r db a)) a (bigBytes x)\<rparr>"
  have "bucket_ok (dbTrie ?db)" using assms(2) by (simp add: db_inv_def trie_sync_def)
  from trieSetLeaf_total [OF assms(1) this, of DomainBalance a "if x \<noteq> 0 then bigBytes x else []"]
  obtain t where "trieSetLeaf P ?db DomainBalance a (if x \<noteq> 0 then bigBytes x else [])
      = ?db\<lparr>dbTrie := t, dbTouched := (DomainBalance, a) # dbTouched ?db\<rparr>" by blast
  then show ?thesis by (simp add: setBalance_def trieSetBalance_def Let_def)
qed

lemma demo_db_touched: "dbTouched demo_db = [(DomainBalance, replicate 32 7)]"
  by (simp add: demo_db_def setBalance_touched db_inv_InitDB InitDB_def [THEN arg_cong, of dbTouched])

theorem RebuildTrie_reproduces_witness:
  "\<exists>u. RebuildTrie demo_sprims demo_db = Inr (demo_db\<lparr>dbTouched := u\<rparr>) \<and>
     StateRoot demo_sprims (demo_db\<lparr>dbTouched := u\<rparr>) = StateRoot demo_sprims demo_db"
  by (rule RebuildTrie_reproduces) (simp_all add: demo_db_inv leaf_inj_def demo_db_touched)

text \<open>C21: a state proof a node serves is accepted by the verifier and carries the stored value. For every
  domain the node can answer, the proof holds the entry of that bucket (empty when absent), its value hash,
  and a branch that folds to the node's own state root.\<close>

theorem StateProof_verifies:
  assumes "hash32 (Hash256 P)" and "db_inv P db" and "stateDomain domain = Inr (tag, bucketOf)"
    and "inj_on (leaf_path P) (insert (tag, key) (set (dbTouched db)))"
  shows "\<exists>pr. StateProof P db domain key = Inr pr \<and> prRoot pr = StateRoot P db \<and>
    prPath pr = LeafPath (Hash256 P) tag key \<and>
    prValue pr = (case bget (bucketOf db) key of None \<Rightarrow> [] | Some v \<Rightarrow> v) \<and>
    prValueHash pr = (if prValue pr = [] then ZeroHash else ValueHash (Hash256 P) (prValue pr)) \<and>
    Verify (Hash256 P) (prRoot pr) (prPath pr) (prValueHash pr) (prBranch pr)"
  using StateProof_complete [OF assms] by (simp add: leaf_path_def bval_def valueHashOf_def)

theorem StateProof_verifies_witness:
  "\<exists>pr. StateProof demo_sprims demo_db ''balance'' (replicate 32 7) = Inr pr \<and> prRoot pr = StateRoot demo_sprims demo_db \<and>
    prPath pr = LeafPath (Hash256 demo_sprims) DomainBalance (replicate 32 7) \<and>
    prValue pr = (case bget (dbBal demo_db) (replicate 32 7) of None \<Rightarrow> [] | Some v \<Rightarrow> v) \<and>
    prValueHash pr = (if prValue pr = [] then ZeroHash else ValueHash (Hash256 demo_sprims) (prValue pr)) \<and>
    Verify (Hash256 demo_sprims) (prRoot pr) (prPath pr) (prValueHash pr) (prBranch pr)"
  by (rule StateProof_verifies) (simp_all add: demo_db_inv demo_db_touched stateDomain_def)

end
