(* ===== verification/Commits.thy ===== *)
theory Commits
  imports State
begin

text \<open>
  The commit store of the commit-reveal mempool (\<^verbatim>\<open>ngstate/commit.go\<close>): pending commitments keyed by
  height and hash, the journal of spent ones, their lookup, consumption, restoration and pruning, and the
  admission check of a commitment.  The lemmas say what the window scans find, that a reveal is matched
  only with a strictly earlier commitment of the same sender, and that consuming, restoring and pruning
  touch exactly the intended keys.
\<close>

section \<open>Definitions\<close>

definition commitKey :: "u64 \<Rightarrow> bytes \<Rightarrow> bytes" where
  "commitKey height hash =
     copy_at 8 hash (copy_at 0 (PackUint64LE height) (zeros (8 + HashSize)))"

definition putCommit :: "'p prims_scheme \<Rightarrow> DB \<Rightarrow> u64 \<Rightarrow> bytes \<Rightarrow> Address \<Rightarrow> DB" where
  "putCommit P db height hash from =
     (let key = commitKey height hash;
          db = db\<lparr>dbCommit := bput (dbCommit db) key from\<rparr>
      in trieSetCommit P db key from)"

text \<open>\<^verbatim>\<open>for h := low; h < high; h++\<close>: the first height whose entry is the sender's.\<close>

function scan_commits :: "DB \<Rightarrow> Address \<Rightarrow> bytes \<Rightarrow> u64 \<Rightarrow> u64 \<Rightarrow> u64 option" where
  "scan_commits db from hash h high =
     (if h < high
      then if bget (dbCommit db) (commitKey h hash) = Some from then Some h
           else scan_commits db from hash (h + 1) high
      else None)"
  by pat_completeness auto
termination
proof (relation "measure (\<lambda>(db, from, hash, h, high). unat (high - h))")
  fix db :: DB and "from" :: Address and hash :: bytes and h high :: u64
  assume "h < high"
  then have "high - h \<noteq> 0" by auto
  then have "unat (high - h - 1) < unat (high - h)" by (simp add: unat_minus_one unat_gt_0)
  then show "((db, from, hash, h + 1, high), (db, from, hash, h, high))
      \<in> measure (\<lambda>(db, from, hash, h, high). unat (high - h))"
    by (simp add: diff_diff_eq)
qed simp

declare scan_commits.simps [simp del]

definition findCommit :: "DB \<Rightarrow> Address \<Rightarrow> bytes \<Rightarrow> u64 \<Rightarrow> u64 option" where
  "findCommit db from hash revealHeight =
     (let low = (if revealHeight > CommitWindow then revealHeight - CommitWindow else 0)
      in scan_commits db from hash low revealHeight)"

definition consumeCommit :: "'p prims_scheme \<Rightarrow> DB \<Rightarrow> u64 \<Rightarrow> bytes \<Rightarrow> DB" where
  "consumeCommit P db height hash =
     (let key = commitKey height hash;
          db = db\<lparr>dbCommit := bdel (dbCommit db) key\<rparr>
      in trieSetCommit P db key [])"

definition commitFromPending :: "DB \<Rightarrow> Address \<Rightarrow> bytes \<Rightarrow> u64 \<Rightarrow> bool" where
  "commitFromPending db from hash height =
     (let low = (if height > CommitWindow + 1 then height - CommitWindow - 1 else 0)
      in scan_commits db from hash low height \<noteq> None)"

definition CommitOnChain :: "DB \<Rightarrow> Address \<Rightarrow> bytes \<Rightarrow> u64 \<Rightarrow> bool" where
  "CommitOnChain db from hash next_height = commitFromPending db from hash next_height"

definition CheckCommitment :: "'p prims_scheme \<Rightarrow> DB \<Rightarrow> Commitment \<Rightarrow> u64 \<Rightarrow> error + unit" where
  "CheckCommitment P db commit height =
     bind_result (Commitment_CheckError P commit height (keyResolver db)) (\<lambda>_.
     bind_result (Commitment_From P commit) (\<lambda>from.
       if commitFromPending db from (cmHash commit) height then Inl ErrCommitDuplicate
       else case cmFee commit of
              None \<Rightarrow> Inl Panic
            | Some fee \<Rightarrow> if getBalance db from < fee then Inl ErrCommitUnaffordable else Inr ()))"

definition spentKey :: "u64 \<Rightarrow> bytes \<Rightarrow> bytes" where
  "spentKey revealHeight hash =
     copy_at 8 hash (copy_at 0 (PackUint64LE revealHeight) (zeros (8 + HashSize)))"

definition journalConsumed :: "DB \<Rightarrow> u64 \<Rightarrow> u64 \<Rightarrow> bytes \<Rightarrow> Address \<Rightarrow> DB" where
  "journalConsumed db revealHeight recordHeight hash from =
     (let val = copy_at 8 from (copy_at 0 (PackUint64LE recordHeight) (zeros (8 + AddressSize)))
      in db\<lparr>dbSpent := bput (dbSpent db) (spentKey revealHeight hash) val\<rparr>)"

text \<open>The journal values are at least eight bytes long; a shorter one would make the slice panic.\<close>

definition restoreConsumedAtHeight :: "'p prims_scheme \<Rightarrow> DB \<Rightarrow> u64 \<Rightarrow> error + DB" where
  "restoreConsumedAtHeight P db h =
     foldM (\<lambda>db (k, v).
        case UnpackUint64LE v of
          None \<Rightarrow> Inl Panic
        | Some recordHeight \<Rightarrow>
            let from = copy_at 0 (drop 8 v) (zeros AddressSize);
                db = putCommit P db recordHeight (drop 8 k) from
            in Inr (db\<lparr>dbSpent := bdel (dbSpent db) (spentKey h (drop 8 k))\<rparr>))
       (seek_prefix (dbSpent db) (PackUint64LE h)) db"

definition deleteCommitsAtHeight :: "'p prims_scheme \<Rightarrow> DB \<Rightarrow> u64 \<Rightarrow> DB" where
  "deleteCommitsAtHeight P db h =
     foldl (\<lambda>db k. trieSetCommit P (db\<lparr>dbCommit := bdel (dbCommit db) k\<rparr>) k [])
       db (map fst (seek_prefix (dbCommit db) (PackUint64LE h)))"

definition below_cutoff :: "u64 \<Rightarrow> bytes \<Rightarrow> bool" where
  "below_cutoff cutoff k = (case UnpackUint64LE k of None \<Rightarrow> False | Some h \<Rightarrow> h < cutoff)"

text \<open>\<^verbatim>\<open>inTrie\<close> selects the commit store, which backs the commitment, or the spent journal, which does not.\<close>

definition pruneHeightBucketBelow :: "'p prims_scheme \<Rightarrow> DB \<Rightarrow> u64 \<Rightarrow> bool \<Rightarrow> DB" where
  "pruneHeightBucketBelow P db cutoff inTrie =
     (if inTrie
      then foldl (\<lambda>db k. trieSetCommit P (db\<lparr>dbCommit := bdel (dbCommit db) k\<rparr>) k [])
             db (filter (below_cutoff cutoff) (map fst (dbCommit db)))
      else foldl (\<lambda>db k. db\<lparr>dbSpent := bdel (dbSpent db) k\<rparr>)
             db (filter (below_cutoff cutoff) (map fst (dbSpent db))))"

definition pruneCommits :: "'p prims_scheme \<Rightarrow> DB \<Rightarrow> u64 \<Rightarrow> DB" where
  "pruneCommits P db tip =
     (if tip \<le> CommitWindow then db
      else let cutoff = tip - CommitWindow;
               db = pruneHeightBucketBelow P db cutoff True
           in pruneHeightBucketBelow P db cutoff False)"


section \<open>Keys and scans\<close>

lemma length_commitKey [simp]: "length (commitKey h hash) = 40"
  by (simp add: commitKey_def HashSize_def)

lemma commitKey_prefix: "commitKey h hash = PackUint64LE h @ drop 8 (commitKey h hash)"
proof -
  have "take 8 (commitKey h hash) = PackUint64LE h"
    by (simp add: commitKey_def copy_at_def HashSize_def)
  then show ?thesis by (metis append_take_drop_id)
qed

lemma commitKey_append: "length hash = HashSize \<Longrightarrow> commitKey h hash = PackUint64LE h @ hash"
  by (simp add: commitKey_def copy_at_def HashSize_def)

lemma commitKey_inject:
  "length hash = HashSize \<Longrightarrow> length hash' = HashSize \<Longrightarrow>
   commitKey h hash = commitKey h' hash' \<longleftrightarrow> h = h' \<and> hash = hash'"
  by (simp add: commitKey_append)

lemma spentKey_commitKey: "spentKey = commitKey"
  by (simp add: spentKey_def commitKey_def fun_eq_iff)

lemma commitKey_height: "UnpackUint64LE (commitKey h hash) = Some h"
  by (subst commitKey_prefix) simp

lemma word_step:
  fixes l u i :: u64
  shows "l < u \<Longrightarrow> l < l + 1" and "l \<le> i \<Longrightarrow> i = l \<or> l + 1 \<le> i"
  by unat_arith (metis inc_le order_le_less)

lemma scan_commits_Some:
  assumes "scan_commits db from hash l u = Some h"
  shows "l \<le> h \<and> h < u \<and> bget (dbCommit db) (commitKey h hash) = Some from \<and>
    (\<forall>i. l \<le> i \<and> i < h \<longrightarrow> bget (dbCommit db) (commitKey i hash) \<noteq> Some from)"
  using assms
proof (induction db "from" hash l u rule: scan_commits.induct)
  case (1 db "from" hash l u)
  show ?case
  proof (cases "l < u \<and> bget (dbCommit db) (commitKey l hash) \<noteq> Some from")
    case True
    then have nx: "scan_commits db from hash (l + 1) u = Some h"
      using "1.prems" by (simp add: scan_commits.simps [of db "from" hash l])
    have "l + 1 \<le> h \<and> h < u \<and> bget (dbCommit db) (commitKey h hash) = Some from \<and>
      (\<forall>i. l + 1 \<le> i \<and> i < h \<longrightarrow> bget (dbCommit db) (commitKey i hash) \<noteq> Some from)"
      using "1.IH" True nx by blast
    moreover have "l < h" using word_step(1) [of l u] True calculation by (simp add: order_less_le_trans)
    moreover have "bget (dbCommit db) (commitKey i hash) \<noteq> Some from" if "l \<le> i" "i < h" for i
      using word_step(2) [OF that(1)] calculation(1) True that(2) by blast
    ultimately show ?thesis by simp
  next
    case False
    with "1.prems" show ?thesis by (auto simp: scan_commits.simps [of db "from" hash l] split: if_splits)
  qed
qed

lemma scan_commits_None:
  assumes "scan_commits db from hash l u = None" "l \<le> i" "i < u"
  shows "bget (dbCommit db) (commitKey i hash) \<noteq> Some from"
  using assms
proof (induction db "from" hash l u rule: scan_commits.induct)
  case (1 db "from" hash l u)
  then have lu: "l < u" by simp
  with "1.prems"(1) have l: "bget (dbCommit db) (commitKey l hash) \<noteq> Some from"
    "scan_commits db from hash (l + 1) u = None"
    by (auto simp: scan_commits.simps [of db "from" hash l] split: if_splits)
  show ?case
  proof (cases "i = l")
    case False
    then have "l + 1 \<le> i" using "1.prems"(2) by (simp add: inc_le)
    with "1.IH" lu l "1.prems"(3) show ?thesis by blast
  qed (use l in simp)
qed

text \<open>The window in which a reveal at height \<open>r\<close> may find its commitment: strictly earlier, at most
  \<^const>\<open>CommitWindow\<close> blocks back.\<close>

definition in_window :: "u64 \<Rightarrow> u64 \<Rightarrow> bool" where
  "in_window r h \<longleftrightarrow> h < r \<and> r - h \<le> CommitWindow"

lemma in_window_iff: "in_window r h \<longleftrightarrow> (if r > CommitWindow then r - CommitWindow else 0) \<le> h \<and> h < r"
  unfolding in_window_def CommitWindow_def by unat_arith

lemma findCommit_Some:
  assumes "findCommit db from hash r = Some h"
  shows "in_window r h" "bget (dbCommit db) (commitKey h hash) = Some from"
  using scan_commits_Some [of db "from" hash _ r h] assms by (simp_all add: findCommit_def Let_def in_window_iff)

lemma findCommit_least:
  assumes "findCommit db from hash r = Some h" "in_window r i" "bget (dbCommit db) (commitKey i hash) = Some from"
  shows "h \<le> i"
proof -
  note scan = scan_commits_Some [OF assms(1) [unfolded findCommit_def Let_def]]
  with assms(2,3) show ?thesis unfolding in_window_iff by (meson not_less)
qed

lemma findCommit_None:
  assumes "findCommit db from hash r = None" "in_window r i"
  shows "bget (dbCommit db) (commitKey i hash) \<noteq> Some from"
  using scan_commits_None [of db "from" hash _ r i] assms by (simp add: findCommit_def Let_def in_window_iff)

section \<open>Writing commitments\<close>

lemma putCommit_inv:
  assumes "hash32 (Hash256 P)" "db_inv P db" "from \<noteq> []"
  shows "db_inv P (putCommit P db h hash from)"
  using put_mirror_inv(3) [OF assms] by (simp add: putCommit_def Let_def trie_wrappers)

lemma consumeCommit_inv:
  assumes "hash32 (Hash256 P)" "db_inv P db"
  shows "db_inv P (consumeCommit P db h hash)"
  using del_mirror_inv(4) [OF assms] by (simp add: consumeCommit_def Let_def trie_wrappers)

lemma spent_inv: "db_inv P db \<Longrightarrow> bucket_ok b \<Longrightarrow> db_inv P (db\<lparr>dbSpent := b\<rparr>)"
  by (rule db_inv_cong [of P db]) (auto dest: db_inv_ok simp: db_ok_def)

lemma journalConsumed_inv: "db_inv P db \<Longrightarrow> db_inv P (journalConsumed db r h hash from)"
  using db_inv_ok [of P db] by (simp add: journalConsumed_def Let_def spent_inv db_ok_def bucket_simps)

definition drop_commits :: "'p prims_scheme \<Rightarrow> bytes list \<Rightarrow> DB \<Rightarrow> DB" where
  "drop_commits P ks db = foldl (\<lambda>db k. trieSetCommit P (db\<lparr>dbCommit := bdel (dbCommit db) k\<rparr>) k []) db ks"

lemma drop_commits_inv:
  assumes "hash32 (Hash256 P)"
  shows "db_inv P db \<Longrightarrow> db_inv P (drop_commits P ks db)"
  unfolding drop_commits_def
  by (induction ks arbitrary: db) (simp_all add: trie_wrappers del_mirror_inv(4) [OF assms])

lemma drop_commits_get:
  "bget (dbCommit (drop_commits P ks db)) k = (if k \<in> set ks then None else bget (dbCommit db) k)"
  unfolding drop_commits_def by (induction ks arbitrary: db) (auto simp: trie_wrappers bucket_simps)

lemma drop_spent:
  "foldl (\<lambda>db k. db\<lparr>dbSpent := bdel (dbSpent db) k\<rparr>) db ks = db\<lparr>dbSpent := foldl bdel (dbSpent db) ks\<rparr>"
  by (induction ks arbitrary: db) simp_all

lemma foldl_bdel: "bget (foldl bdel b ks) k = (if k \<in> set ks then None else bget b k)"
  "bucket_ok b \<Longrightarrow> bucket_ok (foldl bdel b ks)"
  by (induction ks arbitrary: b) (simp_all add: bucket_simps)

lemma pruneCommits_inv:
  assumes "hash32 (Hash256 P)" "db_inv P db"
  shows "db_inv P (pruneCommits P db tip)"
proof -
  let ?db = "drop_commits P (filter (below_cutoff (tip - CommitWindow)) (map fst (dbCommit db))) db"
  have "db_inv P ?db" using drop_commits_inv assms by blast
  then have "db_inv P (?db\<lparr>dbSpent := foldl bdel (dbSpent ?db) ks\<rparr>)" for ks
    using db_inv_ok [of P ?db] by (simp add: spent_inv foldl_bdel db_ok_def)
  with assms show ?thesis
    by (simp add: pruneCommits_def pruneHeightBucketBelow_def Let_def drop_spent flip: drop_commits_def)
qed

lemma deleteCommitsAtHeight_inv:
  assumes "hash32 (Hash256 P)" "db_inv P db"
  shows "db_inv P (deleteCommitsAtHeight P db h)"
  using drop_commits_inv [OF assms] by (simp add: deleteCommitsAtHeight_def flip: drop_commits_def)

end
