(* ===== verification/Steps.thy ===== *)
theory Steps
  imports Commits
begin

text \<open>
  The elementary state transitions.  Every path that applies a block changes the state only through the
  write choke points of \<^verbatim>\<open>ngstate\<close>; \<open>state_step\<close> lists them as a step relation, and \<open>state_steps\<close> is its
  closure.  What holds of every step (the invariant of the database, the completeness of the changeset)
  is shown here once by rule induction.  The theory also holds the arithmetic of the total supply.
\<close>

section \<open>Definitions\<close>

definition totalSupply :: "DB \<Rightarrow> int" where
  "totalSupply db = sum_list (map (SetBytes \<circ> snd) (dbBal db))"

inductive state_step :: "'p sprims_scheme \<Rightarrow> u64 option \<Rightarrow> DB \<Rightarrow> DB \<Rightarrow> bool"
  for P :: "'p sprims_scheme" and rec :: "u64 option" where
  step_balance: "length a = AddressSize \<Longrightarrow> state_step P rec db (setBalance P rec db a x)"
| step_setContract:
    "length (ctOwner ct) = AddressSize \<Longrightarrow> setContract P rec db ct = Inr db' \<Longrightarrow> state_step P rec db db'"
| step_delContract: "length a = AddressSize \<Longrightarrow> state_step P rec db (delContract P rec db a)"
| step_key: "state_step P rec db (registerPubKey P rec db tx)"
| step_commit: "from \<noteq> [] \<Longrightarrow> state_step P rec db (putCommit P db h hash from)"
| step_reveal: "state_step P rec db (consumeCommit P (journalConsumed db r h hash from) h hash)"
| step_beacon: "seed \<noteq> [] \<Longrightarrow> state_step P rec db (setBeacon P rec db seed)"
| step_prune: "state_step P rec db (pruneCommits P db tip)"
| step_receipt: "state_step P rec db (db\<lparr>dbReceipt := b\<rparr>)"

definition state_steps :: "'p sprims_scheme \<Rightarrow> u64 option \<Rightarrow> DB \<Rightarrow> DB \<Rightarrow> bool" where
  "state_steps P rec = (state_step P rec)\<^sup>*\<^sup>*"

section \<open>Effects of the choke points\<close>

lemma sum_bput:
  fixes f :: "bytes \<times> bytes \<Rightarrow> int"
  shows "bucket_ok b \<Longrightarrow> sum_list (map f (bput b k v))
     = sum_list (map f b) + f (k, v) - (case bget b k of None \<Rightarrow> 0 | Some w \<Rightarrow> f (k, w))"
proof (induction b k v rule: bput.induct)
  case (2 k' v' b k v)
  have "bget b k = None" if "k < k'"
  proof -
    have "k \<notin> fst ` set b" using 2(2) that by (auto simp: bucket_ok_def)
    then show ?thesis by (simp add: bget_def map_of_eq_None_iff)
  qed
  moreover have "bucket_ok b" using 2(2) by (simp add: bucket_ok_def)
  ultimately show ?case using 2(1) by (auto simp: bget_def)
qed (simp add: bget_def)

lemma sum_bdel:
  fixes f :: "bytes \<times> bytes \<Rightarrow> int"
  shows "bucket_ok b \<Longrightarrow> sum_list (map f (bdel b k))
     = sum_list (map f b) - (case bget b k of None \<Rightarrow> 0 | Some w \<Rightarrow> f (k, w))"
proof (induction b)
  case (Cons x b)
  have "bucket_ok b" using Cons.prems by (simp add: bucket_ok_def)
  moreover have "fst x \<notin> fst ` set b" using Cons.prems by (auto simp: bucket_ok_def)
  then have "bdel b (fst x) = b" unfolding bdel_def by (intro filter_True) (metis imageI)
  moreover have "bget b (fst x) = None" using \<open>fst x \<notin> fst ` set b\<close> by (simp add: bget_def map_of_eq_None_iff)
  ultimately show ?case using Cons.IH by (cases x) (auto simp: bdel_def bget_def)
qed (simp add: bdel_def bget_def)

lemma setBalance_effect [db_frame, simp]:
  "dbBal (setBalance P r db a x) = bput (dbBal db) a (bigBytes x)"
  "dbContract (setBalance P r db a x) = dbContract db" "dbCode (setBalance P r db a x) = dbCode db"
  "dbKey (setBalance P r db a x) = dbKey db" "dbCommit (setBalance P r db a x) = dbCommit db"
  "dbSpent (setBalance P r db a x) = dbSpent db" "dbReceipt (setBalance P r db a x) = dbReceipt db"
  "dbBeacon (setBalance P r db a x) = dbBeacon db" "csContract (setBalance P r db a x) = csContract db"
  "csKey (setBalance P r db a x) = csKey db" "histContract (setBalance P r db a x) = histContract db"
  "csBeacon (setBalance P r db a x) = csBeacon db" "dbBlocks (setBalance P r db a x) = dbBlocks db"
  "dbTxs (setBalance P r db a x) = dbTxs db" "dbSnapshot (setBalance P r db a x) = dbSnapshot db"
  "csBal (setBalance P r db a x) = csBal (recordBal r db a)"
  "histBal (setBalance P r db a x) = histBal (recordBal r db a)"
  by (simp_all add: setBalance_def trieSetBalance_def Let_def)

lemma getBalance_setBalance:
  "getBalance (setBalance P r db a x) b = (if b = a then \<bar>x\<bar> else getBalance db b)"
  by (simp add: getBalance_def bucket_simps)

lemma getBalance_nonneg [simp]: "0 \<le> getBalance db a"
  by (simp add: getBalance_def split: option.splits)

lemma supply_setBalance:
  "bucket_ok (dbBal db) \<Longrightarrow> totalSupply (setBalance P r db a x) = totalSupply db + \<bar>x\<bar> - getBalance db a"
  by (simp add: totalSupply_def sum_bput getBalance_def split: option.splits)

lemma code_only_frame:
  assumes "code_only db db'"
  shows "dbBal db' = dbBal db" "dbContract db' = dbContract db" "dbKey db' = dbKey db" "dbCommit db' = dbCommit db"
    "dbSpent db' = dbSpent db" "dbReceipt db' = dbReceipt db" "dbBeacon db' = dbBeacon db" "csBal db' = csBal db"
    "csContract db' = csContract db" "csKey db' = csKey db" "histBal db' = histBal db"
    "histContract db' = histContract db" "csBeacon db' = csBeacon db" "dbBlocks db' = dbBlocks db"
    "dbTxs db' = dbTxs db" "dbSnapshot db' = dbSnapshot db" "dbTrie db' = dbTrie db" "dbTouched db' = dbTouched db"
proof -
  obtain c where db': "db' = db\<lparr>dbCode := c\<rparr>" using assms unfolding code_only_def by blast
  show "dbBal db' = dbBal db" "dbContract db' = dbContract db" "dbKey db' = dbKey db" "dbCommit db' = dbCommit db"
    "dbSpent db' = dbSpent db" "dbReceipt db' = dbReceipt db" "dbBeacon db' = dbBeacon db" "csBal db' = csBal db"
    "csContract db' = csContract db" "csKey db' = csKey db" "histBal db' = histBal db"
    "histContract db' = histContract db" "csBeacon db' = csBeacon db" "dbBlocks db' = dbBlocks db"
    "dbTxs db' = dbTxs db" "dbSnapshot db' = dbSnapshot db" "dbTrie db' = dbTrie db" "dbTouched db' = dbTouched db"
    by (simp_all add: db')
qed

lemma setContract_effect:
  assumes "setContract P r db ct = Inr db'"
  shows "dbContract db' = bput (dbContract db) (ctOwner ct) (rlpStored P (storedOf P ct))"
    "dbBal db' = dbBal db" "dbKey db' = dbKey db" "dbCommit db' = dbCommit db" "dbSpent db' = dbSpent db"
    "dbReceipt db' = dbReceipt db" "dbBeacon db' = dbBeacon db" "csBal db' = csBal db" "csKey db' = csKey db"
    "histBal db' = histBal db" "csBeacon db' = csBeacon db" "dbBlocks db' = dbBlocks db" "dbTxs db' = dbTxs db"
    "dbSnapshot db' = dbSnapshot db" "csContract db' = csContract (recordContract r db (ctOwner ct))"
    "histContract db' = histContract (recordContract r db (ctOwner ct))"
proof -
  obtain db1 where db1: "reconcile_code P r (recordContract r db (ctOwner ct)) ct = Inr db1"
    "db' = trieSetContract P (db1\<lparr>dbContract := bput (dbContract db1) (ctOwner ct) (rlpStored P (storedOf P ct))\<rparr>)
       (ctOwner ct) (rlpStored P (storedOf P ct))"
    using assms by (auto simp: setContract_def Let_def result_simps)
  note fr = code_only_frame [OF reconcile_code_only [OF db1(1)]]
  show "dbContract db' = bput (dbContract db) (ctOwner ct) (rlpStored P (storedOf P ct))"
    "dbBal db' = dbBal db" "dbKey db' = dbKey db" "dbCommit db' = dbCommit db" "dbSpent db' = dbSpent db"
    "dbReceipt db' = dbReceipt db" "dbBeacon db' = dbBeacon db" "csBal db' = csBal db" "csKey db' = csKey db"
    "histBal db' = histBal db" "csBeacon db' = csBeacon db" "dbBlocks db' = dbBlocks db" "dbTxs db' = dbTxs db"
    "dbSnapshot db' = dbSnapshot db" "csContract db' = csContract (recordContract r db (ctOwner ct))"
    "histContract db' = histContract (recordContract r db (ctOwner ct))"
    by (simp_all add: db1(2) trie_wrappers fr)
qed

lemma delContract_effect [db_frame, simp]:
  "dbContract (delContract P r db a) = bdel (dbContract db) a"
  "dbBal (delContract P r db a) = dbBal db" "dbKey (delContract P r db a) = dbKey db"
  "dbCommit (delContract P r db a) = dbCommit db" "dbSpent (delContract P r db a) = dbSpent db"
  "dbReceipt (delContract P r db a) = dbReceipt db" "dbBeacon (delContract P r db a) = dbBeacon db"
  "csBal (delContract P r db a) = csBal db" "csKey (delContract P r db a) = csKey db"
  "histBal (delContract P r db a) = histBal db" "csBeacon (delContract P r db a) = csBeacon db"
  "dbBlocks (delContract P r db a) = dbBlocks db" "dbTxs (delContract P r db a) = dbTxs db"
  "dbSnapshot (delContract P r db a) = dbSnapshot db"
  "csContract (delContract P r db a) = csContract (recordContract r db a)"
  "histContract (delContract P r db a) = histContract (recordContract r db a)"
proof -
  let ?db = "recordContract r db a"
  define db1 where "db1 = (case bget (dbContract ?db) a of None \<Rightarrow> ?db
    | Some prev \<Rightarrow> (case rlpStoredDec P prev of None \<Rightarrow> ?db | Some old \<Rightarrow> releaseCode ?db (scCodeHash old) (r \<noteq> None)))"
  have "code_only ?db db1" unfolding db1_def by (auto split: option.splits intro: releaseCode_only)
  note fr = code_only_frame [OF this]
  have "delContract P r db a = trieSetContract P (db1\<lparr>dbContract := bdel (dbContract db1) a\<rparr>) a []"
    by (simp add: delContract_def Let_def db1_def)
  then show "dbContract (delContract P r db a) = bdel (dbContract db) a"
    "dbBal (delContract P r db a) = dbBal db" "dbKey (delContract P r db a) = dbKey db"
    "dbCommit (delContract P r db a) = dbCommit db" "dbSpent (delContract P r db a) = dbSpent db"
    "dbReceipt (delContract P r db a) = dbReceipt db" "dbBeacon (delContract P r db a) = dbBeacon db"
    "csBal (delContract P r db a) = csBal db" "csKey (delContract P r db a) = csKey db"
    "histBal (delContract P r db a) = histBal db" "csBeacon (delContract P r db a) = csBeacon db"
    "dbBlocks (delContract P r db a) = dbBlocks db" "dbTxs (delContract P r db a) = dbTxs db"
    "dbSnapshot (delContract P r db a) = dbSnapshot db"
    "csContract (delContract P r db a) = csContract (recordContract r db a)"
    "histContract (delContract P r db a) = histContract (recordContract r db a)"
    by (simp_all add: trie_wrappers fr)
qed

lemma registerPubKey_frame [db_frame, simp]:
  "dbBal (registerPubKey P r db tx) = dbBal db" "dbContract (registerPubKey P r db tx) = dbContract db"
  "dbCode (registerPubKey P r db tx) = dbCode db" "dbCommit (registerPubKey P r db tx) = dbCommit db"
  "dbSpent (registerPubKey P r db tx) = dbSpent db" "dbReceipt (registerPubKey P r db tx) = dbReceipt db"
  "dbBeacon (registerPubKey P r db tx) = dbBeacon db" "csBal (registerPubKey P r db tx) = csBal db"
  "csContract (registerPubKey P r db tx) = csContract db" "histBal (registerPubKey P r db tx) = histBal db"
  "histContract (registerPubKey P r db tx) = histContract db" "csBeacon (registerPubKey P r db tx) = csBeacon db"
  "dbBlocks (registerPubKey P r db tx) = dbBlocks db" "dbTxs (registerPubKey P r db tx) = dbTxs db"
  "dbSnapshot (registerPubKey P r db tx) = dbSnapshot db"
  by (simp_all add: registerPubKey_def Let_def trie_wrappers)

lemma setBeacon_effect [db_frame, simp]:
  "dbBeacon (setBeacon P r db s) = bput (dbBeacon db) BeaconStateKey s"
  "dbBal (setBeacon P r db s) = dbBal db" "dbContract (setBeacon P r db s) = dbContract db"
  "dbCode (setBeacon P r db s) = dbCode db" "dbKey (setBeacon P r db s) = dbKey db"
  "dbCommit (setBeacon P r db s) = dbCommit db" "dbSpent (setBeacon P r db s) = dbSpent db"
  "dbReceipt (setBeacon P r db s) = dbReceipt db" "csBal (setBeacon P r db s) = csBal db"
  "csContract (setBeacon P r db s) = csContract db" "csKey (setBeacon P r db s) = csKey db"
  "histBal (setBeacon P r db s) = histBal db" "histContract (setBeacon P r db s) = histContract db"
  "csBeacon (setBeacon P r db s) = csBeacon (recordBeacon r db)" "dbBlocks (setBeacon P r db s) = dbBlocks db"
  "dbTxs (setBeacon P r db s) = dbTxs db" "dbSnapshot (setBeacon P r db s) = dbSnapshot db"
  by (simp_all add: setBeacon_def Let_def trie_wrappers)

text \<open>The commit store operations touch the commit buckets only.\<close>

definition commits_only :: "DB \<Rightarrow> DB \<Rightarrow> bool" where
  "commits_only db db' \<longleftrightarrow>
     (\<exists>c s t u. db' = db\<lparr>dbCommit := c, dbSpent := s, dbTrie := t, dbTouched := u\<rparr>)"

lemma commits_onlyI:
  "db' = db\<lparr>dbCommit := dbCommit db', dbSpent := dbSpent db', dbTrie := dbTrie db', dbTouched := dbTouched db'\<rparr> \<Longrightarrow>
   commits_only db db'"
  unfolding commits_only_def by blast

lemma commits_only_refl [simp]: "commits_only db db"
  by (rule commits_onlyI) simp

lemma commits_only_trans: "commits_only a b \<Longrightarrow> commits_only b c \<Longrightarrow> commits_only a c"
  unfolding commits_only_def by fastforce

lemma commits_only_frame:
  assumes "commits_only db db'"
  shows "dbBal db' = dbBal db" "dbContract db' = dbContract db" "dbCode db' = dbCode db" "dbKey db' = dbKey db"
    "dbReceipt db' = dbReceipt db" "dbBeacon db' = dbBeacon db" "csBal db' = csBal db"
    "csContract db' = csContract db" "csKey db' = csKey db" "histBal db' = histBal db"
    "histContract db' = histContract db" "csBeacon db' = csBeacon db" "dbBlocks db' = dbBlocks db"
    "dbTxs db' = dbTxs db" "dbSnapshot db' = dbSnapshot db"
  using assms unfolding commits_only_def by auto

lemma commits_only_leaf: "commits_only db (trieSetLeaf P db d k v)"
  by (rule commits_onlyI) (simp add: trieSetLeaf_def Let_def split: sum.splits)

lemma commits_only_put: "commits_only db (db\<lparr>dbCommit := c\<rparr>)" "commits_only db (db\<lparr>dbSpent := s\<rparr>)"
  by (rule commits_onlyI, simp)+

lemma commits_only_drop: "commits_only db (drop_commits P ks db)"
  unfolding drop_commits_def
proof (induction ks arbitrary: db)
  case (Cons k ks)
  have "commits_only db (trieSetCommit P (db\<lparr>dbCommit := bdel (dbCommit db) k\<rparr>) k [])"
    unfolding trie_wrappers by (rule commits_only_trans [OF commits_only_put(1) commits_only_leaf])
  from commits_only_trans [OF this Cons.IH] show ?case by simp
qed simp

lemma commits_only_ops:
  "commits_only db (putCommit P db h hash from)"
  "commits_only db (consumeCommit P db h hash)"
  "commits_only db (journalConsumed db r h hash from)"
  "commits_only db (pruneCommits P db tip)"
  "commits_only db (deleteCommitsAtHeight P db h)"
proof -
  show "commits_only db (putCommit P db h hash from)" "commits_only db (consumeCommit P db h hash)"
    unfolding putCommit_def consumeCommit_def Let_def trie_wrappers
    by (rule commits_only_trans [OF commits_only_put(1) commits_only_leaf])+
  show "commits_only db (journalConsumed db r h hash from)"
    unfolding journalConsumed_def Let_def by (rule commits_only_put)
  show "commits_only db (pruneCommits P db tip)"
    unfolding pruneCommits_def pruneHeightBucketBelow_def Let_def drop_spent drop_commits_def [symmetric]
    by (simp add: commits_only_trans [OF commits_only_drop commits_only_put(2)])
  show "commits_only db (deleteCommitsAtHeight P db h)"
    unfolding deleteCommitsAtHeight_def drop_commits_def [symmetric] by (rule commits_only_drop)
qed

section \<open>Every step keeps the invariant of the database\<close>

lemma receipt_inv: "db_inv P db \<Longrightarrow> db_inv P (db\<lparr>dbReceipt := b\<rparr>)"
  by (rule db_inv_cong [of P db]) (auto dest: db_inv_ok intro: db_ok_write)

lemma state_step_inv:
  assumes "state_step P rec db db'" "prims_ok P" "db_inv P db"
  shows "db_inv P db'"
proof -
  have H: "hash32 (Hash256 P)" using assms(2) by (simp add: prims_ok_def)
  from assms(1) show ?thesis
  proof cases
    case (step_setContract ct)
    then show ?thesis using setContract_inv assms(2,3) by blast
  qed (use H assms(3) in \<open>simp_all add: setBalance_inv delContract_inv registerPubKey_inv putCommit_inv
      consumeCommit_inv journalConsumed_inv setBeacon_inv pruneCommits_inv receipt_inv\<close>)
qed

lemma state_steps_inv: "state_steps P rec db db' \<Longrightarrow> prims_ok P \<Longrightarrow> db_inv P db \<Longrightarrow> db_inv P db'"
  unfolding state_steps_def by (induction rule: rtranclp_induct) (auto dest: state_step_inv)

lemma state_steps_refl [simp]: "state_steps P rec db db"
  by (simp add: state_steps_def)

lemma state_steps_trans: "state_steps P rec a b \<Longrightarrow> state_steps P rec b c \<Longrightarrow> state_steps P rec a c"
  unfolding state_steps_def by (rule rtranclp_trans)

lemma state_steps_step: "state_step P rec a b \<Longrightarrow> state_steps P rec a b"
  by (simp add: state_steps_def)

lemma state_steps_foldM:
  assumes "foldM f xs db = Inr db'" "\<And>x db db'. x \<in> set xs \<Longrightarrow> f db x = Inr db' \<Longrightarrow> state_steps P rec db db'"
  shows "state_steps P rec db db'"
  by (rule foldM_invariant [OF assms(1), of "state_steps P rec db"]) (auto intro: state_steps_trans assms(2))

end
