(* ===== verification/Wasm.thy ===== *)
theory Wasm
  imports State
begin

text \<open>
  Contract modules as the node sees them: \<^verbatim>\<open>ngstate/wasm.go\<close> (loading), \<^verbatim>\<open>introspect.go\<close>, the export lookup of
  \<^verbatim>\<open>service.go\<close>, and the dependency ledger of \<^verbatim>\<open>deps.go\<close>.  The WebAssembly runtime is the third-party
  package wasman: decoding a module, instantiating it and calling an export are parameters
  (\<open>newModule\<close>, \<open>instantiate\<close>, \<open>callExport\<close> of \<open>vprims\<close>).

  A call into a module is a \<open>guest\<close>: a tree of the steps its host can observe.  It burns toll, calls host
  functions with its linear memory at that moment and goes on with the answer and the memory the host
  leaves behind, traps, or ends with results and the new state of the instance.  Between two host calls
  the guest is arbitrary; the toll budget bounds every run, so the tree is well-founded.
\<close>

section \<open>Definitions\<close>

subsection \<open>Modules and guests\<close>

type_synonym u32 = "32 word"

text \<open>The linear memory of an instance; \<open>None\<close> for a module without one.\<close>

type_synonym memory = "bytes option"

datatype valtype = I32 | I64 | F32 | F64

type_synonym functype = "valtype list \<times> valtype list"

record wmodule =
  wmSource :: bytes
  wmTypes :: "functype list"
  wmImports :: "(bytes \<times> byte) list"
  wmFunctions :: "u32 list"
  wmExports :: "(bytes \<times> byte \<times> u32) list"

text \<open>The host functions a module can import, and the exports of linked service contracts.\<close>

datatype (plugins only: code) hostcall =
    Log_debug u32 u32 | Log_error u32 u32 | Log_emit u32 u32 u32 u32
  | Address_get_size | Address_get_host u32 | Address_get_caller u32
  | Coin_get_balance u32 u32 | Coin_transfer u32 u32
  | Kv_get_size u32 u32 | Kv_get u32 u32 u32 | Kv_set u32 u32 u32 u32 | Kv_count u32 u32
  | Kv_key_size_at u32 u32 u32 | Kv_key_at u32 u32 u32 u32 | Kv_del u32 u32
  | Tx_get_hash_size | Tx_get_hash u32 | Tx_get_network | Tx_get_height | Tx_get_timestamp
  | Tx_get_paid u32 | Tx_get_from u32 | Tx_get_to u32 | Tx_get_fee_size | Tx_get_fee u32
  | Tx_get_extra_size | Tx_get_extra u32
  | Env_get_gas | Env_buf_set u32 u32 u32 | Env_buf_size u32 | Env_buf_get u32 u32
  | Crypto_blake3 u32 u32 u32 | Crypto_verify u32 u32 u32 u32 u32 u32
  | Crypto_addr_of u32 u32 u32 u32 | Crypto_random u32
  | Contract_call u32 u32 u32 | Contract_is_active u32 | Contract_get_code_size u32
  | Contract_get_code u32 u32 | Contract_code_hash u32 u32
  | Service bytes bytes "u64 list"

text \<open>Every node carries the state \<open>'i\<close> in which the instance is left if the run stops there.\<close>

datatype (plugins only: size) 'i guest =
    Done "u64 list" 'i
  | Trap error 'i
  | Burn u64 'i "'i guest"
  | Host hostcall 'i memory "u64 list \<times> memory \<Rightarrow> 'i guest"

subsection \<open>Receipts\<close>

record Event =
  evContract :: bytes
  evTopic :: bytes
  evData :: bytes

record TraceCall =
  tcType :: bytes
  tcDepth :: u32
  tcFrom :: bytes
  tcTo :: bytes
  tcMethod :: bytes
  tcValue :: bytes
  tcInput :: bytes
  tcOk :: bool

record ContractRun =
  crContract :: bytes
  crEntry :: bytes
  crOk :: bool
  crError :: bytes
  crGasUsed :: u64
  crEvents :: "Event list"
  crTrace :: "TraceCall list"

record txReceipt =
  rcHeight :: u64
  rcRuns :: "ContractRun list"

subsection \<open>The third-party functions\<close>

text \<open>\<open>tollAdd\<close> is \<^verbatim>\<open>AddToll\<close> of the toll station: the new total and whether it stayed within the budget;
  \<open>defineFunc\<close> tells whether the linker accepts a host function of a type; \<open>recoverErr\<close> is the error a
  recovered host panic is turned into and \<open>errText\<close> the text of an error.\<close>

record 'i vprims = sprims +
  newModule :: "bytes \<Rightarrow> wmodule option"
  instantiate :: "wmodule \<Rightarrow> bytes list \<Rightarrow> 'i guest"
  callExport :: "'i \<Rightarrow> bytes \<Rightarrow> u64 list \<Rightarrow> 'i guest"
  tollAdd :: "u64 \<Rightarrow> u64 \<Rightarrow> u64 \<times> bool"
  defineFunc :: "functype \<Rightarrow> bool"
  recoverErr :: "error \<Rightarrow> error"
  errText :: "error \<Rightarrow> bytes"
  bs58Decode :: "bytes \<Rightarrow> bytes option"
  rlpDeps :: "bytes list \<Rightarrow> bytes"
  rlpDepsDec :: "bytes \<Rightarrow> bytes list option"
  rlpReceipt :: "txReceipt \<Rightarrow> bytes"
  rlpReceiptDec :: "bytes \<Rightarrow> txReceipt option"

definition NewAddressFromBS58 :: "('i, 'p) vprims_scheme \<Rightarrow> bytes \<Rightarrow> error + Address" where
  "NewAddressFromBS58 P s =
     (case bs58Decode P s of
        None \<Rightarrow> Inl (ErrMsg ''base58'')
      | Some raw \<Rightarrow> if length raw \<noteq> AddressSize then Inl ErrAddressLenInvalid
                    else Inr (copy_at 0 raw (zeros AddressSize)))"

subsection \<open>Loading and inspecting modules\<close>

definition wasmMagic :: bytes where
  "wasmMagic = [0x00, 0x61, 0x73, 0x6d]"

text \<open>The module cache only remembers earlier answers of the decoder.\<close>

definition templateFor :: "('i, 'p) vprims_scheme \<Rightarrow> bytes \<Rightarrow> error + wmodule" where
  "templateFor P source =
     (case newModule P source of None \<Rightarrow> Inl (ErrMsg ''wasm'') | Some m \<Rightarrow> Inr m)"

definition loadModule :: "('i, 'p) vprims_scheme \<Rightarrow> bytes \<Rightarrow> error + wmodule" where
  "loadModule P source = bind_result (templateFor P source) Inr"

definition LoadContractWasm :: "('i, 'p) vprims_scheme \<Rightarrow> bytes \<Rightarrow> error + bytes" where
  "LoadContractWasm P source =
     (if length source < 4 \<or> take 4 source \<noteq> wasmMagic then Inl (ErrMsg ''contract is not a wasm binary'')
      else bind_result (templateFor P source) (\<lambda>_. Inr source))"

text \<open>The decoder validates a module, so every own function has an entry in the function section.\<close>

definition exportFuncSig :: "wmodule \<Rightarrow> bytes \<Rightarrow> functype option" where
  "exportFuncSig m exportName =
     (case map_of (wmExports m) exportName of
        None \<Rightarrow> None
      | Some (kind, index) \<Rightarrow>
          if kind \<noteq> 0x00 then None
          else let numImportedFuncs = length (filter (\<lambda>imp. snd imp = 0x00) (wmImports m))
               in if unat index < numImportedFuncs then None
                  else if length (wmFunctions m) \<le> unat index - numImportedFuncs then None
                  else let typeIdx = wmFunctions m ! (unat index - numImportedFuncs)
                       in if unat typeIdx \<ge> length (wmTypes m) then None
                          else Some (wmTypes m ! unat typeIdx))"

definition contractHasExport :: "('i, 'p) vprims_scheme \<Rightarrow> bytes \<Rightarrow> bytes \<Rightarrow> bool" where
  "contractHasExport P source name =
     (if length source = 0 then False
      else case newModule P source of
             None \<Rightarrow> False
           | Some m \<Rightarrow> (case exportFuncSig m name of None \<Rightarrow> False | Some sig \<Rightarrow> length (fst sig) = 0))"

record ContractExport =
  ceName :: bytes
  ceParams :: nat
  ceResults :: nat
  ceCallable :: bool

definition ContractExports :: "('i, 'p) vprims_scheme \<Rightarrow> bytes \<Rightarrow> error + ContractExport list" where
  "ContractExports P source =
     (if length source = 0 then Inr []
      else case newModule P source of
             None \<Rightarrow> Inl (ErrMsg ''wasm'')
           | Some m \<Rightarrow> Inr (map (\<lambda>(name, _).
               case exportFuncSig m name of
                 None \<Rightarrow> \<lparr>ceName = name, ceParams = 0, ceResults = 0, ceCallable = False\<rparr>
               | Some sig \<Rightarrow> \<lparr>ceName = name, ceParams = length (fst sig), ceResults = length (snd sig),
                   ceCallable = (length (fst sig) = 0 \<and> name \<noteq> EntryOnActivate \<and> name \<noteq> EntryOnUpgrade
                     \<and> name \<noteq> EntryOnValidate)\<rparr>)
             (filter (\<lambda>(_, kind, _). kind = 0x00) (wmExports m))))"

subsection \<open>Dependencies\<close>

definition maxDepsPerContract :: nat where "maxDepsPerContract = 32"
definition maxDepChainDepth :: nat where "maxDepChainDepth = 8"

definition contextKeyDeps :: bytes where "contextKeyDeps = str ''_deps''"
definition contextKeyRefs :: bytes where "contextKeyRefs = str ''_refs''"

definition resolveDepAddr :: "('i, 'p) vprims_scheme \<Rightarrow> bytes \<Rightarrow> error + Address" where
  "resolveDepAddr P raw =
     (case NewAddressFromBS58 P raw of Inl _ \<Rightarrow> Inl ErrDepInvalidImport | Inr addr \<Rightarrow> Inr addr)"

definition parseContractDeps :: "('i, 'p) vprims_scheme \<Rightarrow> wmodule \<Rightarrow> error + bytes list" where
  "parseContractDeps P m =
     (let deps = foldl (\<lambda>deps imp.
            case NewAddressFromBS58 P (fst imp) of
              Inl _ \<Rightarrow> deps
            | Inr _ \<Rightarrow> if fst imp \<in> set deps then deps else deps @ [fst imp]) [] (wmImports m)
      in if length deps > maxDepsPerContract then Inl ErrDepLimit else Inr deps)"

definition resolveDepAddrs :: "('i, 'p) vprims_scheme \<Rightarrow> bytes list \<Rightarrow> error + Address list" where
  "resolveDepAddrs P deps =
     foldM (\<lambda>addrs raw. bind_result (resolveDepAddr P raw) (\<lambda>addr.
        Inr (if addr \<in> set addrs then addrs else addrs @ [addr]))) deps []"

definition extractContractDeps :: "('i, 'p) vprims_scheme \<Rightarrow> bytes \<Rightarrow> error + Address list" where
  "extractContractDeps P contractText =
     (if length contractText = 0 then Inr []
      else bind_result (LoadContractWasm P contractText) (\<lambda>bin.
           bind_result (templateFor P bin) (\<lambda>m.
           bind_result (parseContractDeps P m) (\<lambda>deps.
           resolveDepAddrs P deps))))"

definition getContractDeps :: "('i, 'p) vprims_scheme \<Rightarrow> Contract \<Rightarrow> error + Address list" where
  "getContractDeps P acc =
     (let raw = ctx_Get (ctContext acc) contextKeyDeps
      in if length raw = 0 then Inr []
         else case rlpDepsDec P raw of
                None \<Rightarrow> Inl (ErrMsg ''rlp'')
              | Some rawDeps \<Rightarrow>
                  foldM (\<lambda>deps d. if length d \<noteq> AddressSize then Inl ErrDepInvalidImport
                     else Inr (deps @ [copy_at 0 d (zeros AddressSize)])) rawDeps [])"

definition setContractDeps :: "('i, 'p) vprims_scheme \<Rightarrow> Contract \<Rightarrow> Address list \<Rightarrow> Contract" where
  "setContractDeps P acc deps =
     (if length deps = 0 then acc\<lparr>ctContext := ctx_Del (ctContext acc) contextKeyDeps\<rparr>
      else acc\<lparr>ctContext := ctx_Set (ctContext acc) contextKeyDeps (rlpDeps P deps)\<rparr>)"

definition getRefCount :: "Contract \<Rightarrow> u64" where
  "getRefCount acc =
     (let raw = ctx_Get (ctContext acc) contextKeyRefs
      in if length raw \<noteq> 8 then 0 else case UnpackUint64LE raw of None \<Rightarrow> 0 | Some n \<Rightarrow> n)"

definition setRefCount :: "Contract \<Rightarrow> u64 \<Rightarrow> Contract" where
  "setRefCount acc refs =
     (if refs = 0 then acc\<lparr>ctContext := ctx_Del (ctContext acc) contextKeyRefs\<rparr>
      else acc\<lparr>ctContext := ctx_Set (ctContext acc) contextKeyRefs (PackUint64LE refs)\<rparr>)"

definition dep_live :: "('i, 'p) vprims_scheme \<Rightarrow> DB \<Rightarrow> Address \<Rightarrow> Address \<Rightarrow> error + unit" where
  "dep_live P db from depAddr =
     (if depAddr = from then Inl ErrDepSelf
      else bind_result (getContract P db depAddr) (\<lambda>depAcc.
           if \<not> IsActive depAcc \<or> length (ctSource depAcc) = 0 then Inl ErrDepNotActive else Inr ()))"

definition validateDeps :: "('i, 'p) vprims_scheme \<Rightarrow> DB \<Rightarrow> Address \<Rightarrow> bytes \<Rightarrow> error + Address list" where
  "validateDeps P db from source =
     bind_result (extractContractDeps P source) (\<lambda>deps.
     bind_result (foldM (\<lambda>_ depAddr. dep_live P db from depAddr) deps ()) (\<lambda>_. Inr deps))"

definition pinDeps :: "('i, 'p) vprims_scheme \<Rightarrow> u64 option \<Rightarrow> DB \<Rightarrow> Address list \<Rightarrow> error + DB" where
  "pinDeps P cs db deps =
     foldM (\<lambda>db depAddr. bind_result (getContract P db depAddr) (\<lambda>depAcc.
        setContract P cs db (setRefCount depAcc (getRefCount depAcc + 1)))) deps db"

definition releaseContractDeps :: "('i, 'p) vprims_scheme \<Rightarrow> u64 option \<Rightarrow> DB \<Rightarrow> Contract \<Rightarrow> error + DB" where
  "releaseContractDeps P cs db slot =
     bind_result (getContractDeps P slot) (\<lambda>deps.
       foldM (\<lambda>db depAddr. bind_result (getContract P db depAddr) (\<lambda>depAcc.
          let refs = getRefCount depAcc
          in if refs > 0 then setContract P cs db (setRefCount depAcc (refs - 1)) else Inr db)) deps db)"

subsection \<open>The receipt store\<close>

definition maxRunErrorLen :: nat where "maxRunErrorLen = 512"

definition receiptRetention :: u64 where "receiptRetention = 16 * of_nat BlockCheckRound"

definition appendContractRun ::
  "('i, 'p) vprims_scheme \<Rightarrow> DB \<Rightarrow> bytes \<Rightarrow> u64 \<Rightarrow> ContractRun \<Rightarrow> error + DB" where
  "appendContractRun P db txHash height run =
     bind_result (case bget (dbReceipt db) txHash of
          None \<Rightarrow> Inr \<lparr>rcHeight = height, rcRuns = []\<rparr>
        | Some raw \<Rightarrow> (case rlpReceiptDec P raw of None \<Rightarrow> Inl (ErrMsg ''broken receipt record'') | Some r \<Rightarrow> Inr r))
       (\<lambda>record.
          let run = (if length (crError run) > maxRunErrorLen then run\<lparr>crError := take maxRunErrorLen (crError run)\<rparr>
                     else run);
              record = record\<lparr>rcHeight := height, rcRuns := rcRuns record @ [run]\<rparr>
          in Inr (db\<lparr>dbReceipt := bput (dbReceipt db) txHash (rlpReceipt P record)\<rparr>))"

text \<open>The cursor loops with \<^verbatim>\<open>c.Delete()\<close> keep the entries that do not meet the condition.\<close>

definition deleteReceiptsAboveTxn :: "('i, 'p) vprims_scheme \<Rightarrow> DB \<Rightarrow> u64 \<Rightarrow> DB" where
  "deleteReceiptsAboveTxn P db height =
     db\<lparr>dbReceipt := filter (\<lambda>(k, raw). case rlpReceiptDec P raw of
          None \<Rightarrow> True | Some record \<Rightarrow> \<not> rcHeight record > height) (dbReceipt db)\<rparr>"

definition ReceiptFloor :: "u64 \<Rightarrow> u64" where
  "ReceiptFloor tip = (if tip > receiptRetention then tip - receiptRetention else 0)"

definition PruneReceiptsTxn :: "('i, 'p) vprims_scheme \<Rightarrow> DB \<Rightarrow> u64 \<Rightarrow> DB" where
  "PruneReceiptsTxn P db tipHeight =
     (if tipHeight \<le> receiptRetention then db
      else let floor = tipHeight - receiptRetention
           in db\<lparr>dbReceipt := filter (\<lambda>(k, raw). case rlpReceiptDec P raw of
                None \<Rightarrow> False | Some record \<Rightarrow> \<not> rcHeight record < floor) (dbReceipt db)\<rparr>)"

definition GetTxRuns :: "('i, 'p) vprims_scheme \<Rightarrow> DB \<Rightarrow> bytes \<Rightarrow> error + ContractRun list" where
  "GetTxRuns P db txHash =
     (case bget (dbReceipt db) txHash of
        None \<Rightarrow> Inr []
      | Some raw \<Rightarrow> (case rlpReceiptDec P raw of
                       None \<Rightarrow> Inl (ErrMsg ''broken receipt record'') | Some record \<Rightarrow> Inr (rcRuns record)))"

end
