(* ===== verification/Host.thy ===== *)
theory Host
  imports Wasm
begin

text \<open>
  The host side of a contract call: the journal (\<^verbatim>\<open>ngstate/journal.go\<close>), the storage deposit (\<^verbatim>\<open>rent.go\<close>), the
  memory helpers (\<^verbatim>\<open>utils.go\<close>) and the host functions of \<^verbatim>\<open>imports.go\<close>, \<^verbatim>\<open>imports_address.go\<close>,
  \<^verbatim>\<open>imports_coin.go\<close>, \<^verbatim>\<open>imports_contract.go\<close>, \<^verbatim>\<open>imports_crypto.go\<close>, \<^verbatim>\<open>imports_kv.go\<close> and \<^verbatim>\<open>imports_tx.go\<close>.
  A host function is an action on the \<open>VM\<close> record that answers with results and the instance's memory,
  or fails; a Go panic inside a host function is a failure.  The database is only read: writes go to the
  journal.
\<close>

section \<open>Definitions\<close>

subsection \<open>The journal\<close>

record vmJournal =
  jAccounts :: "(Address \<times> Contract) list"
  jBalances :: "(Address \<times> int) list"

definition newVMJournal :: "Contract \<Rightarrow> vmJournal" where
  "newVMJournal self =
     \<lparr>jAccounts = [(ctOwner self, self\<lparr>ctContext := ctx_Clone (ctContext self)\<rparr>)], jBalances = []\<rparr>"

definition contractOf :: "'p sprims_scheme \<Rightarrow> DB \<Rightarrow> vmJournal \<Rightarrow> Address \<Rightarrow> error + Contract \<times> vmJournal" where
  "contractOf P db j addr =
     (case map_of (jAccounts j) addr of
        Some acc \<Rightarrow> Inr (acc, j)
      | None \<Rightarrow> bind_result (getContract P db addr) (\<lambda>loaded.
          let copied = loaded\<lparr>ctContext := ctx_Clone (ctContext loaded)\<rparr>
          in Inr (copied, j\<lparr>jAccounts := AList.update addr copied (jAccounts j)\<rparr>)))"

definition contextOf :: "'p sprims_scheme \<Rightarrow> DB \<Rightarrow> vmJournal \<Rightarrow> Address \<Rightarrow> error + ContractContext \<times> vmJournal" where
  "contextOf P db j addr = bind_result (contractOf P db j addr) (\<lambda>(acc, j). Inr (ctContext acc, j))"

definition balanceOf :: "DB \<Rightarrow> vmJournal \<Rightarrow> Address \<Rightarrow> int" where
  "balanceOf db j addr =
     (case map_of (jBalances j) addr of Some pending \<Rightarrow> pending | None \<Rightarrow> getBalance db addr)"

definition journal_transfer :: "DB \<Rightarrow> vmJournal \<Rightarrow> Address \<Rightarrow> Address \<Rightarrow> int \<Rightarrow> error + vmJournal" where
  "journal_transfer db j from to v =
     (if v < 0 then Inl ErrTxValueInvalid
      else let fromBalance = balanceOf db j from
           in if fromBalance < v then Inl ErrTxrBalanceInsufficient
              else let j = j\<lparr>jBalances := AList.update from (fromBalance - v) (jBalances j)\<rparr>
                   in Inr (j\<lparr>jBalances := AList.update to (balanceOf db j to + v) (jBalances j)\<rparr>))"

definition flush :: "'p sprims_scheme \<Rightarrow> u64 option \<Rightarrow> DB \<Rightarrow> vmJournal \<Rightarrow> error + DB" where
  "flush P rec db j =
     bind_result (foldM (\<lambda>db (addr, balance). Inr (setBalance P rec db addr balance)) (jBalances j) db) (\<lambda>db.
       foldM (\<lambda>db (addr, acc). setContract P rec db acc) (jAccounts j) db)"

subsection \<open>The machine\<close>

text \<open>\<open>vmModules\<close> are the service modules defined on the linker: the address, the instance and the linkable
  exports of each, by import name.\<close>

record 'i VM =
  vmCaller :: FullTx
  vmSelf :: Contract
  vmBlockTime :: u64
  vmCs :: "u64 option"
  vmJ :: vmJournal
  vmModule :: wmodule
  vmModules :: "(bytes \<times> Address \<times> 'i \<times> (bytes \<times> functype) list) list"
  vmFrames :: "Address list"
  vmCallArgs :: bytes
  vmEvents :: "Event list"
  vmTrace :: "TraceCall list"
  vmToll :: u64
  vmTollPreburn :: u64
  vmBufs :: "bytes list"

type_synonym ('i, 'a) act = "'i VM \<Rightarrow> 'i VM \<times> (error + 'a)"

definition act_ret :: "'a \<Rightarrow> ('i, 'a) act" where
  "act_ret a vm = (vm, Inr a)"

definition act_raise :: "error \<Rightarrow> ('i, 'a) act" where
  "act_raise e vm = (vm, Inl e)"

definition act_bind :: "('i, 'a) act \<Rightarrow> ('a \<Rightarrow> ('i, 'b) act) \<Rightarrow> ('i, 'b) act" where
  "act_bind m f vm = (case m vm of (vm, Inl e) \<Rightarrow> (vm, Inl e) | (vm, Inr a) \<Rightarrow> f a vm)"

definition act_get :: "('i VM \<Rightarrow> ('i, 'a) act) \<Rightarrow> ('i, 'a) act" where
  "act_get f vm = f vm vm"

definition act_upd :: "('i VM \<Rightarrow> 'i VM) \<Rightarrow> ('i, unit) act" where
  "act_upd f vm = (f vm, Inr ())"

text \<open>The answer of a host function: one number and the instance's memory.\<close>

definition ret32 :: "u32 \<Rightarrow> memory \<Rightarrow> ('i, u64 list \<times> memory) act" where
  "ret32 r mem = act_ret ([ucast r], mem)"

definition vmMaxToll :: u64 where "vmMaxToll = 2 ^ 24"
definition vmBufSlots :: nat where "vmBufSlots = 8"
definition vmBufMaxLen :: nat where "vmBufMaxLen = 4096"
definition gasKVSetBase :: u64 where "gasKVSetBase = 1000"
definition gasKVSetPerByte :: u64 where "gasKVSetPerByte = 10"
definition gasKVDel :: u64 where "gasKVDel = 500"
definition gasKVRead :: u64 where "gasKVRead = 100"
definition gasCoinTransfer :: u64 where "gasCoinTransfer = 2000"
definition gasEventBase :: u64 where "gasEventBase = 500"
definition gasEventPerByte :: u64 where "gasEventPerByte = 5"
definition gasServiceCall :: u64 where "gasServiceCall = 2000"
definition gasHashBase :: u64 where "gasHashBase = 100"
definition gasHashPerByte :: u64 where "gasHashPerByte = 1"
definition gasSigVerify :: u64 where "gasSigVerify = 3000"
definition gasRandom :: u64 where "gasRandom = 200"
definition maxTraceCalls :: nat where "maxTraceCalls = 1024"
definition maxEventsPerRun :: nat where "maxEventsPerRun = 128"
definition maxEventTopicLen :: u32 where "maxEventTopicLen = 64"
definition maxEventDataLen :: u32 where "maxEventDataLen = 4096"
definition EventTopicPrefix :: bytes where "EventTopicPrefix = str ''ng.''"
definition EventTopicTransfer :: bytes where "EventTopicTransfer = EventTopicPrefix @ str ''transfer''"

definition charge :: "('i, 'p) vprims_scheme \<Rightarrow> u64 \<Rightarrow> ('i, unit) act" where
  "charge P cost vm =
     (case tollAdd P (vmToll vm) cost of
        (toll, ok) \<Rightarrow> (vm\<lparr>vmToll := toll\<rparr>, if ok then Inr () else Inl ErrTollOverflow))"

definition currentAddress :: "'i VM \<Rightarrow> Address" where
  "currentAddress vm = last (vmFrames vm)"

definition callerAddress :: "'i VM \<Rightarrow> Address" where
  "callerAddress vm =
     (if length (vmFrames vm) < 2 then zeros AddressSize else vmFrames vm ! (length (vmFrames vm) - 2))"

definition onStack :: "'i VM \<Rightarrow> Address \<Rightarrow> bool" where
  "onStack vm addr = (addr \<in> set (vmFrames vm))"

definition traceStart :: "TraceCall \<Rightarrow> ('i, nat option) act" where
  "traceStart c vm =
     (if length (vmTrace vm) \<ge> maxTraceCalls then (vm, Inr None)
      else let c = c\<lparr>tcDepth := of_nat (length (vmFrames vm) - 1)\<rparr>
           in (vm\<lparr>vmTrace := vmTrace vm @ [c]\<rparr>, Inr (Some (length (vmTrace vm)))))"

definition traceOk :: "nat option \<Rightarrow> ('i, unit) act" where
  "traceOk idx vm =
     (case idx of
        None \<Rightarrow> (vm, Inr ())
      | Some i \<Rightarrow> (vm\<lparr>vmTrace := (vmTrace vm)[i := (vmTrace vm ! i)\<lparr>tcOk := True\<rparr>]\<rparr>, Inr ()))"

subsection \<open>Memory\<close>

definition readMem :: "memory \<Rightarrow> u32 \<Rightarrow> u32 \<Rightarrow> error + bytes" where
  "readMem mem ptr sz =
     (case mem of
        None \<Rightarrow> Inl ErrOutOfMem
      | Some m \<Rightarrow> if unat ptr + unat sz > length m then Inl ErrOutOfMem
                  else Inr (take (unat sz) (drop (unat ptr) m)))"

definition cp :: "memory \<Rightarrow> u32 \<Rightarrow> bytes \<Rightarrow> error + u32 \<times> memory" where
  "cp mem ptr data =
     (case mem of
        None \<Rightarrow> Inl ErrOutOfMem
      | Some m \<Rightarrow> if unat ptr + length data > length m then Inl ErrOutOfMem
                  else Inr (of_nat (length data), Some (copy_at (unat ptr) data m)))"

definition readAddr :: "memory \<Rightarrow> u32 \<Rightarrow> error + Address" where
  "readAddr mem ptr =
     bind_result (readMem mem ptr (of_nat AddressSize)) (\<lambda>raw. Inr (copy_at 0 raw (zeros AddressSize)))"

definition readBigLE :: "memory \<Rightarrow> u32 \<Rightarrow> error + int" where
  "readBigLE mem ptr = bind_result (readMem mem ptr 32) (\<lambda>raw. Inr (SetBytes (rev raw)))"

definition bigToLE32 :: "int \<Rightarrow> bytes" where
  "bigToLE32 v = take 32 (rev (bigBytes v)) @ zeros (32 - length (bigBytes v))"

definition writeBigLE :: "memory \<Rightarrow> u32 \<Rightarrow> int \<Rightarrow> error + u32 \<times> memory" where
  "writeBigLE mem ptr v =
     (let be = bigBytes v
      in if length be > 32 then Inl (ErrMsg ''amount exceeds 256 bits'')
         else cp mem ptr (rev be @ zeros (32 - length be)))"

text \<open>\<^verbatim>\<open>if err != nil { vm.logger.Error(err); return 0 }\<close>.\<close>

definition or_zero :: "error + 'a \<Rightarrow> memory \<Rightarrow> ('a \<Rightarrow> ('i, u64 list \<times> memory) act) \<Rightarrow> ('i, u64 list \<times> memory) act" where
  "or_zero r mem f = (case r of Inl _ \<Rightarrow> ret32 0 mem | Inr x \<Rightarrow> f x)"

definition ret_cp :: "error + u32 \<times> memory \<Rightarrow> memory \<Rightarrow> ('i, u64 list \<times> memory) act" where
  "ret_cp r mem = or_zero r mem (\<lambda>(l, mem). ret32 l mem)"

subsection \<open>Contexts and deposits\<close>

definition isReservedKey :: "bytes \<Rightarrow> bool" where
  "isReservedKey key = (has_prefix key (str ''_'') \<and> length key \<noteq> AddressSize)"

definition vmContext :: "'p sprims_scheme \<Rightarrow> DB \<Rightarrow> ('i, ContractContext) act" where
  "vmContext P db vm =
     (case contextOf P db (vmJ vm) (currentAddress vm) of
        Inl e \<Rightarrow> (vm, Inl e) | Inr (ctx, j) \<Rightarrow> (vm\<lparr>vmJ := j\<rparr>, Inr ctx))"

text \<open>A write through the context pointer of the executing address's working copy.\<close>

definition vmContext_write :: "(ContractContext \<Rightarrow> ContractContext) \<Rightarrow> 'i VM \<Rightarrow> 'i VM" where
  "vmContext_write f vm =
     (case map_of (jAccounts (vmJ vm)) (currentAddress vm) of
        None \<Rightarrow> vm
      | Some acc \<Rightarrow> vm\<lparr>vmJ := (vmJ vm)\<lparr>jAccounts :=
          AList.update (currentAddress vm) (acc\<lparr>ctContext := f (ctContext acc)\<rparr>) (jAccounts (vmJ vm))\<rparr>\<rparr>)"

definition contextKeyRent :: bytes where "contextKeyRent = str ''_rent''"

definition lockedDeposit :: "ContractContext \<Rightarrow> int" where
  "lockedDeposit ctx =
     (let raw = ctx_Get ctx contextKeyRent in if length raw = 0 then 0 else SetBytes raw)"

definition setLockedDeposit :: "ContractContext \<Rightarrow> int \<Rightarrow> ContractContext" where
  "setLockedDeposit ctx amount =
     (if amount \<le> 0 then ctx_Del ctx contextKeyRent else ctx_Set ctx contextKeyRent (bigBytes amount))"

definition depositFor :: "int \<Rightarrow> int" where
  "depositFor n = DepositPerByte * n"

definition lockDeposit :: "'p sprims_scheme \<Rightarrow> DB \<Rightarrow> int \<Rightarrow> ('i, unit) act" where
  "lockDeposit P db amount =
     (if amount \<le> 0 then act_ret ()
      else act_get (\<lambda>vm.
        case journal_transfer db (vmJ vm) (currentAddress vm) storageDepositEscrowAddr amount of
          Inl e \<Rightarrow> act_raise ErrStorageDeposit
        | Inr j \<Rightarrow> act_bind (act_upd (\<lambda>vm. vm\<lparr>vmJ := j\<rparr>)) (\<lambda>_.
            act_bind (vmContext P db) (\<lambda>ctx.
            act_upd (vmContext_write (\<lambda>ctx. setLockedDeposit ctx (lockedDeposit ctx + amount)))))))"

definition refundDeposit :: "'p sprims_scheme \<Rightarrow> DB \<Rightarrow> int \<Rightarrow> ('i, unit) act" where
  "refundDeposit P db amount =
     (if amount \<le> 0 then act_ret ()
      else act_bind (vmContext P db) (\<lambda>ctx. act_get (\<lambda>vm.
        let locked = lockedDeposit ctx;
            pay = (if locked < amount then locked else amount);
            escrowBal = balanceOf db (vmJ vm) storageDepositEscrowAddr;
            pay = (if escrowBal < pay then escrowBal else pay)
        in if pay \<le> 0 then act_ret ()
           else case journal_transfer db (vmJ vm) storageDepositEscrowAddr (currentAddress vm) pay of
                  Inl e \<Rightarrow> act_ret ()
                | Inr j \<Rightarrow> act_upd (\<lambda>vm. vmContext_write (\<lambda>ctx. setLockedDeposit ctx (locked - pay)) (vm\<lparr>vmJ := j\<rparr>)))))"

subsection \<open>Host functions: log and env\<close>

definition log_debug :: "u32 \<Rightarrow> u32 \<Rightarrow> memory \<Rightarrow> ('i, u64 list \<times> memory) act" where
  "log_debug ptr sz mem = act_ret ([], mem)"

definition log_error :: "u32 \<Rightarrow> u32 \<Rightarrow> memory \<Rightarrow> ('i, u64 list \<times> memory) act" where
  "log_error ptr sz mem = act_ret ([], mem)"

definition log_emit ::
  "('i, 'p) vprims_scheme \<Rightarrow> u32 \<Rightarrow> u32 \<Rightarrow> u32 \<Rightarrow> u32 \<Rightarrow> memory \<Rightarrow> ('i, u64 list \<times> memory) act" where
  "log_emit P topicPtr topicLen dataPtr dataLen mem =
     act_bind (charge P (gasEventBase + gasEventPerByte * ucast (topicLen + dataLen))) (\<lambda>_. act_get (\<lambda>vm.
       if length (vmEvents vm) \<ge> maxEventsPerRun \<or> topicLen > maxEventTopicLen \<or> dataLen > maxEventDataLen
       then ret32 0 mem
       else or_zero (readMem mem topicPtr topicLen) mem (\<lambda>topic.
            if has_prefix topic EventTopicPrefix then ret32 0 mem
            else or_zero (readMem mem dataPtr dataLen) mem (\<lambda>data.
                 act_bind (act_upd (\<lambda>vm. vm\<lparr>vmEvents := vmEvents vm @
                   [\<lparr>evContract = currentAddress vm, evTopic = topic, evData = data\<rparr>]\<rparr>)) (\<lambda>_. ret32 1 mem)))))"

definition env_get_gas :: "memory \<Rightarrow> ('i, u64 list \<times> memory) act" where
  "env_get_gas mem = act_get (\<lambda>vm.
     let spent = vmToll vm in act_ret ([if spent \<ge> vmMaxToll then 0 else vmMaxToll - spent], mem))"

definition env_buf_set :: "u32 \<Rightarrow> u32 \<Rightarrow> u32 \<Rightarrow> memory \<Rightarrow> ('i, u64 list \<times> memory) act" where
  "env_buf_set slot ptr sz mem =
     (if unat slot \<ge> vmBufSlots \<or> unat sz > vmBufMaxLen then ret32 0 mem
      else or_zero (readMem mem ptr sz) mem (\<lambda>data.
           act_bind (act_upd (\<lambda>vm. vm\<lparr>vmBufs := (vmBufs vm)[unat slot := data]\<rparr>)) (\<lambda>_. ret32 1 mem)))"

definition env_buf_size :: "u32 \<Rightarrow> memory \<Rightarrow> ('i, u64 list \<times> memory) act" where
  "env_buf_size slot mem =
     (if unat slot \<ge> vmBufSlots then ret32 0 mem
      else act_get (\<lambda>vm. ret32 (of_nat (length (vmBufs vm ! unat slot))) mem))"

definition env_buf_get :: "u32 \<Rightarrow> u32 \<Rightarrow> memory \<Rightarrow> ('i, u64 list \<times> memory) act" where
  "env_buf_get slot ptr mem =
     (if unat slot \<ge> vmBufSlots then ret32 0 mem
      else act_get (\<lambda>vm. ret_cp (cp mem ptr (vmBufs vm ! unat slot)) mem))"

subsection \<open>Host functions: address and coin\<close>

definition address_get_size :: "memory \<Rightarrow> ('i, u64 list \<times> memory) act" where
  "address_get_size mem = ret32 (of_nat AddressSize) mem"

definition address_get_host :: "u32 \<Rightarrow> memory \<Rightarrow> ('i, u64 list \<times> memory) act" where
  "address_get_host ptr mem = act_get (\<lambda>vm. ret_cp (cp mem ptr (currentAddress vm)) mem)"

definition address_get_caller :: "u32 \<Rightarrow> memory \<Rightarrow> ('i, u64 list \<times> memory) act" where
  "address_get_caller ptr mem = act_get (\<lambda>vm. ret_cp (cp mem ptr (callerAddress vm)) mem)"

definition coin_get_balance ::
  "('i, 'p) vprims_scheme \<Rightarrow> DB \<Rightarrow> u32 \<Rightarrow> u32 \<Rightarrow> memory \<Rightarrow> ('i, u64 list \<times> memory) act" where
  "coin_get_balance P db addrPtr ptr mem =
     act_bind (charge P gasKVRead) (\<lambda>_.
       or_zero (readAddr mem addrPtr) mem (\<lambda>addr.
       act_get (\<lambda>vm. ret_cp (writeBigLE mem ptr (balanceOf db (vmJ vm) addr)) mem)))"

definition coin_transfer ::
  "('i, 'p) vprims_scheme \<Rightarrow> DB \<Rightarrow> u32 \<Rightarrow> u32 \<Rightarrow> memory \<Rightarrow> ('i, u64 list \<times> memory) act" where
  "coin_transfer P db toPtr valuePtr mem =
     act_bind (charge P gasCoinTransfer) (\<lambda>_.
       or_zero (readAddr mem toPtr) mem (\<lambda>to.
       or_zero (readBigLE mem valuePtr) mem (\<lambda>v. act_get (\<lambda>vm.
       let from = currentAddress vm
       in or_zero (journal_transfer db (vmJ vm) from to v) mem (\<lambda>j.
          act_bind (act_upd (\<lambda>vm. vm\<lparr>vmJ := j\<rparr>)) (\<lambda>_.
          act_bind (traceStart \<lparr>tcType = str ''transfer'', tcDepth = 0, tcFrom = from, tcTo = to, tcMethod = [],
            tcValue = bigToLE32 v, tcInput = [], tcOk = False\<rparr>) (\<lambda>idx.
          act_bind (traceOk idx) (\<lambda>_.
          act_bind (act_upd (\<lambda>vm. if length (vmEvents vm) < maxEventsPerRun
             then vm\<lparr>vmEvents := vmEvents vm @ [\<lparr>evContract = from, evTopic = EventTopicTransfer,
                    evData = copy_at 32 (bigToLE32 v) (copy_at 0 to (zeros 64))\<rparr>]\<rparr> else vm)) (\<lambda>_.
          ret32 1 mem)))))))))"

subsection \<open>Host functions: kv\<close>

definition kv_get_size ::
  "('i, 'p) vprims_scheme \<Rightarrow> DB \<Rightarrow> u32 \<Rightarrow> u32 \<Rightarrow> memory \<Rightarrow> ('i, u64 list \<times> memory) act" where
  "kv_get_size P db keyPtr keyLen mem =
     act_bind (charge P gasKVRead) (\<lambda>_.
       or_zero (readMem mem keyPtr keyLen) mem (\<lambda>key.
       if isReservedKey key then ret32 0 mem
       else act_bind (vmContext P db) (\<lambda>ctx. ret32 (of_nat (length (ctx_Get ctx key))) mem)))"

definition kv_get ::
  "('i, 'p) vprims_scheme \<Rightarrow> DB \<Rightarrow> u32 \<Rightarrow> u32 \<Rightarrow> u32 \<Rightarrow> memory \<Rightarrow> ('i, u64 list \<times> memory) act" where
  "kv_get P db keyPtr keyLen valPtr mem =
     act_bind (charge P gasKVRead) (\<lambda>_.
       or_zero (readMem mem keyPtr keyLen) mem (\<lambda>key.
       if isReservedKey key then ret32 0 mem
       else act_bind (vmContext P db) (\<lambda>ctx. ret_cp (cp mem valPtr (ctx_Get ctx key)) mem)))"

definition rent_active :: "'i VM \<Rightarrow> bool" where
  "rent_active vm = IsForkActive (txNetwork (vmCaller vm)) ForkStateRent (txHeight (vmCaller vm))"

definition kv_set_rent :: "'p sprims_scheme \<Rightarrow> DB \<Rightarrow> bytes \<Rightarrow> bytes \<Rightarrow> ('i, unit) act" where
  "kv_set_rent P db key val = act_get (\<lambda>vm.
     if \<not> rent_active vm then act_ret ()
     else act_bind (vmContext P db) (\<lambda>ctx.
       let old = (if ctx_Has ctx key then int (length key) + int (length (ctx_Get ctx key)) else 0);
           newSize = int (length key) + int (length val);
           delta = newSize - old
       in if delta > 0 then lockDeposit P db (depositFor delta)
          else if delta < 0 then refundDeposit P db (depositFor (- delta))
          else act_ret ()))"

definition kv_set ::
  "('i, 'p) vprims_scheme \<Rightarrow> DB \<Rightarrow> u32 \<Rightarrow> u32 \<Rightarrow> u32 \<Rightarrow> u32 \<Rightarrow> memory \<Rightarrow> ('i, u64 list \<times> memory) act" where
  "kv_set P db keyPtr keyLen valPtr valLen mem =
     act_bind (charge P (gasKVSetBase + gasKVSetPerByte * ucast (keyLen + valLen))) (\<lambda>_.
       or_zero (readMem mem keyPtr keyLen) mem (\<lambda>key.
       if isReservedKey key then act_raise (ErrMsg ''kv.set on reserved key'')
       else or_zero (readMem mem valPtr valLen) mem (\<lambda>val.
         act_bind (kv_set_rent P db key val) (\<lambda>_.
         act_bind (vmContext P db) (\<lambda>_.
         act_bind (act_upd (vmContext_write (\<lambda>ctx. ctx_Set ctx key val))) (\<lambda>_. ret32 1 mem))))))"

definition matchingKeys :: "ContractContext \<Rightarrow> bytes \<Rightarrow> bytes list" where
  "matchingKeys ctx prefix = filter (\<lambda>k. \<not> isReservedKey k \<and> has_prefix k prefix) (ccKeys ctx)"

definition kv_count ::
  "('i, 'p) vprims_scheme \<Rightarrow> DB \<Rightarrow> u32 \<Rightarrow> u32 \<Rightarrow> memory \<Rightarrow> ('i, u64 list \<times> memory) act" where
  "kv_count P db prefixPtr prefixLen mem =
     act_bind (charge P gasKVRead) (\<lambda>_.
       or_zero (readMem mem prefixPtr prefixLen) mem (\<lambda>prefix.
       act_bind (vmContext P db) (\<lambda>ctx. ret32 (of_nat (length (matchingKeys ctx prefix))) mem)))"

definition kv_key_size_at ::
  "('i, 'p) vprims_scheme \<Rightarrow> DB \<Rightarrow> u32 \<Rightarrow> u32 \<Rightarrow> u32 \<Rightarrow> memory \<Rightarrow> ('i, u64 list \<times> memory) act" where
  "kv_key_size_at P db prefixPtr prefixLen index mem =
     act_bind (charge P gasKVRead) (\<lambda>_.
       or_zero (readMem mem prefixPtr prefixLen) mem (\<lambda>prefix.
       act_bind (vmContext P db) (\<lambda>ctx.
         let keys = matchingKeys ctx prefix
         in if index \<ge> of_nat (length keys) then ret32 0 mem
            else ret32 (of_nat (length (keys ! unat index))) mem)))"

definition kv_key_at ::
  "('i, 'p) vprims_scheme \<Rightarrow> DB \<Rightarrow> u32 \<Rightarrow> u32 \<Rightarrow> u32 \<Rightarrow> u32 \<Rightarrow> memory \<Rightarrow> ('i, u64 list \<times> memory) act" where
  "kv_key_at P db prefixPtr prefixLen index outPtr mem =
     act_bind (charge P gasKVRead) (\<lambda>_.
       or_zero (readMem mem prefixPtr prefixLen) mem (\<lambda>prefix.
       act_bind (vmContext P db) (\<lambda>ctx.
         let keys = matchingKeys ctx prefix
         in if index \<ge> of_nat (length keys) then ret32 0 mem
            else ret_cp (cp mem outPtr (keys ! unat index)) mem)))"

definition kv_del_rent :: "'p sprims_scheme \<Rightarrow> DB \<Rightarrow> bytes \<Rightarrow> ('i, unit) act" where
  "kv_del_rent P db key = act_get (\<lambda>vm.
     if \<not> rent_active vm then act_ret ()
     else act_bind (vmContext P db) (\<lambda>ctx.
       if ctx_Has ctx key
       then refundDeposit P db (depositFor (int (length key) + int (length (ctx_Get ctx key))))
       else act_ret ()))"

definition kv_del ::
  "('i, 'p) vprims_scheme \<Rightarrow> DB \<Rightarrow> u32 \<Rightarrow> u32 \<Rightarrow> memory \<Rightarrow> ('i, u64 list \<times> memory) act" where
  "kv_del P db keyPtr keyLen mem =
     act_bind (charge P gasKVDel) (\<lambda>_.
       or_zero (readMem mem keyPtr keyLen) mem (\<lambda>key.
       if isReservedKey key then act_raise (ErrMsg ''kv.del on reserved key'')
       else act_bind (kv_del_rent P db key) (\<lambda>_.
            act_bind (vmContext P db) (\<lambda>_.
            act_bind (act_upd (vmContext_write (\<lambda>ctx. ctx_Del ctx key))) (\<lambda>_. ret32 1 mem)))))"

subsection \<open>Host functions: tx\<close>

definition tx_get_hash_size :: "memory \<Rightarrow> ('i, u64 list \<times> memory) act" where
  "tx_get_hash_size mem = ret32 (of_nat HashSize) mem"

definition tx_get_hash :: "('i, 'p) vprims_scheme \<Rightarrow> u32 \<Rightarrow> memory \<Rightarrow> ('i, u64 list \<times> memory) act" where
  "tx_get_hash P ptr mem = act_get (\<lambda>vm. ret_cp (cp mem ptr (FullTx_GetHash P (vmCaller vm))) mem)"

definition tx_get_network :: "memory \<Rightarrow> ('i, u64 list \<times> memory) act" where
  "tx_get_network mem = act_get (\<lambda>vm. ret32 (ucast (txNetwork (vmCaller vm))) mem)"

definition tx_get_height :: "memory \<Rightarrow> ('i, u64 list \<times> memory) act" where
  "tx_get_height mem = act_get (\<lambda>vm. act_ret ([txHeight (vmCaller vm)], mem))"

definition tx_get_timestamp :: "memory \<Rightarrow> ('i, u64 list \<times> memory) act" where
  "tx_get_timestamp mem = act_get (\<lambda>vm. act_ret ([vmBlockTime vm div 1000], mem))"

definition tx_get_paid :: "u32 \<Rightarrow> memory \<Rightarrow> ('i, u64 list \<times> memory) act" where
  "tx_get_paid ptr mem = act_get (\<lambda>vm.
     let paid = (if txTo (vmCaller vm) = currentAddress vm then txValue (vmCaller vm) else 0)
     in ret_cp (writeBigLE mem ptr paid) mem)"

definition tx_get_from :: "('i, 'p) vprims_scheme \<Rightarrow> u32 \<Rightarrow> memory \<Rightarrow> ('i, u64 list \<times> memory) act" where
  "tx_get_from P ptr mem = act_get (\<lambda>vm.
     or_zero (FullTx_From P (vmCaller vm)) mem (\<lambda>from. ret_cp (cp mem ptr from) mem))"

definition tx_get_to :: "u32 \<Rightarrow> memory \<Rightarrow> ('i, u64 list \<times> memory) act" where
  "tx_get_to ptr mem = act_get (\<lambda>vm. ret_cp (cp mem ptr (txTo (vmCaller vm))) mem)"

definition tx_get_fee_size :: "memory \<Rightarrow> ('i, u64 list \<times> memory) act" where
  "tx_get_fee_size mem = act_get (\<lambda>vm. ret32 (of_nat (length (bigBytes (txFee (vmCaller vm))))) mem)"

definition tx_get_fee :: "u32 \<Rightarrow> memory \<Rightarrow> ('i, u64 list \<times> memory) act" where
  "tx_get_fee ptr mem = act_get (\<lambda>vm. ret_cp (cp mem ptr (bigBytes (txFee (vmCaller vm)))) mem)"

definition tx_get_extra_size :: "memory \<Rightarrow> ('i, u64 list \<times> memory) act" where
  "tx_get_extra_size mem = act_get (\<lambda>vm. ret32 (of_nat (length (vmCallArgs vm))) mem)"

definition tx_get_extra :: "u32 \<Rightarrow> memory \<Rightarrow> ('i, u64 list \<times> memory) act" where
  "tx_get_extra ptr mem = act_get (\<lambda>vm. ret_cp (cp mem ptr (vmCallArgs vm)) mem)"

subsection \<open>Host functions: crypto\<close>

definition crypto_blake3 ::
  "('i, 'p) vprims_scheme \<Rightarrow> u32 \<Rightarrow> u32 \<Rightarrow> u32 \<Rightarrow> memory \<Rightarrow> ('i, u64 list \<times> memory) act" where
  "crypto_blake3 P ptr sz out mem =
     act_bind (charge P (gasHashBase + gasHashPerByte * ucast sz)) (\<lambda>_.
       or_zero (readMem mem ptr sz) mem (\<lambda>data. ret_cp (cp mem out (Hash256 P data)) mem))"

definition crypto_verify ::
  "('i, 'p) vprims_scheme \<Rightarrow> u32 \<Rightarrow> u32 \<Rightarrow> u32 \<Rightarrow> u32 \<Rightarrow> u32 \<Rightarrow> u32 \<Rightarrow> memory \<Rightarrow> ('i, u64 list \<times> memory) act" where
  "crypto_verify P scheme pkPtr pkLen hashPtr sigPtr sigLen mem =
     act_bind (charge P gasSigVerify) (\<lambda>_.
       or_zero (readMem mem pkPtr pkLen) mem (\<lambda>pubKey.
       or_zero (readMem mem hashPtr 32) mem (\<lambda>hash.
       or_zero (readMem mem sigPtr sigLen) mem (\<lambda>sig.
       ret32 (if VerifyContractSig P (ucast scheme) pubKey hash sig then 1 else 0) mem))))"

definition crypto_addr_of ::
  "('i, 'p) vprims_scheme \<Rightarrow> u32 \<Rightarrow> u32 \<Rightarrow> u32 \<Rightarrow> u32 \<Rightarrow> memory \<Rightarrow> ('i, u64 list \<times> memory) act" where
  "crypto_addr_of P scheme pkPtr pkLen out mem =
     act_bind (charge P (gasHashBase + gasHashPerByte * ucast pkLen)) (\<lambda>_.
       or_zero (readMem mem pkPtr pkLen) mem (\<lambda>pubKey.
       ret_cp (cp mem out (AddressOfPubKey P (ucast scheme) pubKey)) mem))"

definition crypto_random ::
  "('i, 'p) vprims_scheme \<Rightarrow> DB \<Rightarrow> u32 \<Rightarrow> memory \<Rightarrow> ('i, u64 list \<times> memory) act" where
  "crypto_random P db out mem = act_bind (charge P gasRandom) (\<lambda>_. ret_cp (cp mem out (getBeacon db)) mem)"

subsection \<open>Host functions: contract\<close>

definition contract_is_active ::
  "('i, 'p) vprims_scheme \<Rightarrow> DB \<Rightarrow> u32 \<Rightarrow> memory \<Rightarrow> ('i, u64 list \<times> memory) act" where
  "contract_is_active P db addrPtr mem =
     act_bind (charge P gasKVRead) (\<lambda>_.
       or_zero (readAddr mem addrPtr) mem (\<lambda>addr.
       or_zero (getContract P db addr) mem (\<lambda>acc. ret32 (if IsActive acc then 1 else 0) mem)))"

definition contract_get_code_size ::
  "('i, 'p) vprims_scheme \<Rightarrow> DB \<Rightarrow> u32 \<Rightarrow> memory \<Rightarrow> ('i, u64 list \<times> memory) act" where
  "contract_get_code_size P db addrPtr mem =
     act_bind (charge P gasKVRead) (\<lambda>_.
       or_zero (readAddr mem addrPtr) mem (\<lambda>addr.
       or_zero (getContract P db addr) mem (\<lambda>acc. ret32 (of_nat (length (ctSource acc))) mem)))"

definition contract_get_code ::
  "('i, 'p) vprims_scheme \<Rightarrow> DB \<Rightarrow> u32 \<Rightarrow> u32 \<Rightarrow> memory \<Rightarrow> ('i, u64 list \<times> memory) act" where
  "contract_get_code P db addrPtr ptr mem =
     or_zero (readAddr mem addrPtr) mem (\<lambda>addr.
     or_zero (getContract P db addr) mem (\<lambda>acc.
       act_bind (charge P (gasKVRead + of_nat (length (ctSource acc)) div 8)) (\<lambda>_.
       ret_cp (cp mem ptr (ctSource acc)) mem)))"

definition contract_code_hash ::
  "('i, 'p) vprims_scheme \<Rightarrow> DB \<Rightarrow> u32 \<Rightarrow> u32 \<Rightarrow> memory \<Rightarrow> ('i, u64 list \<times> memory) act" where
  "contract_code_hash P db addrPtr ptr mem =
     or_zero (readAddr mem addrPtr) mem (\<lambda>addr.
     or_zero (getContract P db addr) mem (\<lambda>acc.
       if length (ctSource acc) = 0 then ret32 0 mem
       else act_bind (charge P (gasKVRead + of_nat (length (ctSource acc)) div 8)) (\<lambda>_.
            ret_cp (cp mem ptr (Hash256 P (ctSource acc))) mem)))"

subsection \<open>The linked host modules\<close>

text \<open>What the linker answers for an import; the calls into other contracts are arguments.\<close>

primrec initBuiltInImports ::
  "('i, 'p) vprims_scheme \<Rightarrow> DB \<Rightarrow> (bytes \<Rightarrow> bytes \<Rightarrow> u64 list \<Rightarrow> memory \<Rightarrow> ('i, u64 list \<times> memory) act) \<Rightarrow>
   (u32 \<Rightarrow> u32 \<Rightarrow> u32 \<Rightarrow> memory \<Rightarrow> ('i, u64 list \<times> memory) act) \<Rightarrow> hostcall \<Rightarrow> memory \<Rightarrow> ('i, u64 list \<times> memory) act"
where
  "initBuiltInImports P db svc dyn (Log_debug a b) = log_debug a b"
| "initBuiltInImports P db svc dyn (Log_error a b) = log_error a b"
| "initBuiltInImports P db svc dyn (Log_emit a b c d) = log_emit P a b c d"
| "initBuiltInImports P db svc dyn Address_get_size = address_get_size"
| "initBuiltInImports P db svc dyn (Address_get_host a) = address_get_host a"
| "initBuiltInImports P db svc dyn (Address_get_caller a) = address_get_caller a"
| "initBuiltInImports P db svc dyn (Coin_get_balance a b) = coin_get_balance P db a b"
| "initBuiltInImports P db svc dyn (Coin_transfer a b) = coin_transfer P db a b"
| "initBuiltInImports P db svc dyn (Kv_get_size a b) = kv_get_size P db a b"
| "initBuiltInImports P db svc dyn (Kv_get a b c) = kv_get P db a b c"
| "initBuiltInImports P db svc dyn (Kv_set a b c d) = kv_set P db a b c d"
| "initBuiltInImports P db svc dyn (Kv_count a b) = kv_count P db a b"
| "initBuiltInImports P db svc dyn (Kv_key_size_at a b c) = kv_key_size_at P db a b c"
| "initBuiltInImports P db svc dyn (Kv_key_at a b c d) = kv_key_at P db a b c d"
| "initBuiltInImports P db svc dyn (Kv_del a b) = kv_del P db a b"
| "initBuiltInImports P db svc dyn Tx_get_hash_size = tx_get_hash_size"
| "initBuiltInImports P db svc dyn (Tx_get_hash a) = tx_get_hash P a"
| "initBuiltInImports P db svc dyn Tx_get_network = tx_get_network"
| "initBuiltInImports P db svc dyn Tx_get_height = tx_get_height"
| "initBuiltInImports P db svc dyn Tx_get_timestamp = tx_get_timestamp"
| "initBuiltInImports P db svc dyn (Tx_get_paid a) = tx_get_paid a"
| "initBuiltInImports P db svc dyn (Tx_get_from a) = tx_get_from P a"
| "initBuiltInImports P db svc dyn (Tx_get_to a) = tx_get_to a"
| "initBuiltInImports P db svc dyn Tx_get_fee_size = tx_get_fee_size"
| "initBuiltInImports P db svc dyn (Tx_get_fee a) = tx_get_fee a"
| "initBuiltInImports P db svc dyn Tx_get_extra_size = tx_get_extra_size"
| "initBuiltInImports P db svc dyn (Tx_get_extra a) = tx_get_extra a"
| "initBuiltInImports P db svc dyn Env_get_gas = env_get_gas"
| "initBuiltInImports P db svc dyn (Env_buf_set a b c) = env_buf_set a b c"
| "initBuiltInImports P db svc dyn (Env_buf_size a) = env_buf_size a"
| "initBuiltInImports P db svc dyn (Env_buf_get a b) = env_buf_get a b"
| "initBuiltInImports P db svc dyn (Crypto_blake3 a b c) = crypto_blake3 P a b c"
| "initBuiltInImports P db svc dyn (Crypto_verify a b c d e f) = crypto_verify P a b c d e f"
| "initBuiltInImports P db svc dyn (Crypto_addr_of a b c d) = crypto_addr_of P a b c d"
| "initBuiltInImports P db svc dyn (Crypto_random a) = crypto_random P db a"
| "initBuiltInImports P db svc dyn (Contract_call a b c) = dyn a b c"
| "initBuiltInImports P db svc dyn (Contract_is_active a) = contract_is_active P db a"
| "initBuiltInImports P db svc dyn (Contract_get_code_size a) = contract_get_code_size P db a"
| "initBuiltInImports P db svc dyn (Contract_get_code a b) = contract_get_code P db a b"
| "initBuiltInImports P db svc dyn (Contract_code_hash a b) = contract_code_hash P db a b"
| "initBuiltInImports P db svc dyn (Service name export args) = svc name export args"

end
