(* ===== verification/Machine.thy ===== *)
theory Machine
  imports Host
begin

text \<open>
  Running a contract: the calls between contracts of \<^verbatim>\<open>ngstate/service.go\<close> and the machine of \<^verbatim>\<open>wasm.go\<close>
  (building and linking it, entry resolution, toll accounting, the run itself).  A guest is executed by
  \<open>exec\<close> against the host functions.  Calls into other contracts execute further guests; \<open>host n\<close> serves
  \<open>n\<close> nested ones.  Every nested call first charges \<open>gasServiceCall\<close>, so \<open>vm_nesting\<close> levels are enough
  (\<open>Nesting\<close>).
\<close>

section \<open>Definitions\<close>

subsection \<open>Executing a guest\<close>

primrec exec ::
  "('i, 'p) vprims_scheme \<Rightarrow> (hostcall \<Rightarrow> memory \<Rightarrow> ('i, u64 list \<times> memory) act) \<Rightarrow> 'i guest \<Rightarrow>
   'i VM \<Rightarrow> 'i VM \<times> 'i \<times> (error + u64 list)"
where
  "exec P H (Done rets ins) vm = (vm, ins, Inr rets)"
| "exec P H (Trap e ins) vm = (vm, ins, Inl e)"
| "exec P H (Burn cost ins g) vm =
     (case charge P cost vm of (vm, Inl e) \<Rightarrow> (vm, ins, Inl e) | (vm, Inr _) \<Rightarrow> exec P H g vm)"
| "exec P H (Host c ins mem k) vm =
     (case H c mem vm of (vm, Inl e) \<Rightarrow> (vm, ins, Inl (recoverErr P e)) | (vm, Inr r) \<Rightarrow> exec P H (k r) vm)"

text \<open>Push a frame, run, pop.\<close>

definition in_frame :: "Address \<Rightarrow> ('i VM \<Rightarrow> 'i VM \<times> 'a) \<Rightarrow> 'i VM \<Rightarrow> 'i VM \<times> 'a" where
  "in_frame addr run vm =
     (case run (vm\<lparr>vmFrames := vmFrames vm @ [addr]\<rparr>) of
        (vm, r) \<Rightarrow> (vm\<lparr>vmFrames := butlast (vmFrames vm)\<rparr>, r))"

subsection \<open>Linking\<close>

definition hostModules :: "bytes list" where
  "hostModules = map str [''log'', ''address'', ''coin'', ''kv'', ''tx'', ''env'', ''crypto'', ''contract'']"

definition linked :: "'i VM \<Rightarrow> bytes \<Rightarrow> bool" where
  "linked vm name = (name \<in> set hostModules \<or> name \<in> fst ` set (vmModules vm))"

definition service_exports :: "wmodule \<Rightarrow> (bytes \<times> functype) list" where
  "service_exports m =
     concat (map (\<lambda>(name, _). case exportFuncSig m name of None \<Rightarrow> [] | Some sig \<Rightarrow> [(name, sig)]) (wmExports m))"

text \<open>The linker knows a module as soon as one function of it is defined.\<close>

definition linkServiceDep ::
  "('i, 'p) vprims_scheme \<Rightarrow> (hostcall \<Rightarrow> memory \<Rightarrow> ('i, u64 list \<times> memory) act) \<Rightarrow>
   (wmodule \<Rightarrow> ('i, unit) act) \<Rightarrow> bytes \<Rightarrow> Contract \<Rightarrow> ('i, unit) act" where
  "linkServiceDep P H loadDeps linkName depAcc =
     (case bind_result (LoadContractWasm P (ctSource depAcc)) (loadModule P) of
        Inl e \<Rightarrow> act_raise e
      | Inr depModule \<Rightarrow>
          act_bind (loadDeps depModule) (\<lambda>_ vm.
            case exec P H (instantiate P depModule (map fst (vmModules vm))) vm of
              (vm, _, Inl e) \<Rightarrow> (vm, Inl e)
            | (vm, ins, Inr _) \<Rightarrow>
                let exports = service_exports depModule
                in if list_ex (\<lambda>(_, sig). \<not> defineFunc P sig) exports then (vm, Inl ErrServiceBadExport)
                   else if exports = [] then (vm, Inr ())
                   else (vm\<lparr>vmModules := vmModules vm @ [(linkName, ctOwner depAcc, ins, exports)]\<rparr>, Inr ())))"

primrec act_each :: "('x \<Rightarrow> ('i, unit) act) \<Rightarrow> 'x list \<Rightarrow> ('i, unit) act" where
  "act_each f [] = act_ret ()"
| "act_each f (x # xs) = act_bind (f x) (\<lambda>_. act_each f xs)"

definition load_dep ::
  "('i, 'p) vprims_scheme \<Rightarrow> (hostcall \<Rightarrow> memory \<Rightarrow> ('i, u64 list \<times> memory) act) \<Rightarrow> DB \<Rightarrow>
   (wmodule \<Rightarrow> ('i, unit) act) \<Rightarrow> bytes \<Rightarrow> ('i, unit) act" where
  "load_dep P H db loadDeps raw = act_get (\<lambda>vm.
     if linked vm raw then act_ret ()
     else case resolveDepAddr P raw of
            Inl e \<Rightarrow> act_raise e
          | Inr addr \<Rightarrow>
              if addr = ctOwner (vmSelf vm) then act_raise ErrDepSelf
              else case getContract P db addr of
                     Inl e \<Rightarrow> act_raise e
                   | Inr depAcc \<Rightarrow>
                       if \<not> IsActive depAcc \<or> length (ctSource depAcc) = 0 then act_raise ErrDepNotActive
                       else linkServiceDep P H loadDeps raw depAcc)"

text \<open>The first argument counts the levels left below \<^verbatim>\<open>maxDepChainDepth\<close>.\<close>

primrec loadContractDeps ::
  "nat \<Rightarrow> ('i, 'p) vprims_scheme \<Rightarrow> (hostcall \<Rightarrow> memory \<Rightarrow> ('i, u64 list \<times> memory) act) \<Rightarrow> DB \<Rightarrow>
   wmodule \<Rightarrow> ('i, unit) act"
where
  "loadContractDeps 0 P H db m =
     (case parseContractDeps P m of
        Inl e \<Rightarrow> act_raise e | Inr deps \<Rightarrow> if length deps > 0 then act_raise ErrDepLimit else act_ret ())"
| "loadContractDeps (Suc k) P H db m =
     (case parseContractDeps P m of
        Inl e \<Rightarrow> act_raise e | Inr deps \<Rightarrow> act_each (load_dep P H db (loadContractDeps k P H db)) deps)"

subsection \<open>Calls between contracts\<close>

definition is_float :: "valtype \<Rightarrow> bool" where
  "is_float t = (t = F32 \<or> t = F64)"

definition fromRaw :: "u64 \<Rightarrow> valtype \<Rightarrow> u64" where
  "fromRaw raw t = (if t = I32 then ucast (ucast raw :: u32) else raw)"

definition trace_call :: "Address \<Rightarrow> Address \<Rightarrow> bytes \<Rightarrow> bytes \<Rightarrow> TraceCall" where
  "trace_call from to method input =
     \<lparr>tcType = str ''call'', tcDepth = 0, tcFrom = from, tcTo = to, tcMethod = method, tcValue = [],
      tcInput = input, tcOk = False\<rparr>"

definition put_instance :: "bytes \<Rightarrow> 'i \<Rightarrow> 'i VM \<Rightarrow> 'i VM" where
  "put_instance name ins vm =
     vm\<lparr>vmModules := map (\<lambda>(n, a, i, ex). (n, a, if n = name then ins else i, ex)) (vmModules vm)\<rparr>"

text \<open>The call of a linked export in the frame of its contract.\<close>

definition service_invoke ::
  "('i, 'p) vprims_scheme \<Rightarrow> (hostcall \<Rightarrow> memory \<Rightarrow> ('i, u64 list \<times> memory) act) \<Rightarrow>
   bytes \<Rightarrow> Address \<Rightarrow> 'i \<Rightarrow> bytes \<Rightarrow> u64 list \<Rightarrow> valtype list \<Rightarrow> memory \<Rightarrow> nat option \<Rightarrow> ('i, u64 list \<times> memory) act" where
  "service_invoke P H linkName addr ins exportName args outputs mem idx vm =
     (case in_frame addr (exec P H (callExport P ins exportName args)) vm of
        (vm, ins, Inl e) \<Rightarrow> (put_instance linkName ins vm, Inl e)
      | (vm, ins, Inr rets) \<Rightarrow>
          act_bind (traceOk idx) (\<lambda>_.
            if length rets \<noteq> length outputs \<or> list_ex is_float outputs then act_raise ErrServiceBadExport
            else act_ret (map2 fromRaw rets outputs, mem)) (put_instance linkName ins vm))"

text \<open>A wrapper exists for every function a linked module exports, so the lookup does not fail.\<close>

definition makeServiceWrapper ::
  "('i, 'p) vprims_scheme \<Rightarrow> (hostcall \<Rightarrow> memory \<Rightarrow> ('i, u64 list \<times> memory) act) \<Rightarrow>
   bytes \<Rightarrow> bytes \<Rightarrow> u64 list \<Rightarrow> memory \<Rightarrow> ('i, u64 list \<times> memory) act" where
  "makeServiceWrapper P H linkName exportName args mem = act_get (\<lambda>vm.
     case map_of (vmModules vm) linkName of
       None \<Rightarrow> act_raise ErrServiceBadExport
     | Some (addr, ins, exports) \<Rightarrow>
         (case map_of exports exportName of
            None \<Rightarrow> act_raise ErrServiceBadExport
          | Some (inputs, outputs) \<Rightarrow>
              if onStack vm addr
              then act_bind (traceStart (trace_call (currentAddress vm) addr exportName []))
                     (\<lambda>_. act_raise ErrServiceReentry)
              else act_bind (charge P gasServiceCall) (\<lambda>_.
                   if list_ex is_float inputs then act_raise ErrServiceBadExport
                   else act_bind (traceStart (trace_call (currentAddress vm) addr exportName []))
                          (service_invoke P H linkName addr ins exportName args outputs mem))))"

definition reserved_entry :: "bytes \<Rightarrow> bool" where
  "reserved_entry method =
     (method = [] \<or> method = EntryOnTx \<or> method = EntryOnActivate \<or> method = EntryOnUpgrade \<or> method = EntryOnValidate)"

definition resolveDynEntry :: "('i, 'p) vprims_scheme \<Rightarrow> wmodule \<Rightarrow> bytes \<Rightarrow> bytes \<times> bytes" where
  "resolveDynEntry P m calldata =
     (case DecodeCallData P calldata of
        Inl _ \<Rightarrow> (EntryOnTx, calldata)
      | Inr (method, a) \<Rightarrow>
          if reserved_entry method then (EntryOnTx, a)
          else case exportFuncSig m method of
                 None \<Rightarrow> (EntryOnTx, a)
               | Some sig \<Rightarrow> if length (fst sig) \<noteq> 0 then (EntryOnTx, a) else (method, a))"

text \<open>The call proper: the callee sees its calldata and its own frame.\<close>

definition dyn_invoke ::
  "('i, 'p) vprims_scheme \<Rightarrow> (hostcall \<Rightarrow> memory \<Rightarrow> ('i, u64 list \<times> memory) act) \<Rightarrow>
   Address \<Rightarrow> wmodule \<Rightarrow> 'i \<Rightarrow> bytes \<Rightarrow> memory \<Rightarrow> ('i, u64 list \<times> memory) act" where
  "dyn_invoke P H target m ins calldata mem = act_get (\<lambda>vm.
     case resolveDynEntry P m calldata of
       (entry, args) \<Rightarrow>
         act_bind (traceStart (trace_call (currentAddress vm) target entry args)) (\<lambda>idx vm.
           let savedArgs = vmCallArgs vm
           in case in_frame target (exec P H (callExport P ins entry [])) (vm\<lparr>vmCallArgs := args\<rparr>) of
                (vm, _, Inl e) \<Rightarrow> (vm\<lparr>vmCallArgs := savedArgs\<rparr>, Inl e)
              | (vm, _, Inr _) \<Rightarrow> act_bind (traceOk idx) (\<lambda>_. ret32 1 mem) (vm\<lparr>vmCallArgs := savedArgs\<rparr>)))"

text \<open>Link and instantiate the target, then call it.\<close>

definition dyn_enter ::
  "('i, 'p) vprims_scheme \<Rightarrow> (hostcall \<Rightarrow> memory \<Rightarrow> ('i, u64 list \<times> memory) act) \<Rightarrow> DB \<Rightarrow>
   Address \<Rightarrow> bytes \<Rightarrow> memory \<Rightarrow> wmodule \<Rightarrow> ('i, u64 list \<times> memory) act" where
  "dyn_enter P H db target calldata mem m vm =
     (case loadContractDeps (maxDepChainDepth - length (vmFrames vm)) P H db m vm of
        (vm, Inl e) \<Rightarrow> ret32 0 mem vm
      | (vm, Inr _) \<Rightarrow>
          (case exec P H (instantiate P m (map fst (vmModules vm))) vm of
             (vm, _, Inl e) \<Rightarrow> ret32 0 mem vm
           | (vm, ins, Inr _) \<Rightarrow> dyn_invoke P H target m ins calldata mem vm))"

definition serviceCall ::
  "('i, 'p) vprims_scheme \<Rightarrow> (hostcall \<Rightarrow> memory \<Rightarrow> ('i, u64 list \<times> memory) act) \<Rightarrow> DB \<Rightarrow>
   u32 \<Rightarrow> u32 \<Rightarrow> u32 \<Rightarrow> memory \<Rightarrow> ('i, u64 list \<times> memory) act" where
  "serviceCall P H db addrPtr argsPtr argsLen mem =
     act_bind (charge P gasServiceCall) (\<lambda>_. act_get (\<lambda>vm.
       if length (vmFrames vm) \<ge> maxDepChainDepth then act_raise ErrDepLimit
       else or_zero (readAddr mem addrPtr) mem (\<lambda>target.
            or_zero (readMem mem argsPtr argsLen) mem (\<lambda>calldata.
            if onStack vm target
            then act_bind (traceStart (trace_call (currentAddress vm) target [] [])) (\<lambda>_. act_raise ErrServiceReentry)
            else or_zero (getContract P db target) mem (\<lambda>acc.
                 if \<not> IsActive acc \<or> length (ctSource acc) = 0 then ret32 0 mem
                 else or_zero (bind_result (LoadContractWasm P (ctSource acc)) (templateFor P)) mem (\<lambda>m.
                      dyn_enter P H db target calldata mem m))))))"

text \<open>The host functions with \<open>n\<close> levels of nested calls.\<close>

primrec host ::
  "nat \<Rightarrow> ('i, 'p) vprims_scheme \<Rightarrow> DB \<Rightarrow> hostcall \<Rightarrow> memory \<Rightarrow> ('i, u64 list \<times> memory) act"
where
  "host 0 P db =
     initBuiltInImports P db (makeServiceWrapper P (\<lambda>_ _. act_raise NestingExhausted))
       (serviceCall P (\<lambda>_ _. act_raise NestingExhausted) db)"
| "host (Suc n) P db = initBuiltInImports P db (makeServiceWrapper P (host n P db)) (serviceCall P (host n P db) db)"

subsection \<open>The machine\<close>

definition vm_nesting :: nat where
  "vm_nesting = unat vmMaxToll div unat gasServiceCall"

definition NewVM ::
  "nat \<Rightarrow> ('i, 'p) vprims_scheme \<Rightarrow> DB \<Rightarrow> Contract \<Rightarrow> FullTx \<Rightarrow> u64 \<Rightarrow> error + 'i VM" where
  "NewVM n P db account tx blockTime =
     bind_result (LoadContractWasm P (ctSource account)) (\<lambda>bin.
     bind_result (loadModule P bin) (\<lambda>m.
       let vm = \<lparr>vmCaller = tx, vmSelf = account, vmBlockTime = blockTime, vmCs = None,
                 vmJ = newVMJournal account, vmModule = m, vmModules = [], vmFrames = [ctOwner account],
                 vmCallArgs = txExtra tx, vmEvents = [], vmTrace = [], vmToll = 0, vmTollPreburn = 0,
                 vmBufs = replicate vmBufSlots []\<rparr>
       in case loadContractDeps maxDepChainDepth P (host n P db) db m vm of
            (vm, Inl e) \<Rightarrow> Inl e | (vm, Inr _) \<Rightarrow> Inr vm))"

definition LimitToll :: "('i, 'p) vprims_scheme \<Rightarrow> u64 \<Rightarrow> 'i VM \<Rightarrow> 'i VM" where
  "LimitToll P budget vm =
     (if budget \<ge> vmMaxToll then vm
      else let preburn = vmMaxToll - budget
           in vm\<lparr>vmTollPreburn := preburn, vmToll := fst (tollAdd P (vmToll vm) preburn)\<rparr>)"

definition GasUsed :: "'i VM \<Rightarrow> u64" where
  "GasUsed vm = (if vmToll vm \<le> vmTollPreburn vm then 0 else vmToll vm - vmTollPreburn vm)"

definition EntryFor :: "('i, 'p) vprims_scheme \<Rightarrow> bytes \<Rightarrow> 'i VM \<Rightarrow> 'i VM \<times> bytes" where
  "EntryFor P defaultEntry vm =
     (if defaultEntry \<noteq> EntryOnTx \<or> length (txExtra (vmCaller vm)) = 0 then (vm, defaultEntry)
      else case DecodeCallData P (txExtra (vmCaller vm)) of
             Inl _ \<Rightarrow> (vm, defaultEntry)
           | Inr (method, args) \<Rightarrow>
               let vm = vm\<lparr>vmCallArgs := args\<rparr>
               in if reserved_entry method then (vm, defaultEntry)
                  else case exportFuncSig (vmModule vm) method of
                         None \<Rightarrow> (vm, defaultEntry)
                       | Some sig \<Rightarrow> if length (fst sig) \<noteq> 0 then (vm, defaultEntry) else (vm, method))"

text \<open>Instantiate and call; \<^verbatim>\<open>Run\<close> flushes the journal of a successful call, \<^verbatim>\<open>DryRun\<close> reports the toll.\<close>

definition call_entry :: "nat \<Rightarrow> ('i, 'p) vprims_scheme \<Rightarrow> DB \<Rightarrow> bytes \<Rightarrow> ('i, unit) act" where
  "call_entry n P db entry vm =
     (case exec P (host n P db) (instantiate P (vmModule vm) (map fst (vmModules vm))) vm of
        (vm, _, Inl e) \<Rightarrow> (vm, Inl e)
      | (vm, ins, Inr _) \<Rightarrow>
          (case exec P (host n P db) (callExport P ins entry []) vm of
             (vm, _, Inl e) \<Rightarrow> (vm, Inl e) | (vm, _, Inr _) \<Rightarrow> (vm, Inr ())))"

definition Run :: "nat \<Rightarrow> ('i, 'p) vprims_scheme \<Rightarrow> DB \<Rightarrow> bytes \<Rightarrow> 'i VM \<Rightarrow> 'i VM \<times> (error + DB)" where
  "Run n P db entry vm =
     (case call_entry n P db entry vm of
        (vm, Inl e) \<Rightarrow> (vm, Inl e) | (vm, Inr _) \<Rightarrow> (vm, flush P (vmCs vm) db (vmJ vm)))"

definition DryRun :: "nat \<Rightarrow> ('i, 'p) vprims_scheme \<Rightarrow> DB \<Rightarrow> bytes \<Rightarrow> 'i VM \<Rightarrow> u64 \<times> (error + unit)" where
  "DryRun n P db entry vm = (case call_entry n P db entry vm of (vm, r) \<Rightarrow> (vmToll vm, r))"

definition IsExportMissing :: "error \<Rightarrow> bool" where
  "IsExportMissing e = (e = ErrExportedFuncNotFound)"

end
