(* ===== verification/Runs.thy ===== *)
theory Runs
  imports Steps Machine
begin

text \<open>
  What a contract run can do.  \<open>vm_run\<close> is an abstract machine with the observable effects of the host
  functions: bookkeeping, loading a contract into the journal, writing an unreserved key of the executing
  contract, moving coins of the executing contract, locking and refunding its storage deposit, and calling
  a contract that is not on the stack.  Every guest, executed by the detailed machine, is such a run
  (\<open>exec_runs\<close>, \<open>host_runs\<close>).  The invariants of the journal and of the call stack are shown for the
  abstract machine by rule induction.
\<close>

section \<open>The abstract machine\<close>

text \<open>The addresses a call can enter.\<close>

definition callee :: "'p sprims_scheme \<Rightarrow> DB \<Rightarrow> Address \<Rightarrow> bool" where
  "callee P db a \<longleftrightarrow> (\<exists>b acc. getContract P db b = Inr acc \<and> (a = b \<or> a = ctOwner acc))"

definition modules_ok :: "'p sprims_scheme \<Rightarrow> DB \<Rightarrow> 'i VM \<Rightarrow> bool" where
  "modules_ok P db vm \<longleftrightarrow> (\<forall>(name, addr, ins, exports) \<in> set (vmModules vm). callee P db addr)"

inductive vm_run :: "('i, 'p) vprims_scheme \<Rightarrow> DB \<Rightarrow> 'i VM \<Rightarrow> 'i VM \<Rightarrow> bool"
  for P :: "('i, 'p) vprims_scheme" and db :: DB where
  run_refl: "vm_run P db vm vm"
| run_quiet: "vm_run P db vm vm1 \<Longrightarrow>
    vm_run P db vm (vm1\<lparr>vmEvents := ev, vmTrace := tr, vmBufs := b, vmCallArgs := args\<rparr>)"
| run_charge: "vm_run P db vm vm1 \<Longrightarrow> vm_run P db vm (vm1\<lparr>vmToll := fst (tollAdd P (vmToll vm1) cost)\<rparr>)"
| run_link: "vm_run P db vm vm1 \<Longrightarrow> modules_ok P db vm1 \<Longrightarrow> modules_ok P db (vm1\<lparr>vmModules := ms\<rparr>) \<Longrightarrow>
    vm_run P db vm (vm1\<lparr>vmModules := ms\<rparr>)"
| run_load: "vm_run P db vm vm1 \<Longrightarrow> contractOf P db (vmJ vm1) a = Inr (acc, j) \<Longrightarrow> vm_run P db vm (vm1\<lparr>vmJ := j\<rparr>)"
| run_set: "vm_run P db vm vm1 \<Longrightarrow> \<not> isReservedKey k \<Longrightarrow>
    vm_run P db vm (vmContext_write (\<lambda>ctx. ctx_Set ctx k v) vm1)"
| run_del: "vm_run P db vm vm1 \<Longrightarrow> \<not> isReservedKey k \<Longrightarrow>
    vm_run P db vm (vmContext_write (\<lambda>ctx. ctx_Del ctx k) vm1)"
| run_transfer: "vm_run P db vm vm1 \<Longrightarrow> length to = AddressSize \<Longrightarrow>
    journal_transfer db (vmJ vm1) (currentAddress vm1) to v = Inr j \<Longrightarrow> vm_run P db vm (vm1\<lparr>vmJ := j\<rparr>)"
| run_lock: "vm_run P db vm vm1 \<Longrightarrow> 0 < amount \<Longrightarrow>
    journal_transfer db (vmJ vm1) (currentAddress vm1) storageDepositEscrowAddr amount = Inr j \<Longrightarrow>
    contractOf P db j (currentAddress vm1) = Inr (acc, j') \<Longrightarrow>
    vm_run P db vm (vmContext_write (\<lambda>ctx. setLockedDeposit ctx (lockedDeposit ctx + amount)) (vm1\<lparr>vmJ := j'\<rparr>))"
| run_refund: "vm_run P db vm vm1 \<Longrightarrow> 0 < pay \<Longrightarrow>
    map_of (jAccounts (vmJ vm1)) (currentAddress vm1) = Some acc \<Longrightarrow> pay \<le> lockedDeposit (ctContext acc) \<Longrightarrow>
    journal_transfer db (vmJ vm1) storageDepositEscrowAddr (currentAddress vm1) pay = Inr j \<Longrightarrow>
    vm_run P db vm (vmContext_write (\<lambda>ctx. setLockedDeposit ctx (lockedDeposit ctx - pay)) (vm1\<lparr>vmJ := j\<rparr>))"
| run_call: "vm_run P db vm vm1 \<Longrightarrow> callee P db a \<Longrightarrow> a \<notin> set (vmFrames vm1) \<Longrightarrow>
    vm_run P db (vm1\<lparr>vmFrames := vmFrames vm1 @ [a]\<rparr>) vm2 \<Longrightarrow>
    vm_run P db vm (vm2\<lparr>vmFrames := vmFrames vm1\<rparr>)"

lemma vm_run_trans: "vm_run P db b c \<Longrightarrow> vm_run P db a b \<Longrightarrow> vm_run P db a c"
proof (induction rule: vm_run.induct)
  case (run_call vm vm1 c vm2)
  then show ?case using vm_run.run_call by blast
qed (simp_all add: vm_run.run_quiet vm_run.run_charge vm_run.run_link vm_run.run_load vm_run.run_set vm_run.run_del vm_run.run_transfer
      vm_run.run_lock vm_run.run_refund)

lemma vmContext_write_frame [simp]:
  "vmFrames (vmContext_write f vm) = vmFrames vm" "vmModules (vmContext_write f vm) = vmModules vm"
  "vmCaller (vmContext_write f vm) = vmCaller vm" "vmSelf (vmContext_write f vm) = vmSelf vm"
  "vmBlockTime (vmContext_write f vm) = vmBlockTime vm" "vmCs (vmContext_write f vm) = vmCs vm"
  "vmModule (vmContext_write f vm) = vmModule vm" "vmTollPreburn (vmContext_write f vm) = vmTollPreburn vm"
  "vmToll (vmContext_write f vm) = vmToll vm" "vmEvents (vmContext_write f vm) = vmEvents vm"
  "vmTrace (vmContext_write f vm) = vmTrace vm"
  "jBalances (vmJ (vmContext_write f vm)) = jBalances (vmJ vm)"
  by (simp_all add: vmContext_write_def split: option.splits)

lemma vm_run_frames: "vm_run P db vm vm' \<Longrightarrow> vmFrames vm' = vmFrames vm"
  by (induction rule: vm_run.induct) simp_all

lemma vm_run_caller: "vm_run P db vm vm' \<Longrightarrow> vmCaller vm' = vmCaller vm"
  and vm_run_self: "vm_run P db vm vm' \<Longrightarrow> vmSelf vm' = vmSelf vm"
  and vm_run_cs: "vm_run P db vm vm' \<Longrightarrow> vmCs vm' = vmCs vm"
  and vm_run_module: "vm_run P db vm vm' \<Longrightarrow> vmModule vm' = vmModule vm"
  and vm_run_preburn: "vm_run P db vm vm' \<Longrightarrow> vmTollPreburn vm' = vmTollPreburn vm"
  by (induction rule: vm_run.induct, simp_all)+

lemma modules_ok_cong: "vmModules vm' = vmModules vm \<Longrightarrow> modules_ok P db vm' = modules_ok P db vm"
  by (simp add: modules_ok_def)

lemma modules_ok_upd [simp]:
  "modules_ok P db (vm\<lparr>vmToll := t\<rparr>) = modules_ok P db vm" "modules_ok P db (vm\<lparr>vmEvents := ev\<rparr>) = modules_ok P db vm"
  "modules_ok P db (vm\<lparr>vmTrace := tr\<rparr>) = modules_ok P db vm" "modules_ok P db (vm\<lparr>vmBufs := b\<rparr>) = modules_ok P db vm"
  "modules_ok P db (vm\<lparr>vmCallArgs := s\<rparr>) = modules_ok P db vm" "modules_ok P db (vm\<lparr>vmJ := j\<rparr>) = modules_ok P db vm"
  "modules_ok P db (vm\<lparr>vmFrames := f\<rparr>) = modules_ok P db vm" "modules_ok P db (vm\<lparr>vmCs := cs\<rparr>) = modules_ok P db vm"
  "modules_ok P db (vm\<lparr>vmTollPreburn := t\<rparr>) = modules_ok P db vm"
  "modules_ok P db (vmContext_write g vm) = modules_ok P db vm"
  by (rule modules_ok_cong, simp)+

lemma vm_run_modules: "vm_run P db vm vm' \<Longrightarrow> modules_ok P db vm \<Longrightarrow> modules_ok P db vm'"
  by (induction rule: vm_run.induct) simp_all

section \<open>Every host function is a run of the abstract machine\<close>

definition runs :: "('i, 'p) vprims_scheme \<Rightarrow> DB \<Rightarrow> ('i, 'a) act \<Rightarrow> 'i VM \<Rightarrow> bool" where
  "runs P db m vm \<longleftrightarrow> vm_run P db vm (fst (m vm))"

named_theorems runs_intro "composition rules for actions that are runs of the abstract machine"

lemma runs_ret [runs_intro]: "runs P db (act_ret a) vm"
  and runs_raise [runs_intro]: "runs P db (act_raise e) vm"
  and runs_ret32 [runs_intro]: "runs P db (ret32 r mem) vm"
  by (simp_all add: runs_def act_ret_def act_raise_def ret32_def run_refl)

lemma runs_bind [runs_intro]:
  assumes "runs P db m vm" "\<And>a vm'. m vm = (vm', Inr a) \<Longrightarrow> vm_run P db vm vm' \<Longrightarrow> runs P db (f a) vm'"
  shows "runs P db (act_bind m f) vm"
proof (cases "m vm")
  case (Pair vm' r)
  then have "vm_run P db vm vm'" using assms(1) by (simp add: runs_def)
  with Pair assms(2) show ?thesis
    by (cases r) (auto simp: runs_def act_bind_def intro: vm_run_trans)
qed

lemma runs_get [runs_intro]: "runs P db (f vm) vm \<Longrightarrow> runs P db (act_get f) vm"
  by (simp add: runs_def act_get_def)

lemma runs_if [runs_intro]:
  "(c \<Longrightarrow> runs P db m vm) \<Longrightarrow> (\<not> c \<Longrightarrow> runs P db m' vm) \<Longrightarrow> runs P db (if c then m else m') vm"
  by simp

lemma runs_or_zero [runs_intro]: "(\<And>x. r = Inr x \<Longrightarrow> runs P db (f x) vm) \<Longrightarrow> runs P db (or_zero r mem f) vm"
  by (cases r) (simp_all add: or_zero_def runs_ret32)

lemma runs_ret_cp [runs_intro]: "runs P db (ret_cp r mem) vm"
  unfolding ret_cp_def by (auto intro: runs_intro)

lemma quiet_run:
  assumes "vm' = vm\<lparr>vmEvents := vmEvents vm', vmTrace := vmTrace vm',
    vmBufs := vmBufs vm', vmCallArgs := vmCallArgs vm'\<rparr>"
  shows "vm_run P db vm vm'"
  by (subst assms) (rule run_quiet [OF run_refl])

lemma runs_quiet: "f vm = vm\<lparr>vmEvents := vmEvents (f vm), vmTrace := vmTrace (f vm),
    vmBufs := vmBufs (f vm), vmCallArgs := vmCallArgs (f vm)\<rparr> \<Longrightarrow> runs P db (act_upd f) vm"
  unfolding runs_def act_upd_def fst_conv by (rule quiet_run)

lemma runs_charge [runs_intro]: "runs P db (charge P cost) vm"
  using run_charge [OF run_refl, of P db vm cost] by (simp add: runs_def charge_def case_prod_beta)

lemma runs_trace [runs_intro]: "runs P db (traceStart c) vm" "runs P db (traceOk idx) vm"
  unfolding runs_def
  by (rule quiet_run, simp add: traceStart_def traceOk_def Let_def split: option.splits)+

lemma runs_context [runs_intro]: "runs P db (vmContext P db) vm"
proof (cases "contractOf P db (vmJ vm) (currentAddress vm)")
  case (Inl e)
  then show ?thesis by (simp add: runs_def vmContext_def contextOf_def run_refl)
next
  case (Inr p)
  then obtain acc j where p: "contractOf P db (vmJ vm) (currentAddress vm) = Inr (acc, j)" by (cases p) auto
  then show ?thesis using run_load [OF run_refl p] by (simp add: runs_def vmContext_def contextOf_def)
qed

lemma runs_set: "\<not> isReservedKey k \<Longrightarrow> runs P db (act_upd (vmContext_write (\<lambda>ctx. ctx_Set ctx k v))) vm"
  and runs_del: "\<not> isReservedKey k \<Longrightarrow> runs P db (act_upd (vmContext_write (\<lambda>ctx. ctx_Del ctx k))) vm"
  by (simp_all add: runs_def act_upd_def run_set run_del run_refl)

lemma runs_sum [runs_intro]:
  "(\<And>e. r = Inl e \<Longrightarrow> runs P db (f e) vm) \<Longrightarrow> (\<And>x. r = Inr x \<Longrightarrow> runs P db (g x) vm) \<Longrightarrow>
   runs P db (case r of Inl e \<Rightarrow> f e | Inr x \<Rightarrow> g x) vm"
  by (cases r) simp_all

lemma runs_option [runs_intro]:
  "(r = None \<Longrightarrow> runs P db f vm) \<Longrightarrow> (\<And>x. r = Some x \<Longrightarrow> runs P db (g x) vm) \<Longrightarrow>
   runs P db (case r of None \<Rightarrow> f | Some x \<Rightarrow> g x) vm"
  by (cases r) simp_all

lemma runs_prod [runs_intro]:
  "(\<And>a b. p = (a, b) \<Longrightarrow> runs P db (f a b) vm) \<Longrightarrow> runs P db (case p of (a, b) \<Rightarrow> f a b) vm"
  by (cases p) simp

lemma contractOf_map: "contractOf P db j a = Inr (acc, j') \<Longrightarrow> map_of (jAccounts j') a = Some acc"
  and contractOf_balances: "contractOf P db j a = Inr (acc, j') \<Longrightarrow> jBalances j' = jBalances j"
  by (auto simp: contractOf_def Let_def result_simps update_conv' split: option.splits)

lemma transfer_accounts: "journal_transfer db j from to v = Inr j' \<Longrightarrow> jAccounts j' = jAccounts j"
  by (auto simp: journal_transfer_def Let_def split: if_splits)

lemma escrow_length [simp]: "length storageDepositEscrowAddr = AddressSize"
  by (simp add: storageDepositEscrowAddr_def)

lemma currentAddress_upd [simp]:
  "currentAddress (vm\<lparr>vmJ := j\<rparr>) = currentAddress vm" "currentAddress (vm\<lparr>vmToll := t\<rparr>) = currentAddress vm"
  "currentAddress (vmContext_write f vm) = currentAddress vm"
  by (simp_all add: currentAddress_def)

lemma runs_lockDeposit [runs_intro]: "runs P db (lockDeposit P db amount) vm"
proof (cases "0 < amount")
  case True
  show ?thesis
  proof (cases "journal_transfer db (vmJ vm) (currentAddress vm) storageDepositEscrowAddr amount")
    case (Inr j)
    note transfer = run_transfer [OF run_refl escrow_length Inr] and lock = run_lock [OF run_refl True Inr]
    show ?thesis
    proof (cases "contractOf P db j (currentAddress vm)")
      case (Inr p)
      then obtain acc j' where "contractOf P db j (currentAddress vm) = Inr (acc, j')" by (cases p) auto
      then show ?thesis using \<open>journal_transfer _ _ _ _ _ = _\<close> True lock
        by (simp add: runs_def lockDeposit_def act_get_def act_bind_def act_upd_def vmContext_def contextOf_def)
    qed (use \<open>journal_transfer _ _ _ _ _ = _\<close> True transfer in
        \<open>simp add: runs_def lockDeposit_def act_get_def act_bind_def act_upd_def vmContext_def contextOf_def\<close>)
  qed (simp add: lockDeposit_def act_get_def runs_def act_raise_def act_ret_def run_refl)
qed (simp add: lockDeposit_def runs_ret)

lemma runs_refund_pay:
  assumes "map_of (jAccounts (vmJ vm)) (currentAddress vm) = Some acc" "0 < pay" "pay \<le> lockedDeposit (ctContext acc)"
  shows "runs P db (case journal_transfer db (vmJ vm) storageDepositEscrowAddr (currentAddress vm) pay of
                  Inl e \<Rightarrow> act_ret ()
                | Inr j \<Rightarrow> act_upd (\<lambda>vm. vmContext_write (\<lambda>ctx. setLockedDeposit ctx (lockedDeposit (ctContext acc) - pay)) (vm\<lparr>vmJ := j\<rparr>))) vm"
proof (cases "journal_transfer db (vmJ vm) storageDepositEscrowAddr (currentAddress vm) pay")
  case (Inr j)
  have "vmContext_write (\<lambda>ctx. setLockedDeposit ctx (lockedDeposit (ctContext acc) - pay)) (vm\<lparr>vmJ := j\<rparr>)
    = vmContext_write (\<lambda>ctx. setLockedDeposit ctx (lockedDeposit ctx - pay)) (vm\<lparr>vmJ := j\<rparr>)"
    using transfer_accounts [OF Inr] assms(1) by (simp add: vmContext_write_def currentAddress_def)
  then show ?thesis using run_refund [OF run_refl assms(2,1,3) Inr] Inr by (simp add: runs_def act_upd_def)
qed (simp add: runs_ret)

lemma vmContext_loaded:
  "vmContext P db vm = (vm', Inr ctx) \<Longrightarrow>
   \<exists>acc. map_of (jAccounts (vmJ vm')) (currentAddress vm') = Some acc \<and> ctContext acc = ctx"
  by (auto simp: vmContext_def contextOf_def result_simps contractOf_map split: sum.splits prod.splits)

lemma runs_refundDeposit [runs_intro]:
  fixes vm :: "'i VM"
  shows "runs P db (refundDeposit P db amount) vm"
  unfolding refundDeposit_def Let_def
proof (intro runs_if runs_ret runs_bind runs_context runs_get)
  fix ctx and vm' :: "'i VM"
  let ?pay = "if balanceOf db (vmJ vm') storageDepositEscrowAddr < (if lockedDeposit ctx < amount then lockedDeposit ctx else amount)
    then balanceOf db (vmJ vm') storageDepositEscrowAddr
    else (if lockedDeposit ctx < amount then lockedDeposit ctx else amount)"
  assume "vmContext P db vm = (vm', Inr ctx)" and pos: "\<not> ?pay \<le> 0"
  then obtain acc where acc: "map_of (jAccounts (vmJ vm')) (currentAddress vm') = Some acc" "ctContext acc = ctx"
    using vmContext_loaded by blast
  have le: "?pay \<le> lockedDeposit (ctContext acc)" using acc(2) by auto
  from pos have "0 < ?pay" by linarith
  from runs_refund_pay [OF acc(1) this le, where P = P and db = db, unfolded acc(2)]
  show "runs P db (case journal_transfer db (vmJ vm') storageDepositEscrowAddr (currentAddress vm') ?pay of
      Inl e \<Rightarrow> act_ret ()
    | Inr j \<Rightarrow> act_upd (\<lambda>vm. vmContext_write (\<lambda>ctx'. setLockedDeposit ctx' (lockedDeposit ctx - ?pay)) (vm\<lparr>vmJ := j\<rparr>))) vm'" .
qed

text \<open>Reading host functions.\<close>

lemma runs_readers [runs_intro]:
  "runs P db (log_debug a b mem) vm" "runs P db (log_error a b mem) vm" "runs P db (env_get_gas mem) vm"
  "runs P db (env_buf_size a mem) vm" "runs P db (env_buf_get a b mem) vm" "runs P db (address_get_size mem) vm"
  "runs P db (address_get_host a mem) vm" "runs P db (address_get_caller a mem) vm"
  "runs P db (coin_get_balance P db a b mem) vm" "runs P db (tx_get_hash_size mem) vm"
  "runs P db (tx_get_hash P a mem) vm" "runs P db (tx_get_network mem) vm" "runs P db (tx_get_height mem) vm"
  "runs P db (tx_get_timestamp mem) vm" "runs P db (tx_get_paid a mem) vm" "runs P db (tx_get_from P a mem) vm"
  "runs P db (tx_get_to a mem) vm" "runs P db (tx_get_fee_size mem) vm" "runs P db (tx_get_fee a mem) vm"
  "runs P db (tx_get_extra_size mem) vm" "runs P db (tx_get_extra a mem) vm"
  "runs P db (crypto_blake3 P a b c mem) vm" "runs P db (crypto_verify P a b c d e f mem) vm"
  "runs P db (crypto_addr_of P a b c d mem) vm" "runs P db (crypto_random P db a mem) vm"
  "runs P db (contract_is_active P db a mem) vm" "runs P db (contract_get_code_size P db a mem) vm"
  "runs P db (contract_get_code P db a b mem) vm" "runs P db (contract_code_hash P db a b mem) vm"
  unfolding log_debug_def log_error_def env_get_gas_def env_buf_size_def env_buf_get_def address_get_size_def
    address_get_host_def address_get_caller_def coin_get_balance_def tx_get_hash_size_def tx_get_hash_def
    tx_get_network_def tx_get_height_def tx_get_timestamp_def tx_get_paid_def tx_get_from_def tx_get_to_def
    tx_get_fee_size_def tx_get_fee_def tx_get_extra_size_def tx_get_extra_def crypto_blake3_def crypto_verify_def
    crypto_addr_of_def crypto_random_def contract_is_active_def contract_get_code_size_def contract_get_code_def
    contract_code_hash_def Let_def
  by (intro runs_intro)+

lemma runs_kv_readers [runs_intro]:
  "runs P db (kv_get_size P db a b mem) vm" "runs P db (kv_get P db a b c mem) vm" "runs P db (kv_count P db a b mem) vm"
  "runs P db (kv_key_size_at P db a b c mem) vm" "runs P db (kv_key_at P db a b c d mem) vm"
  unfolding kv_get_size_def kv_get_def kv_count_def kv_key_size_at_def kv_key_at_def Let_def
  by (intro runs_intro)+

text \<open>Writing host functions.\<close>

lemma runs_log_emit [runs_intro]: "runs P db (log_emit P a b c d mem) vm"
  unfolding log_emit_def by (intro runs_intro runs_quiet) simp

lemma runs_env_buf_set [runs_intro]: "runs P db (env_buf_set a b c mem) vm"
  unfolding env_buf_set_def by (intro runs_intro runs_quiet) simp

lemma runs_rent [runs_intro]: "runs P db (kv_set_rent P db key val) vm" "runs P db (kv_del_rent P db key) vm"
  unfolding kv_set_rent_def kv_del_rent_def Let_def by (intro runs_intro)+

lemma runs_kv_set [runs_intro]: "runs P db (kv_set P db a b c d mem) vm"
  unfolding kv_set_def by (intro runs_intro runs_set)

lemma runs_kv_del [runs_intro]: "runs P db (kv_del P db a b mem) vm"
  unfolding kv_del_def by (intro runs_intro runs_del)

lemma readAddr_length: "readAddr mem ptr = Inr a \<Longrightarrow> length a = AddressSize"
  by (auto simp: readAddr_def result_simps copy_at_def)

lemma runs_transfer:
  "journal_transfer db (vmJ vm) (currentAddress vm) to v = Inr j \<Longrightarrow> length to = AddressSize \<Longrightarrow>
   runs P db (act_upd (\<lambda>vm. vm\<lparr>vmJ := j\<rparr>)) vm"
  by (simp add: runs_def act_upd_def run_transfer [OF run_refl])

lemma runs_coin_transfer [runs_intro]: "runs P db (coin_transfer P db a b mem) vm"
  unfolding coin_transfer_def Let_def
  by (intro runs_intro runs_transfer runs_quiet) (auto dest: readAddr_length)

section \<open>Guests, linking and nested calls\<close>

lemma in_frame_runs:
  assumes "callee P db a" "a \<notin> set (vmFrames vm)"
    "vm_run P db (vm\<lparr>vmFrames := vmFrames vm @ [a]\<rparr>) (fst (run (vm\<lparr>vmFrames := vmFrames vm @ [a]\<rparr>)))"
  shows "vm_run P db vm (fst (in_frame a run vm))"
  using run_call [OF run_refl assms] vm_run_frames [OF assms(3)]
  by (simp add: in_frame_def case_prod_beta)

lemma modules_ok_append:
  "modules_ok P db vm \<Longrightarrow> callee P db a \<Longrightarrow> modules_ok P db (vm\<lparr>vmModules := vmModules vm @ [(name, a, ins, ex)]\<rparr>)"
  by (auto simp: modules_ok_def)

lemma modules_ok_put_instance: "modules_ok P db vm \<Longrightarrow> modules_ok P db (put_instance name ins vm)"
  by (auto simp: modules_ok_def put_instance_def)

lemma put_instance_run: "modules_ok P db vm \<Longrightarrow> vm_run P db vm (put_instance name ins vm)"
  using run_link [OF run_refl _ modules_ok_put_instance [unfolded put_instance_def]]
  by (simp add: put_instance_def)

lemma modules_ok_lookup: "modules_ok P db vm \<Longrightarrow> map_of (vmModules vm) name = Some (a, ins, ex) \<Longrightarrow> callee P db a"
  using map_of_SomeD by (fastforce simp: modules_ok_def)

text \<open>What a guest relies on: a table of host functions whose calls are runs of the abstract machine.\<close>

locale host_table =
  fixes P :: "('i, 'p) vprims_scheme" and db :: DB and H :: "hostcall \<Rightarrow> memory \<Rightarrow> ('i, u64 list \<times> memory) act"
  assumes table_runs: "modules_ok P db vm \<Longrightarrow> runs P db (H c mem) vm"
begin

lemma exec_runs: "modules_ok P db vm \<Longrightarrow> vm_run P db vm (fst (exec P H g vm))"
proof (induction g arbitrary: vm)
  case (Burn cost ins g)
  obtain vm' r where c: "charge P cost vm = (vm', r)" by (cases "charge P cost vm")
  then have run: "vm_run P db vm vm'" using runs_charge [of P db cost vm] by (simp add: runs_def)
  show ?case using c run vm_run_trans [OF Burn.IH [OF vm_run_modules [OF run Burn.prems]] run]
    by (cases r) simp_all
next
  case (Host c ins mem k)
  obtain vm' r where h: "H c mem vm = (vm', r)" by (cases "H c mem vm")
  then have run: "vm_run P db vm vm'" using table_runs [OF Host.prems, of c mem] by (simp add: runs_def)
  show ?case
  proof (cases r)
    case (Inr a)
    then show ?thesis using h vm_run_trans [OF Host.IH [OF _ vm_run_modules [OF run Host.prems]] run] by auto
  qed (use h run in simp)
qed (simp_all add: run_refl)

lemma linkServiceDep_runs:
  assumes "\<And>m vm. modules_ok P db vm \<Longrightarrow> runs P db (loadDeps m) vm" "modules_ok P db vm" "callee P db (ctOwner depAcc)"
  shows "runs P db (linkServiceDep P H loadDeps name depAcc) vm"
  unfolding linkServiceDep_def
proof (intro runs_sum runs_raise runs_bind assms(1,2))
  fix m u vm'
  assume "vm_run P db vm vm'"
  then have ok: "modules_ok P db vm'" using vm_run_modules assms(2) by blast
  obtain vm2 ins r where e: "exec P H (instantiate P m (map fst (vmModules vm'))) vm' = (vm2, ins, r)"
    by (metis prod_cases3)
  then have run: "vm_run P db vm' vm2" using exec_runs [OF ok, of "instantiate P m (map fst (vmModules vm'))"] by simp
  note ok2 = vm_run_modules [OF run ok]
  show "runs P db (\<lambda>vm. case exec P H (instantiate P m (map fst (vmModules vm))) vm of
              (vm, _, Inl e) \<Rightarrow> (vm, Inl e)
            | (vm, ins, Inr _) \<Rightarrow>
                let exports = service_exports m
                in if list_ex (\<lambda>(_, sig). \<not> defineFunc P sig) exports then (vm, Inl ErrServiceBadExport)
                   else if exports = [] then (vm, Inr ())
                   else (vm\<lparr>vmModules := vmModules vm @ [(name, ctOwner depAcc, ins, exports)]\<rparr>, Inr ())) vm'"
    using e run run_link [OF run ok2 modules_ok_append [OF ok2 assms(3)]]
    by (cases r) (simp_all add: runs_def Let_def)
qed

lemma load_dep_runs:
  assumes "\<And>m vm. modules_ok P db vm \<Longrightarrow> runs P db (loadDeps m) vm" "modules_ok P db vm"
  shows "runs P db (load_dep P H db loadDeps raw) vm"
  unfolding load_dep_def
  by (intro runs_get runs_if runs_ret runs_sum runs_raise linkServiceDep_runs assms) (auto simp: callee_def)

lemma act_each_runs:
  assumes "\<And>x vm. modules_ok P db vm \<Longrightarrow> runs P db (f x) vm"
  shows "modules_ok P db vm \<Longrightarrow> runs P db (act_each f xs) vm"
proof (induction xs arbitrary: vm)
  case (Cons x xs)
  show ?case unfolding act_each.simps
    by (intro runs_bind assms Cons.prems) (rule Cons.IH [OF vm_run_modules [OF _ Cons.prems]])
qed (simp add: runs_ret)

lemma loadContractDeps_runs: "modules_ok P db vm \<Longrightarrow> runs P db (loadContractDeps k P H db m) vm"
proof (induction k arbitrary: m vm)
  case 0
  show ?case unfolding loadContractDeps.simps by (intro runs_intro)
next
  case (Suc k)
  show ?case unfolding loadContractDeps.simps
    by (intro runs_sum runs_raise act_each_runs load_dep_runs Suc)
qed

lemma frame_case_runs:
  assumes "callee P db a" "a \<notin> set (vmFrames vm)" "modules_ok P db vm"
    "\<And>vm' ins e. vm_run P db vm vm' \<Longrightarrow> vm_run P db vm' (fst (A vm' ins e))"
    "\<And>vm' ins rets. vm_run P db vm vm' \<Longrightarrow> vm_run P db vm' (fst (B vm' ins rets))"
  shows "vm_run P db vm (fst (case in_frame a (exec P H g) vm of
      (vm', ins, Inl e) \<Rightarrow> A vm' ins e | (vm', ins, Inr rets) \<Rightarrow> B vm' ins rets))"
proof -
  have run: "vm_run P db vm (fst (in_frame a (exec P H g) vm))"
    by (rule in_frame_runs [OF assms(1,2)], rule exec_runs) (simp add: assms(3))
  obtain vm' ins r where "in_frame a (exec P H g) vm = (vm', ins, r)" by (metis prod_cases3)
  then show ?thesis using run vm_run_trans [OF assms(4) run] vm_run_trans [OF assms(5) run] by (cases r) auto
qed

lemma service_invoke_runs:
  assumes "callee P db addr" "addr \<notin> set (vmFrames vm)" "modules_ok P db vm"
  shows "runs P db (service_invoke P H name addr ins export args outputs mem idx) vm"
  unfolding runs_def service_invoke_def
proof (rule frame_case_runs [OF assms])
  fix vm' ins' e assume "vm_run P db vm vm'"
  from put_instance_run [OF vm_run_modules [OF this assms(3)]]
  show "vm_run P db vm' (fst (put_instance name ins' vm', Inl e))" by simp
next
  fix vm' ins' rets assume "vm_run P db vm vm'"
  note put = put_instance_run [OF vm_run_modules [OF this assms(3)], of name ins']
  have "runs P db (act_bind (traceOk idx) (\<lambda>_.
          if length rets \<noteq> length outputs \<or> list_ex is_float outputs then act_raise ErrServiceBadExport
          else act_ret (map2 fromRaw rets outputs, mem))) (put_instance name ins' vm')"
    by (intro runs_intro)
  then show "vm_run P db vm' (fst (act_bind (traceOk idx) (\<lambda>_.
          if length rets \<noteq> length outputs \<or> list_ex is_float outputs then act_raise ErrServiceBadExport
          else act_ret (map2 fromRaw rets outputs, mem)) (put_instance name ins' vm')))"
    unfolding runs_def by (rule vm_run_trans) (rule put)
qed

lemma makeServiceWrapper_runs:
  assumes ok: "modules_ok P db vm"
  shows "runs P db (makeServiceWrapper P H name export args mem) vm"
  unfolding makeServiceWrapper_def
proof (rule runs_get, intro runs_option runs_raise)
  fix entry assume e: "map_of (vmModules vm) name = Some entry"
  obtain addr ins exports where entry: "entry = (addr, ins, exports)" by (cases entry)
  note callee = modules_ok_lookup [OF ok e [unfolded entry]]
  show "runs P db (case entry of (addr, ins, exports) \<Rightarrow>
      (case map_of exports export of
         None \<Rightarrow> act_raise ErrServiceBadExport
       | Some (inputs, outputs) \<Rightarrow>
           if onStack vm addr
           then act_bind (traceStart (trace_call (currentAddress vm) addr export [])) (\<lambda>_. act_raise ErrServiceReentry)
           else act_bind (charge P gasServiceCall) (\<lambda>_.
                if list_ex is_float inputs then act_raise ErrServiceBadExport
                else act_bind (traceStart (trace_call (currentAddress vm) addr export []))
                       (service_invoke P H name addr ins export args outputs mem)))) vm"
    unfolding entry prod.case
    by (intro runs_option runs_prod runs_raise runs_if runs_bind runs_charge runs_trace service_invoke_runs callee)
      (auto simp: onStack_def vm_run_frames intro: vm_run_modules [OF _ vm_run_modules [OF _ ok]])
qed

lemma dyn_invoke_runs:
  assumes "callee P db target" "target \<notin> set (vmFrames vm)" and ok: "modules_ok P db vm"
  shows "runs P db (dyn_invoke P H target m ins calldata mem) vm"
proof -
  have args: "vm_run P db vm1 (vm1\<lparr>vmCallArgs := a\<rparr>)" for vm1 :: "'i VM" and a
    by (rule quiet_run) simp
  have "runs P db (\<lambda>vm. let savedArgs = vmCallArgs vm
      in case in_frame target (exec P H (callExport P ins entry [])) (vm\<lparr>vmCallArgs := args'\<rparr>) of
           (vm, _, Inl e) \<Rightarrow> (vm\<lparr>vmCallArgs := savedArgs\<rparr>, Inl e)
         | (vm, _, Inr _) \<Rightarrow> act_bind (traceOk idx) (\<lambda>_. ret32 1 mem) (vm\<lparr>vmCallArgs := savedArgs\<rparr>)) vm1"
    if "vm_run P db vm vm1" for entry args' idx vm1
    unfolding runs_def Let_def
  proof (rule vm_run_trans [OF frame_case_runs args])
    fix vm' :: "'i VM" and ins' :: 'i and r
    have "runs P db (act_bind (traceOk idx) (\<lambda>_. ret32 1 mem)) (vm'\<lparr>vmCallArgs := vmCallArgs vm1\<rparr>)"
      by (intro runs_intro)
    then show "vm_run P db vm' (fst (act_bind (traceOk idx) (\<lambda>_. ret32 1 mem) (vm'\<lparr>vmCallArgs := vmCallArgs vm1\<rparr>)))"
      unfolding runs_def by (rule vm_run_trans) (rule args)
  qed (use assms that in \<open>auto simp: vm_run_frames args dest: vm_run_modules\<close>)
  then show ?thesis unfolding dyn_invoke_def by (intro runs_get runs_prod runs_bind runs_trace)
qed

lemma dyn_enter_runs:
  assumes "callee P db target" "target \<notin> set (vmFrames vm)" and ok: "modules_ok P db vm"
  shows "runs P db (dyn_enter P H db target calldata mem m) vm"
proof -
  obtain vm1 r1 where l: "loadContractDeps (maxDepChainDepth - length (vmFrames vm)) P H db m vm = (vm1, r1)"
    by fastforce
  then have run1: "vm_run P db vm vm1" using loadContractDeps_runs [OF ok] unfolding runs_def by (metis fst_conv)
  obtain vm2 ins r2 where i: "exec P H (instantiate P m (map fst (vmModules vm1))) vm1 = (vm2, ins, r2)"
    by (metis prod_cases3)
  then have run2: "vm_run P db vm vm2"
    using vm_run_trans [OF exec_runs [OF vm_run_modules [OF run1 ok], of "instantiate P m (map fst (vmModules vm1))"] run1]
    by simp
  have "runs P db (dyn_invoke P H target m ins calldata mem) vm2"
    using assms run2 by (intro dyn_invoke_runs) (auto simp: vm_run_frames intro: vm_run_modules)
  then show ?thesis using l i run1 run2
    by (cases r1; cases r2) (auto simp: dyn_enter_def runs_def ret32_def act_ret_def intro: vm_run_trans)
qed

lemma serviceCall_runs:
  assumes ok: "modules_ok P db vm"
  shows "runs P db (serviceCall P H db a b c mem) vm"
  unfolding serviceCall_def
  by (intro runs_bind runs_charge runs_get runs_if runs_or_zero runs_trace runs_raise runs_ret32 dyn_enter_runs)
    (auto simp: callee_def onStack_def intro: vm_run_modules [OF _ ok])

end

lemma builtin_runs:
  assumes "\<And>name export args mem. runs P db (svc name export args mem) vm" "\<And>a b c mem. runs P db (dyn a b c mem) vm"
  shows "runs P db (initBuiltInImports P db svc dyn c mem) vm"
  by (cases c) (simp_all add: assms runs_readers runs_kv_readers runs_log_emit runs_env_buf_set runs_kv_set runs_kv_del
      runs_coin_transfer)

lemma host_table_host: "host_table P db (host n P db)"
proof (induction n)
  case 0
  have "host_table P db (\<lambda>_ _. act_raise NestingExhausted)" by unfold_locales (rule runs_raise)
  then show ?case
    by unfold_locales
      (simp add: builtin_runs host_table.makeServiceWrapper_runs host_table.serviceCall_runs)
next
  case (Suc n)
  show ?case
    by unfold_locales
      (simp add: builtin_runs host_table.makeServiceWrapper_runs [OF Suc] host_table.serviceCall_runs [OF Suc])
qed

text \<open>The machine's own tables keep the contract, for every number of nested levels.\<close>

interpretation hst: host_table P db "host n P db" for P :: "('i, 'p) vprims_scheme" and db n
  by (rule host_table_host)

end
