(* ===== verification/Registry.thy ===== *)
theory Registry
  imports Steps
begin

text \<open>
  The contract store: slots keep a hash of their code, and the code registry keeps each code once with a
  reference count.  \<open>registry_ok\<close> states that the counts are exact; every operation on slots keeps it, so
  no live slot loses its code, writing a slot never fails, and reading it back gives what was written.
\<close>

section \<open>Definitions\<close>

definition code_of :: "'p sprims_scheme \<Rightarrow> bytes \<Rightarrow> bytes option" where
  "code_of P raw = map_option scCodeHash (rlpStoredDec P raw)"

text \<open>How many slots refer to a code.\<close>

definition code_uses :: "'p sprims_scheme \<Rightarrow> bucket \<Rightarrow> bytes \<Rightarrow> int" where
  "code_uses P slots h = sum_list (map (\<lambda>(a, raw). if code_of P raw = Some h then 1 else 0) slots)"

definition reg_ok :: "'p sprims_scheme \<Rightarrow> bucket \<Rightarrow> (bytes \<Rightarrow> int) \<Rightarrow> bool" where
  "reg_ok P codes n \<longleftrightarrow> (\<forall>h. case bget codes h of
       None \<Rightarrow> n h = 0
     | Some e \<Rightarrow> 8 \<le> length e \<and> Hash256 P (drop 8 e) = h \<and> UnpackUint64LE e = Some (of_int (n h)))"

definition registry_ok :: "'p sprims_scheme \<Rightarrow> DB \<Rightarrow> bool" where
  "registry_ok P db \<longleftrightarrow> reg_ok P (dbCode db) (code_uses P (dbContract db))"

definition slots_wf :: "'p sprims_scheme \<Rightarrow> DB \<Rightarrow> bool" where
  "slots_wf P db \<longleftrightarrow> (\<forall>a raw. bget (dbContract db) a = Some raw \<longrightarrow>
     (\<exists>sc. rlpStoredDec P raw = Some sc \<and> scOwner sc = a \<and> sorted_wrt (<) (scKeys sc) \<and>
        length (scValues sc) = length (scKeys sc)))"

text \<open>What is used of the RLP library: decoding an encoded slot gives it back (an owner has 32 bytes).\<close>

definition rlp_ok :: "'p sprims_scheme \<Rightarrow> bool" where
  "rlp_ok P \<longleftrightarrow> (\<forall>sc. length (scOwner sc) = AddressSize \<longrightarrow> rlpStoredDec P (rlpStored P sc) = Some sc)"

definition store_ok :: "'p sprims_scheme \<Rightarrow> DB \<Rightarrow> bool" where
  "store_ok P db \<longleftrightarrow> bucket_ok (dbContract db) \<and> slots_wf P db \<and> registry_ok P db"

definition few_slots :: "DB \<Rightarrow> bool" where
  "few_slots db \<longleftrightarrow> int (length (dbContract db)) < 2 ^ 64"

section \<open>Entries of the registry\<close>

lemma entry_set:
  assumes "8 \<le> length e"
  shows "UnpackUint64LE (copy_at 0 (PackUint64LE n) e) = Some n" "drop 8 (copy_at 0 (PackUint64LE n) e) = drop 8 e"
    "length (copy_at 0 (PackUint64LE n) e) = length e"
proof -
  have "copy_at 0 (PackUint64LE n) e = PackUint64LE n @ drop 8 e"
    using assms by (simp add: copy_at_def min_def)
  then show "UnpackUint64LE (copy_at 0 (PackUint64LE n) e) = Some n" "drop 8 (copy_at 0 (PackUint64LE n) e) = drop 8 e"
    "length (copy_at 0 (PackUint64LE n) e) = length e"
    using assms by simp_all
qed

lemma entry_new:
  "copy_at 8 code (copy_at 0 (PackUint64LE n) (zeros (8 + length code))) = PackUint64LE n @ code"
  by (simp add: copy_at_def zeros_def)

lemma reg_ok_bget: "reg_ok P b n \<Longrightarrow> bget b h = Some e \<Longrightarrow>
    8 \<le> length e \<and> Hash256 P (drop 8 e) = h \<and> UnpackUint64LE e = Some (of_int (n h))"
  and reg_ok_None: "reg_ok P b n \<Longrightarrow> bget b h = None \<Longrightarrow> n h = 0"
  by (force simp: reg_ok_def split: option.splits)+

lemma loadCode_entry: "reg_ok P (dbCode db) n \<Longrightarrow> bget (dbCode db) h = Some e \<Longrightarrow> loadCode db h = drop 8 e"
  by (auto simp: loadCode_def dest: reg_ok_bget)

lemma reg_ok_put:
  assumes "reg_ok P b n" "8 \<le> length e" "Hash256 P (drop 8 e) = h" "UnpackUint64LE e = Some (of_int m)"
  shows "reg_ok P (bput b h e) (n(h := m))"
  unfolding reg_ok_def
proof
  fix k
  show "case bget (bput b h e) k of None \<Rightarrow> (n(h := m)) k = 0
    | Some e \<Rightarrow> 8 \<le> length e \<and> Hash256 P (drop 8 e) = k \<and> UnpackUint64LE e = Some (of_int ((n(h := m)) k))"
    using assms spec [OF assms(1) [unfolded reg_ok_def], of k] by (cases "k = h") (auto simp: bucket_simps split: option.splits)
qed

lemma reg_ok_del:
  assumes "reg_ok P b n"
  shows "reg_ok P (bdel b h) (n(h := 0))"
  unfolding reg_ok_def
proof
  fix k
  show "case bget (bdel b h) k of None \<Rightarrow> (n(h := 0)) k = 0
    | Some e \<Rightarrow> 8 \<le> length e \<and> Hash256 P (drop 8 e) = k \<and> UnpackUint64LE e = Some (of_int ((n(h := 0)) k))"
    using spec [OF assms [unfolded reg_ok_def], of k] by (cases "k = h") (auto simp: bucket_simps split: option.splits)
qed

text \<open>Two registries agree on the code of every hash that both hold.\<close>

definition codes_agree :: "bucket \<Rightarrow> bucket \<Rightarrow> bool" where
  "codes_agree b b' \<longleftrightarrow> (\<forall>h e e'. bget b h = Some e \<longrightarrow> bget b' h = Some e' \<longrightarrow> drop 8 e' = drop 8 e)"

lemma retainCode_ok:
  assumes "reg_ok P (dbCode db) n" "Hash256 P code = h"
  shows "\<exists>b. retainCode db h code = Inr (db\<lparr>dbCode := b\<rparr>) \<and> reg_ok P b (n(h := n h + 1)) \<and> codes_agree (dbCode db) b"
proof (cases "bget (dbCode db) h")
  case None
  have "n h = 0" using assms(1) None by (rule reg_ok_None)
  then have "reg_ok P (bput (dbCode db) h (PackUint64LE 1 @ code)) (n(h := n h + 1))"
    using assms by (intro reg_ok_put) simp_all
  then show ?thesis using None
    by (intro exI [of _ "bput (dbCode db) h (PackUint64LE 1 @ code)"])
      (simp add: retainCode_def entry_new codes_agree_def bucket_simps)
next
  case (Some e)
  note e = reg_ok_bget [OF assms(1) Some]
  have "reg_ok P (bput (dbCode db) h (copy_at 0 (PackUint64LE (of_int (n h) + 1)) e)) (n(h := n h + 1))"
    using assms e by (intro reg_ok_put) (simp_all add: entry_set)
  then show ?thesis using Some e
    by (intro exI [of _ "bput (dbCode db) h (copy_at 0 (PackUint64LE (of_int (n h) + 1)) e)"])
      (simp add: retainCode_def codes_agree_def bucket_simps entry_set)
qed

lemma word_count: "0 \<le> i \<Longrightarrow> i < 2 ^ 64 \<Longrightarrow> (of_int i :: u64) \<le> 1 \<longleftrightarrow> i \<le> 1"
  "0 \<le> i \<Longrightarrow> i < 2 ^ 64 \<Longrightarrow> (0 < (of_int i :: u64)) \<longleftrightarrow> 0 < i"
  by (simp_all add: word_le_def word_less_def uint_word_of_int_eq take_bit_int_eq_self)

lemma releaseCode_ok:
  assumes "reg_ok P (dbCode db) n" "1 \<le> n h" "n h < 2 ^ 64"
  shows "\<exists>b. releaseCode db h keep = db\<lparr>dbCode := b\<rparr> \<and> reg_ok P b (n(h := n h - 1)) \<and> codes_agree (dbCode db) b"
proof (cases "bget (dbCode db) h")
  case None
  then show ?thesis using reg_ok_None [OF assms(1) None] assms(2) by simp
next
  case (Some e)
  note e = reg_ok_bget [OF assms(1) Some]
  have small: "(of_int (n h) :: u64) \<le> 1 \<longleftrightarrow> n h \<le> 1" "0 < (of_int (n h) :: u64)"
    using word_count [of "n h"] assms(2,3) by simp_all
  show ?thesis
  proof (cases "n h \<le> 1 \<and> \<not> keep")
    case True
    then have "n h = 1" using assms(2) by simp
    then have "reg_ok P (bdel (dbCode db) h) (n(h := n h - 1))"
      using reg_ok_del [OF assms(1), of h] by simp
    then show ?thesis using Some e True small
      by (intro exI [of _ "bdel (dbCode db) h"]) (simp add: releaseCode_def codes_agree_def bucket_simps)
  next
    case False
    have "reg_ok P (bput (dbCode db) h (copy_at 0 (PackUint64LE (of_int (n h) - 1)) e)) (n(h := n h - 1))"
      using assms(1) e by (intro reg_ok_put) (simp_all add: entry_set)
    then show ?thesis using Some e False small
      by (intro exI [of _ "bput (dbCode db) h (copy_at 0 (PackUint64LE (of_int (n h) - 1)) e)"])
        (auto simp: releaseCode_def codes_agree_def bucket_simps entry_set)
  qed
qed

section \<open>Counting references\<close>

lemma code_uses_nonneg: "0 \<le> code_uses P b h"
  and code_uses_le: "code_uses P b h \<le> int (length b)"
  by (induction b) (auto simp: code_uses_def split: prod.splits)

lemma code_uses_bput:
  "bucket_ok b \<Longrightarrow> code_uses P (bput b a raw) h = code_uses P b h + (if code_of P raw = Some h then 1 else 0)
     - (case bget b a of None \<Rightarrow> 0 | Some old \<Rightarrow> if code_of P old = Some h then 1 else 0)"
  by (simp add: code_uses_def sum_bput split: option.splits)

lemma code_uses_bdel:
  "bucket_ok b \<Longrightarrow> code_uses P (bdel b a) h = code_uses P b h
     - (case bget b a of None \<Rightarrow> 0 | Some old \<Rightarrow> if code_of P old = Some h then 1 else 0)"
  by (simp add: code_uses_def sum_bdel split: option.splits)

lemma code_uses_pos:
  assumes "bucket_ok b" "bget b a = Some raw" "code_of P raw = Some h"
  shows "1 \<le> code_uses P b h"
  using code_uses_bdel [OF assms(1), of P a h] code_uses_nonneg [of P "bdel b a" h] assms(2,3) by simp

text \<open>The codes that stay in use are kept.\<close>

definition codes_keep :: "(bytes \<Rightarrow> int) \<Rightarrow> bucket \<Rightarrow> (bytes \<Rightarrow> int) \<Rightarrow> bucket \<Rightarrow> bool" where
  "codes_keep n b n' b' \<longleftrightarrow> (\<forall>h. 1 \<le> n h \<longrightarrow> 1 \<le> n' h \<longrightarrow>
     (\<exists>e e'. bget b h = Some e \<and> bget b' h = Some e' \<and> drop 8 e' = drop 8 e))"

lemma codes_keepI:
  assumes "reg_ok P b n" "reg_ok P b' n'" "codes_agree b b'"
  shows "codes_keep n b n' b'"
  unfolding codes_keep_def
proof (intro allI impI)
  fix h assume "1 \<le> n h" "1 \<le> n' h"
  then obtain e e' where "bget b h = Some e" "bget b' h = Some e'"
    using reg_ok_None [OF assms(1), of h] reg_ok_None [OF assms(2), of h] by force
  then show "\<exists>e e'. bget b h = Some e \<and> bget b' h = Some e' \<and> drop 8 e' = drop 8 e"
    using assms(3) by (auto simp: codes_agree_def)
qed

lemma codes_keep_trans:
  assumes "codes_keep n b n' b'" "codes_keep n' b' n'' b''" "\<And>h. 1 \<le> n h \<Longrightarrow> 1 \<le> n'' h \<Longrightarrow> 1 \<le> n' h"
  shows "codes_keep n b n'' b''"
  using assms unfolding codes_keep_def by (metis option.inject)

section \<open>Writing a slot\<close>

lemma rlp_stored: "rlp_ok P \<Longrightarrow> length (ctOwner ct) = AddressSize \<Longrightarrow> code_of P (rlpStored P (storedOf P ct)) = Some (Hash256 P (ctSource ct))"
  by (simp add: rlp_ok_def code_of_def storedOf_def)

lemma reconcile_ok:
  fixes ct :: Contract
  assumes st: "store_ok P db" and few: "few_slots db" and rlp: "rlp_ok P"
    and len: "length (ctOwner ct) = AddressSize"
  defines "n' \<equiv> code_uses P (bput (dbContract db) (ctOwner ct) (rlpStored P (storedOf P ct)))"
  shows "\<exists>b. reconcile_code P rec db ct = Inr (db\<lparr>dbCode := b\<rparr>) \<and> reg_ok P b n' \<and>
    codes_keep (code_uses P (dbContract db)) (dbCode db) n' b"
proof -
  let ?n = "code_uses P (dbContract db)" and ?new = "Hash256 P (ctSource ct)"
  have ok: "bucket_ok (dbContract db)" and reg: "reg_ok P (dbCode db) ?n"
    using st by (simp_all add: store_ok_def registry_ok_def)
  show ?thesis
  proof (cases "bget (dbContract db) (ctOwner ct)")
    case None
    have n': "n' = ?n(?new := ?n ?new + 1)"
      by (intro ext) (simp add: n'_def code_uses_bput [OF ok] None rlp_stored [OF rlp len])
    obtain b where "retainCode db ?new (ctSource ct) = Inr (db\<lparr>dbCode := b\<rparr>)" "reg_ok P b n'" "codes_agree (dbCode db) b"
      using retainCode_ok [OF reg, of "ctSource ct" ?new] n' by auto
    then show ?thesis using None codes_keepI [OF reg] by (auto simp: reconcile_code_def)
  next
    case (Some prev)
    then obtain old where old: "rlpStoredDec P prev = Some old" using st by (auto simp: store_ok_def slots_wf_def)
    let ?old = "scCodeHash old"
    have co: "code_of P prev = Some ?old" by (simp add: code_of_def old)
    show ?thesis
    proof (cases "?old = ?new")
      case True
      then have "n' = ?n"
        by (intro ext) (simp add: n'_def code_uses_bput [OF ok] Some co rlp_stored [OF rlp len])
      then show ?thesis using Some old True reg codes_keepI [OF reg reg]
        by (intro exI [of _ "dbCode db"]) (simp add: reconcile_code_def codes_agree_def)
    next
      case False
      define n1 where "n1 = ?n(?old := ?n ?old - 1)"
      have n': "n' = n1(?new := n1 ?new + 1)"
        using False by (intro ext) (simp add: n'_def n1_def code_uses_bput [OF ok] Some co rlp_stored [OF rlp len])
      have "1 \<le> ?n ?old" by (rule code_uses_pos [OF ok Some co])
      moreover have "?n ?old < 2 ^ 64"
        using code_uses_le [of P "dbContract db" ?old] few by (simp add: few_slots_def)
      ultimately obtain b1 where b1: "releaseCode db ?old (rec \<noteq> None) = db\<lparr>dbCode := b1\<rparr>" "reg_ok P b1 n1"
        "codes_agree (dbCode db) b1"
        using releaseCode_ok [OF reg] unfolding n1_def by blast
      then obtain b where b: "retainCode (db\<lparr>dbCode := b1\<rparr>) ?new (ctSource ct) = Inr (db\<lparr>dbCode := b\<rparr>)" "reg_ok P b n'"
        "codes_agree b1 b"
        using retainCode_ok [of P "db\<lparr>dbCode := b1\<rparr>" n1 "ctSource ct" ?new] n' by auto
      have "codes_keep ?n (dbCode db) n' b"
        by (rule codes_keep_trans [OF codes_keepI [OF reg b1(2,3)] codes_keepI [OF b1(2) b(2,3)]])
          (use False in \<open>auto simp: n' n1_def split: if_splits\<close>)
      then show ?thesis using Some old False b1(1) b(1,2)
        by (intro exI [of _ b]) (simp add: reconcile_code_def)
    qed
  qed
qed

lemma store_ok_cong:
  "dbContract db' = dbContract db \<Longrightarrow> dbCode db' = dbCode db \<Longrightarrow> store_ok P db' = store_ok P db"
  by (simp add: store_ok_def slots_wf_def registry_ok_def)

lemma getContract_cong:
  "dbContract db' = dbContract db \<Longrightarrow> dbCode db' = dbCode db \<Longrightarrow> getContract P db' a = getContract P db a"
  by (simp add: getContract_def decodeStoredContract_def loadCode_def split: option.splits)

text \<open>A slot reads back as the contract that was stored, up to its live map.\<close>

definition slot_like :: "'p sprims_scheme \<Rightarrow> Contract \<Rightarrow> Contract \<Rightarrow> bool" where
  "slot_like P ct ct' \<longleftrightarrow> ctOwner ct' = ctOwner ct \<and> Hash256 P (ctSource ct') = Hash256 P (ctSource ct) \<and>
     ccKeys (ctContext ct') = ccKeys (ctContext ct) \<and> ccValues (ctContext ct') = ccValues (ctContext ct)"

lemma loadCode_keep:
  assumes "codes_keep n (dbCode db) n' (dbCode db')" "1 \<le> n h" "1 \<le> n' h"
  shows "loadCode db' h = loadCode db h"
proof -
  obtain e e' where "bget (dbCode db) h = Some e" "bget (dbCode db') h = Some e'" "drop 8 e' = drop 8 e"
    using assms by (auto simp: codes_keep_def)
  then show ?thesis by (auto simp: loadCode_def)
qed

lemma getContract_keep:
  assumes "bget (dbContract db') a = bget (dbContract db) a" "bucket_ok (dbContract db)" "bucket_ok (dbContract db')"
    "codes_keep (code_uses P (dbContract db)) (dbCode db) (code_uses P (dbContract db')) (dbCode db')"
  shows "getContract P db' a = getContract P db a"
proof (cases "bget (dbContract db) a")
  case (Some raw)
  show ?thesis
  proof (cases "rlpStoredDec P raw")
    case (Some sc)
    then have co: "code_of P raw = Some (scCodeHash sc)" by (simp add: code_of_def)
    have "loadCode db' (scCodeHash sc) = loadCode db (scCodeHash sc)"
      using assms(1) \<open>bget _ a = Some raw\<close>
      by (intro loadCode_keep [OF assms(4)] code_uses_pos [OF assms(2) _ co] code_uses_pos [OF assms(3) _ co]) simp_all
    then show ?thesis using assms(1) Some \<open>bget _ a = Some raw\<close>
      by (simp add: getContract_def decodeStoredContract_def)
  qed (use assms(1) \<open>bget _ a = Some raw\<close> in \<open>simp add: getContract_def decodeStoredContract_def\<close>)
qed (use assms(1) in \<open>simp add: getContract_def\<close>)

lemma setContract_store:
  assumes st: "store_ok P db" and few: "few_slots db" and rlp: "rlp_ok P" and len: "length (ctOwner ct) = AddressSize"
    and ctx: "ctx_ok (ctContext ct)"
  shows "\<exists>db' ct'. setContract P rec db ct = Inr db' \<and> store_ok P db' \<and>
    getContract P db' (ctOwner ct) = Inr ct' \<and> slot_like P ct ct' \<and>
    (\<forall>a. a \<noteq> ctOwner ct \<longrightarrow> getContract P db' a = getContract P db a)"
proof -
  let ?db = "recordContract rec db (ctOwner ct)" and ?raw = "rlpStored P (storedOf P ct)"
  have st': "store_ok P ?db" "few_slots ?db"
    using st few store_ok_cong [of ?db db P] by (simp_all add: few_slots_def)
  define slots where "slots = bput (dbContract db) (ctOwner ct) ?raw"
  obtain b where b: "reconcile_code P rec ?db ct = Inr (?db\<lparr>dbCode := b\<rparr>)" "reg_ok P b (code_uses P slots)"
    "codes_keep (code_uses P (dbContract db)) (dbCode db) (code_uses P slots) b"
    using reconcile_ok [OF st' rlp len, of rec] by (auto simp: slots_def)
  define db' where "db' = trieSetContract P (?db\<lparr>dbCode := b, dbContract := slots\<rparr>) (ctOwner ct) ?raw"
  have set: "setContract P rec db ct = Inr db'"
    using b(1) by (simp add: setContract_def db'_def Let_def slots_def)
  have fr: "dbContract db' = slots" "dbCode db' = b" by (simp_all add: db'_def trie_wrappers)
  have ok: "bucket_ok (dbContract db)" "bucket_ok slots" using st by (simp_all add: store_ok_def slots_def bucket_simps)
  have dec: "rlpStoredDec P ?raw = Some (storedOf P ct)" using rlp len by (simp add: rlp_ok_def storedOf_def)
  have srt: "sorted_wrt (<) (ccKeys (ctContext ct))" "length (ccValues (ctContext ct)) = length (ccKeys (ctContext ct))"
    using ctx by (simp_all add: ctx_ok_def)
  have "slots_wf P db'" unfolding slots_wf_def
  proof (intro allI impI)
    fix a raw assume r: "bget (dbContract db') a = Some raw"
    show "\<exists>sc. rlpStoredDec P raw = Some sc \<and> scOwner sc = a \<and> sorted_wrt (<) (scKeys sc) \<and>
        length (scValues sc) = length (scKeys sc)"
      using r st dec srt
      by (cases "a = ctOwner ct") (simp_all add: fr slots_def bucket_simps store_ok_def slots_wf_def storedOf_def)
  qed
  with ok b(2) have sok: "store_ok P db'" by (simp add: store_ok_def registry_ok_def fr)
  let ?h = "Hash256 P (ctSource ct)"
  have "1 \<le> code_uses P slots ?h"
    by (rule code_uses_pos [OF ok(2), of "ctOwner ct" ?raw]) (simp_all add: slots_def bucket_simps rlp_stored [OF rlp len])
  then obtain e where e: "bget b ?h = Some e" using reg_ok_None [OF b(2), of ?h] by (cases "bget b ?h") auto
  then have "Hash256 P (loadCode db' ?h) = ?h"
    using reg_ok_bget [OF b(2) e] loadCode_entry [of P db' "code_uses P slots" ?h e] b(2) by (simp add: fr)
  moreover have "getContract P db' (ctOwner ct) = Inr \<lparr>ctOwner = ctOwner ct, ctSource = loadCode db' ?h,
      ctContext = \<lparr>ccKeys = ccKeys (ctContext ct), ccValues = ccValues (ctContext ct), ccMap = None\<rparr>\<rparr>"
    using dec by (simp add: getContract_def decodeStoredContract_def fr slots_def bucket_simps storedOf_def)
  moreover have "getContract P db' a = getContract P db a" if "a \<noteq> ctOwner ct" for a
    using that b(3) ok by (intro getContract_keep) (simp_all add: fr slots_def bucket_simps)
  ultimately show ?thesis using set sok by (auto simp: slot_like_def)
qed

lemma delContract_store:
  assumes st: "store_ok P db" and few: "few_slots db"
  shows "store_ok P (delContract P rec db a)" "b \<noteq> a \<Longrightarrow> getContract P (delContract P rec db a) b = getContract P db b"
proof -
  let ?db = "recordContract rec db a" and ?n = "code_uses P (dbContract db)" and ?n' = "code_uses P (bdel (dbContract db) a)"
  have ok: "bucket_ok (dbContract db)" and reg: "reg_ok P (dbCode db) ?n"
    using st by (simp_all add: store_ok_def registry_ok_def)
  define db1 where "db1 = (case bget (dbContract ?db) a of None \<Rightarrow> ?db
    | Some prev \<Rightarrow> (case rlpStoredDec P prev of None \<Rightarrow> ?db | Some old \<Rightarrow> releaseCode ?db (scCodeHash old) (rec \<noteq> None)))"
  have "reg_ok P (dbCode db1) ?n' \<and> codes_agree (dbCode db) (dbCode db1)"
  proof (cases "bget (dbContract db) a")
    case None
    then have "?n' = ?n" by (intro ext) (simp add: code_uses_bdel [OF ok])
    then show ?thesis using None reg by (simp add: db1_def codes_agree_def)
  next
    case (Some prev)
    then obtain old where old: "rlpStoredDec P prev = Some old" using st by (auto simp: store_ok_def slots_wf_def)
    have co: "code_of P prev = Some (scCodeHash old)" by (simp add: code_of_def old)
    have n': "?n' = ?n(scCodeHash old := ?n (scCodeHash old) - 1)"
      by (intro ext) (simp add: code_uses_bdel [OF ok] Some co)
    have reg': "reg_ok P (dbCode ?db) ?n" using reg by simp
    have "?n (scCodeHash old) < 2 ^ 64"
      using code_uses_le [of P "dbContract db" "scCodeHash old"] few by (simp add: few_slots_def)
    from releaseCode_ok [OF reg' code_uses_pos [OF ok Some co] this, of "rec \<noteq> None"]
    show ?thesis using Some old n' by (auto simp: db1_def)
  qed
  moreover have fr: "dbCode (delContract P rec db a) = dbCode db1"
    by (simp add: delContract_def Let_def db1_def trie_wrappers)
  ultimately show "store_ok P (delContract P rec db a)"
    using st by (auto simp: store_ok_def registry_ok_def slots_wf_def bucket_simps split: if_splits)
  show "getContract P (delContract P rec db a) b = getContract P db b" if "b \<noteq> a"
    using that ok \<open>reg_ok _ _ _ \<and> codes_agree _ _\<close>
    by (intro getContract_keep) (simp_all add: fr bucket_simps codes_keepI [OF reg])
qed

section \<open>Properties\<close>

text \<open>C23: writing a contract slot never fails on a consistent store and reads back. The slot that is
  read has the owner, the exported key and value lists and the code (by its hash) of the written contract,
  the reference counts of the code registry stay exact, and every other slot reads as before.\<close>

theorem setContract_reads_back:
  assumes "store_ok P db" "few_slots db" "rlp_ok P" "length (ctOwner ct) = AddressSize" "ctx_ok (ctContext ct)"
  shows "\<exists>db' ct'. setContract P rec db ct = Inr db' \<and> store_ok P db' \<and>
    getContract P db' (ctOwner ct) = Inr ct' \<and> slot_like P ct ct' \<and>
    (\<forall>a. a \<noteq> ctOwner ct \<longrightarrow> getContract P db' a = getContract P db a)"
  by (rule setContract_store [OF assms])

text \<open>A concrete slot codec for evaluation on examples.\<close>

primrec demo_list :: "bytes list \<Rightarrow> bytes \<Rightarrow> bytes" where
  "demo_list [] t = 0 # t"
| "demo_list (x # xs) t = 1 # demo_pair x (demo_list xs t)"

fun demo_unlist :: "nat \<Rightarrow> bytes \<Rightarrow> (bytes list \<times> bytes) option" where
  "demo_unlist 0 b = None"
| "demo_unlist (Suc n) [] = None"
| "demo_unlist (Suc n) (t # r) =
     (if t = 0 then Some ([], r)
      else case demo_unpair r of None \<Rightarrow> None
           | Some (x, r) \<Rightarrow> map_option (\<lambda>(xs, t). (x # xs, t)) (demo_unlist n r))"

lemma demo_unlist_list: "length xs < n \<Longrightarrow> demo_unlist n (demo_list xs t) = Some (xs, t)"
proof (induction xs arbitrary: n)
  case Nil
  then show ?case by (cases n) simp_all
next
  case (Cons x xs)
  then show ?case by (cases n) (simp_all add: demo_unpair_pair)
qed

lemma length_demo_pair: "length (demo_pair m a) = 2 * length m + 1 + length a"
  by (induction m) simp_all

lemma length_demo_list: "length xs + length t < length (demo_list xs t)"
  by (induction xs) (simp_all add: length_demo_pair)

definition demo_stored :: "storedContract \<Rightarrow> bytes" where
  "demo_stored sc = demo_pair (scOwner sc) (demo_pair (scCodeHash sc) (demo_list (scKeys sc) (demo_list (scValues sc) [])))"

definition demo_unstored :: "bytes \<Rightarrow> storedContract option" where
  "demo_unstored raw =
     (case demo_unpair raw of None \<Rightarrow> None
      | Some (owner, r) \<Rightarrow> if length owner \<noteq> AddressSize then None else
     (case demo_unpair r of None \<Rightarrow> None
      | Some (h, r) \<Rightarrow> (case demo_unlist (length r) r of None \<Rightarrow> None
      | Some (ks, r) \<Rightarrow> (case demo_unlist (length r) r of None \<Rightarrow> None
      | Some (vs, _) \<Rightarrow> Some \<lparr>scOwner = owner, scCodeHash = h, scKeys = ks, scValues = vs\<rparr>))))"

definition demo_store :: sprims where
  "demo_store = prims.extend demo_prims \<lparr>rlpStored = demo_stored, rlpStoredDec = demo_unstored\<rparr>"

lemma demo_store_simps [simp]:
  "Hash256 demo_store = pad32" "rlpStored demo_store = demo_stored" "rlpStoredDec demo_store = demo_unstored"
  by (simp_all add: demo_store_def demo_prims_def prims.defs)

lemma demo_stored_roundtrip: "length (scOwner sc) = AddressSize \<Longrightarrow> demo_unstored (demo_stored sc) = Some sc"
proof -
  have "length (scKeys sc) < length (demo_list (scKeys sc) (demo_list (scValues sc) []))"
    "length (scValues sc) < length (demo_list (scValues sc) [])"
    using length_demo_list [of "scKeys sc" "demo_list (scValues sc) []"] length_demo_list [of "scValues sc" "[]"] by simp_all
  then show "length (scOwner sc) = AddressSize \<Longrightarrow> demo_unstored (demo_stored sc) = Some sc"
    by (simp add: demo_unstored_def demo_stored_def demo_unpair_pair demo_unlist_list)
qed

lemma demo_store_rlp: "rlp_ok demo_store"
  by (simp add: rlp_ok_def demo_stored_roundtrip)

lemma store_ok_empty: "dbContract db = bempty \<Longrightarrow> dbCode db = bempty \<Longrightarrow> store_ok P db"
  by (simp add: store_ok_def slots_wf_def registry_ok_def reg_ok_def code_uses_def) (simp add: bempty_def)

definition demo_contract :: Contract where
  "demo_contract = SetActive (NewContract (replicate 32 5) [0x00, 0x61, 0x73, 0x6d] None) True"

lemma demo_contract_ok: "ctOwner demo_contract = replicate 32 5" "ctx_ok (ctContext demo_contract)"
  by (simp_all add: demo_contract_def SetActive_def NewContract_def ctx_ok_Set)

theorem setContract_reads_back_witness:
  "\<exists>db' ct'. setContract demo_store (Some 7) InitDB demo_contract = Inr db' \<and> store_ok demo_store db' \<and>
    getContract demo_store db' (ctOwner demo_contract) = Inr ct' \<and> slot_like demo_store demo_contract ct' \<and>
    (\<forall>a. a \<noteq> ctOwner demo_contract \<longrightarrow> getContract demo_store db' a = getContract demo_store InitDB a)"
  by (rule setContract_reads_back)
    (simp_all add: store_ok_empty few_slots_def demo_store_rlp demo_contract_ok AddressSize_def InitDB_def bempty_def)

end
