(* ===== verification/Journal.thy ===== *)
theory Journal
  imports Runs Registry
begin

text \<open>
  The journal of a contract run.  Rule induction over \<open>vm_run\<close> shows that a run keeps the journal well
  formed, moves coins without creating or destroying any, debits only contracts that were entered, never
  changes code or the reserved entries of a context, and keeps the storage-deposit escrow backed.  The
  flush writes each pending entry once; its result does not depend on the order in which Go iterates over
  the two maps.
\<close>

section \<open>Definitions\<close>

text \<open>Slots are filed under their owner and hold sorted contexts.\<close>

definition slots_ok :: "'p sprims_scheme \<Rightarrow> DB \<Rightarrow> bool" where
  "slots_ok P db \<longleftrightarrow> (\<forall>a acc. getContract P db a = Inr acc \<longrightarrow>
     ctOwner acc = a \<and> length a = AddressSize \<and> ctx_ok (ctContext acc))"

text \<open>What a run may not do to a slot: the code and every reserved entry but the deposit record stay.\<close>

definition slot_kept :: "Contract \<Rightarrow> Contract \<Rightarrow> bool" where
  "slot_kept orig acc \<longleftrightarrow> ctOwner acc = ctOwner orig \<and> ctSource acc = ctSource orig \<and> ctx_ok (ctContext acc) \<and>
     (\<forall>k. isReservedKey k \<and> k \<noteq> contextKeyRent \<longrightarrow> ctx_lookup (ctContext acc) k = ctx_lookup (ctContext orig) k)"

definition journal_ok :: "'p sprims_scheme \<Rightarrow> DB \<Rightarrow> vmJournal \<Rightarrow> bool" where
  "journal_ok P db j \<longleftrightarrow> distinct (map fst (jAccounts j)) \<and> distinct (map fst (jBalances j)) \<and>
     (\<forall>a b. map_of (jBalances j) a = Some b \<longrightarrow> length a = AddressSize \<and> 0 \<le> b) \<and>
     (\<forall>a acc. map_of (jAccounts j) a = Some acc \<longrightarrow> (\<exists>orig. getContract P db a = Inr orig \<and> slot_kept orig acc))"

definition jdelta :: "DB \<Rightarrow> vmJournal \<Rightarrow> int" where
  "jdelta db j = sum_list (map (\<lambda>(a, b). b - getBalance db a) (jBalances j))"

section \<open>Association lists and contexts\<close>

lemma sum_update:
  fixes f :: "'a \<times> 'b \<Rightarrow> int"
  shows "distinct (map fst xs) \<Longrightarrow> sum_list (map f (AList.update k v xs))
     = sum_list (map f xs) + f (k, v) - (case map_of xs k of None \<Rightarrow> 0 | Some w \<Rightarrow> f (k, w))"
proof (induction xs)
  case (Cons x xs)
  have "map_of xs (fst x) = None" using Cons.prems by (simp add: map_of_eq_None_iff)
  then show ?case using Cons by (cases x) (auto split: option.splits)
qed simp

lemma ctx_clone_lookup:
  assumes "ctx_ok ctx"
  shows "ctx_ok (ctx_Clone ctx)" "ctx_lookup (ctx_Clone ctx) = ctx_lookup ctx"
proof -
  have fold: "distinct (map fst (acc @ xs)) \<Longrightarrow> foldl (\<lambda>m (k, v). AList.update k v m) acc xs = acc @ xs"
    for acc xs :: "(bytes \<times> bytes) list"
  proof (induction xs arbitrary: acc)
    case (Cons x xs)
    obtain k v where x: "x = (k, v)" by (cases x)
    have "AList.update k v acc = acc @ [(k, v)]" if "k \<notin> fst ` set acc"
      using that by (induction acc) auto
    with Cons show ?case by (force simp: x)
  qed simp
  have "foldl (\<lambda>m (k, v). AList.update k v m) [] (valMap ctx) = valMap ctx"
    using fold [of "[]" "valMap ctx"] valMap_distinct [OF assms] by simp
  then have clone: "ctx_Clone ctx = splitMap (NewContractContext\<lparr>ccMap := Some (valMap ctx)\<rparr>)"
    by (simp add: ctx_Clone_def)
  show "ctx_ok (ctx_Clone ctx)" "ctx_lookup (ctx_Clone ctx) = ctx_lookup ctx"
    unfolding clone using splitMap_ok [OF _ valMap_distinct [OF assms], of "NewContractContext\<lparr>ccMap := Some (valMap ctx)\<rparr>"]
    by (simp_all add: ctx_lookup_def [abs_def])
qed

section \<open>Single moves\<close>

lemma balanceOf_update:
  "balanceOf db (j\<lparr>jBalances := AList.update a x (jBalances j)\<rparr>) b = (if b = a then x else balanceOf db j b)"
  by (simp add: balanceOf_def update_conv')

lemma jdelta_update:
  "distinct (map fst (jBalances j)) \<Longrightarrow>
   jdelta db (j\<lparr>jBalances := AList.update a x (jBalances j)\<rparr>) = jdelta db j + x - balanceOf db j a"
  by (simp add: jdelta_def sum_update balanceOf_def split: option.splits)

lemma transfer_split:
  assumes "journal_transfer db j from to v = Inr j'"
  obtains j1 where "0 \<le> v" "v \<le> balanceOf db j from"
    "j1 = j\<lparr>jBalances := AList.update from (balanceOf db j from - v) (jBalances j)\<rparr>"
    "j' = j1\<lparr>jBalances := AList.update to (balanceOf db j1 to + v) (jBalances j1)\<rparr>"
  using assms by (auto simp: journal_transfer_def Let_def split: if_splits)

lemma transfer_balance:
  assumes "journal_transfer db j from to v = Inr j'"
  shows "balanceOf db j' a = balanceOf db j a - (if a = from then v else 0) + (if a = to then v else 0)"
proof -
  obtain j1 where j: "j1 = j\<lparr>jBalances := AList.update from (balanceOf db j from - v) (jBalances j)\<rparr>"
    "j' = j1\<lparr>jBalances := AList.update to (balanceOf db j1 to + v) (jBalances j1)\<rparr>"
    using assms by (rule transfer_split)
  have "balanceOf db j' a = (if a = to then balanceOf db j1 to + v else balanceOf db j1 a)"
    unfolding j(2) by (rule balanceOf_update)
  moreover have "balanceOf db j1 b = (if b = from then balanceOf db j from - v else balanceOf db j b)" for b
    unfolding j(1) by (rule balanceOf_update)
  ultimately show ?thesis by auto
qed

lemma transfer_bound: "journal_transfer db j from to v = Inr j' \<Longrightarrow> 0 \<le> v \<and> v \<le> balanceOf db j from"
  by (auto elim: transfer_split)

lemma transfer_delta:
  assumes "journal_transfer db j from to v = Inr j'" "distinct (map fst (jBalances j))"
  shows "jdelta db j' = jdelta db j"
proof -
  obtain j1 where j: "j1 = j\<lparr>jBalances := AList.update from (balanceOf db j from - v) (jBalances j)\<rparr>"
    "j' = j1\<lparr>jBalances := AList.update to (balanceOf db j1 to + v) (jBalances j1)\<rparr>"
    using assms(1) by (rule transfer_split)
  have d: "distinct (map fst (jBalances j1))" using assms(2) by (simp add: j(1) AList.distinct_update)
  show ?thesis using jdelta_update [OF assms(2), of db "from"] jdelta_update [OF d, of db to] by (simp add: j)
qed

lemma balanceOf_nonneg: "journal_ok P db j \<Longrightarrow> 0 \<le> balanceOf db j a"
  by (auto simp: journal_ok_def balanceOf_def split: option.splits)

lemma journal_ok_balance:
  "journal_ok P db j \<Longrightarrow> length a = AddressSize \<Longrightarrow> 0 \<le> x \<Longrightarrow>
   journal_ok P db (j\<lparr>jBalances := AList.update a x (jBalances j)\<rparr>)"
  by (auto simp: journal_ok_def update_conv' AList.distinct_update split: if_splits)

lemma journal_ok_transfer:
  assumes "journal_transfer db j from to v = Inr j'" "journal_ok P db j"
    "length from = AddressSize" "length to = AddressSize"
  shows "journal_ok P db j'"
proof -
  obtain j1 where j: "0 \<le> v" "v \<le> balanceOf db j from"
    "j1 = j\<lparr>jBalances := AList.update from (balanceOf db j from - v) (jBalances j)\<rparr>"
    "j' = j1\<lparr>jBalances := AList.update to (balanceOf db j1 to + v) (jBalances j1)\<rparr>"
    using assms(1) by (rule transfer_split)
  have "journal_ok P db j1" unfolding j(3) by (rule journal_ok_balance) (use assms j in auto)
  then show ?thesis unfolding j(4)
    by (rule journal_ok_balance) (use assms j(1) balanceOf_nonneg [OF \<open>journal_ok P db j1\<close>, of to] in auto)
qed

lemma slot_kept_clone: "ctx_ok (ctContext acc) \<Longrightarrow> slot_kept acc (acc\<lparr>ctContext := ctx_Clone (ctContext acc)\<rparr>)"
  by (simp add: slot_kept_def ctx_clone_lookup)

lemma journal_ok_load:
  "contractOf P db j a = Inr (acc, j') \<Longrightarrow> slots_ok P db \<Longrightarrow> journal_ok P db j \<Longrightarrow> journal_ok P db j'"
  by (auto simp: contractOf_def Let_def result_simps journal_ok_def update_conv' AList.distinct_update slots_ok_def
      intro!: slot_kept_clone split: option.splits if_splits)

lemma journal_ok_write:
  assumes "journal_ok P db (vmJ vm)" "\<And>orig acc. slot_kept orig acc \<Longrightarrow> slot_kept orig (acc\<lparr>ctContext := f (ctContext acc)\<rparr>)"
  shows "journal_ok P db (vmJ (vmContext_write f vm))"
proof (cases "map_of (jAccounts (vmJ vm)) (currentAddress vm)")
  case (Some acc)
  then obtain orig where "getContract P db (currentAddress vm) = Inr orig" "slot_kept orig acc"
    using assms(1) unfolding journal_ok_def by blast
  then show ?thesis using assms Some
    by (auto simp: vmContext_write_def journal_ok_def update_conv' AList.distinct_update)
qed (simp add: vmContext_write_def assms(1))

lemma slot_kept_set: "\<not> isReservedKey k \<Longrightarrow> slot_kept orig acc \<Longrightarrow> slot_kept orig (acc\<lparr>ctContext := ctx_Set (ctContext acc) k v\<rparr>)"
  and slot_kept_del: "\<not> isReservedKey k \<Longrightarrow> slot_kept orig acc \<Longrightarrow> slot_kept orig (acc\<lparr>ctContext := ctx_Del (ctContext acc) k\<rparr>)"
  and slot_kept_rent: "slot_kept orig acc \<Longrightarrow> slot_kept orig (acc\<lparr>ctContext := setLockedDeposit (ctContext acc) d\<rparr>)"
  by (auto simp: slot_kept_def ctx_simps setLockedDeposit_def)

section \<open>Runs\<close>

definition frames_ok :: "'i VM \<Rightarrow> bool" where
  "frames_ok vm \<longleftrightarrow> vmFrames vm \<noteq> [] \<and> (\<forall>f \<in> set (vmFrames vm). length f = AddressSize)"

lemma frames_current: "frames_ok vm \<Longrightarrow> length (currentAddress vm) = AddressSize"
  by (simp add: frames_ok_def currentAddress_def)

lemma callee_slot: "slots_ok P db \<Longrightarrow> callee P db a \<Longrightarrow> length a = AddressSize \<and> (\<exists>acc. getContract P db a = Inr acc)"
  by (auto simp: slots_ok_def callee_def)

lemma frames_ok_upd [simp]:
  "frames_ok (vm\<lparr>vmToll := t\<rparr>) = frames_ok vm" "frames_ok (vm\<lparr>vmEvents := ev\<rparr>) = frames_ok vm"
  "frames_ok (vm\<lparr>vmTrace := tr\<rparr>) = frames_ok vm" "frames_ok (vm\<lparr>vmBufs := b\<rparr>) = frames_ok vm"
  "frames_ok (vm\<lparr>vmCallArgs := s\<rparr>) = frames_ok vm" "frames_ok (vm\<lparr>vmJ := j\<rparr>) = frames_ok vm"
  "frames_ok (vm\<lparr>vmModules := ms\<rparr>) = frames_ok vm" "frames_ok (vmContext_write g vm) = frames_ok vm"
  by (simp_all add: frames_ok_def)

lemma frames_ok_push: "frames_ok vm \<Longrightarrow> length a = AddressSize \<Longrightarrow> frames_ok (vm\<lparr>vmFrames := vmFrames vm @ [a]\<rparr>)"
  by (simp add: frames_ok_def)

lemma vm_run_frames_ok: "vm_run P db vm vm' \<Longrightarrow> frames_ok vm \<Longrightarrow> frames_ok vm'"
  by (simp add: frames_ok_def vm_run_frames)

lemma vm_run_journal_ok:
  assumes "vm_run P db vm vm'" and sl: "slots_ok P db" and "frames_ok vm" "journal_ok P db (vmJ vm)"
  shows "journal_ok P db (vmJ vm')"
  using assms(1,3,4)
proof (induction rule: vm_run.induct)
  case (run_call vm vm1 a vm2)
  have f: "frames_ok vm1" by (rule vm_run_frames_ok [OF run_call.hyps(1) run_call.prems(1)])
  have "frames_ok (vm1\<lparr>vmFrames := vmFrames vm1 @ [a]\<rparr>)"
    by (rule frames_ok_push [OF f]) (use callee_slot [OF sl run_call.hyps(2)] in blast)
  from run_call.IH(2) [OF this] run_call.IH(1) [OF run_call.prems] show ?case by simp
next
  case (run_lock vm vm1 amount j acc j')
  have f: "frames_ok vm1" by (rule vm_run_frames_ok [OF run_lock.hyps(1) run_lock.prems(1)])
  have "journal_ok P db j"
    by (rule journal_ok_transfer [OF run_lock.hyps(3) run_lock.IH [OF run_lock.prems] frames_current [OF f] escrow_length])
  then have "journal_ok P db j'" by (rule journal_ok_load [OF run_lock.hyps(4) sl])
  then show ?case by (intro journal_ok_write) (simp_all add: slot_kept_rent)
next
  case (run_refund vm vm1 pay acc j)
  have f: "frames_ok vm1" by (rule vm_run_frames_ok [OF run_refund.hyps(1) run_refund.prems(1)])
  have "journal_ok P db j"
    by (rule journal_ok_transfer [OF run_refund.hyps(5) run_refund.IH [OF run_refund.prems] escrow_length frames_current [OF f]])
  then show ?case by (intro journal_ok_write) (simp_all add: slot_kept_rent)
next
  case (run_transfer vm vm1 to v j)
  have f: "frames_ok vm1" by (rule vm_run_frames_ok [OF run_transfer.hyps(1) run_transfer.prems(1)])
  show ?case
    using journal_ok_transfer [OF run_transfer.hyps(3) run_transfer.IH [OF run_transfer.prems] frames_current [OF f]
        run_transfer.hyps(2)] by simp
next
  case (run_load vm vm1 a acc j)
  show ?case using journal_ok_load [OF run_load.hyps(2) sl run_load.IH [OF run_load.prems]] by simp
next
  case (run_set vm vm1 k v)
  show ?case using run_set.IH [OF run_set.prems] by (rule journal_ok_write) (rule slot_kept_set [OF run_set.hyps(2)])
next
  case (run_del vm vm1 k)
  show ?case using run_del.IH [OF run_del.prems] by (rule journal_ok_write) (rule slot_kept_del [OF run_del.hyps(2)])
qed simp_all

lemma journal_ok_distinct: "journal_ok P db j \<Longrightarrow> distinct (map fst (jBalances j))"
  by (simp add: journal_ok_def)

lemma jdelta_cong: "jBalances j' = jBalances j \<Longrightarrow> jdelta db j' = jdelta db j"
  and balanceOf_cong: "jBalances j' = jBalances j \<Longrightarrow> balanceOf db j' a = balanceOf db j a"
  by (simp_all add: jdelta_def balanceOf_def)

lemma jdelta_write [simp]: "jdelta db (vmJ (vmContext_write f vm)) = jdelta db (vmJ vm)"
  and balanceOf_write [simp]: "balanceOf db (vmJ (vmContext_write f vm)) a = balanceOf db (vmJ vm) a"
  by (simp_all add: jdelta_def balanceOf_def)

lemma not_current:
  "vm_run P db vm vm1 \<Longrightarrow> vmFrames vm \<noteq> [] \<Longrightarrow> x \<notin> set (vmFrames vm) \<Longrightarrow> x \<noteq> currentAddress vm1"
  by (metis currentAddress_def last_in_set vm_run_frames)

lemma frames_ok_ne: "frames_ok vm \<Longrightarrow> vmFrames vm \<noteq> []"
  by (simp add: frames_ok_def)

text \<open>Coins are moved, never made.\<close>

lemma vm_run_delta:
  assumes "vm_run P db vm vm'" and sl: "slots_ok P db" and "frames_ok vm" "journal_ok P db (vmJ vm)"
  shows "jdelta db (vmJ vm') = jdelta db (vmJ vm)"
  using assms(1,3,4)
proof (induction rule: vm_run.induct)
  case (run_call vm vm1 a vm2)
  have f: "frames_ok vm1" by (rule vm_run_frames_ok [OF run_call.hyps(1) run_call.prems(1)])
  have "frames_ok (vm1\<lparr>vmFrames := vmFrames vm1 @ [a]\<rparr>)"
    by (rule frames_ok_push [OF f]) (use callee_slot [OF sl run_call.hyps(2)] in blast)
  from run_call.IH(2) [OF this] run_call.IH(1) [OF run_call.prems]
    vm_run_journal_ok [OF run_call.hyps(1) sl run_call.prems] show ?case by simp
next
  case (run_lock vm vm1 amount j acc j')
  note d = journal_ok_distinct [OF vm_run_journal_ok [OF run_lock.hyps(1) sl run_lock.prems]]
  show ?case using transfer_delta [OF run_lock.hyps(3) d] run_lock.IH [OF run_lock.prems]
      jdelta_cong [OF contractOf_balances [OF run_lock.hyps(4)]] by simp
next
  case (run_refund vm vm1 pay acc j)
  note d = journal_ok_distinct [OF vm_run_journal_ok [OF run_refund.hyps(1) sl run_refund.prems]]
  show ?case using transfer_delta [OF run_refund.hyps(5) d] run_refund.IH [OF run_refund.prems] by simp
next
  case (run_transfer vm vm1 to v j)
  note d = journal_ok_distinct [OF vm_run_journal_ok [OF run_transfer.hyps(1) sl run_transfer.prems]]
  show ?case using transfer_delta [OF run_transfer.hyps(3) d] run_transfer.IH [OF run_transfer.prems] by simp
next
  case (run_load vm vm1 a acc j)
  show ?case using jdelta_cong [OF contractOf_balances [OF run_load.hyps(2)]] run_load.IH [OF run_load.prems] by simp
qed simp_all

text \<open>An account that is not executing, not callable and not the escrow is never debited.\<close>

lemma vm_run_no_debit:
  assumes "vm_run P db vm vm'" and c: "\<not> callee P db x" and e: "x \<noteq> storageDepositEscrowAddr"
    and "vmFrames vm \<noteq> []" "x \<notin> set (vmFrames vm)"
  shows "balanceOf db (vmJ vm) x \<le> balanceOf db (vmJ vm') x"
  using assms(1,4,5)
proof (induction rule: vm_run.induct)
  case (run_call vm vm1 a vm2)
  have f: "vmFrames vm1 = vmFrames vm" by (rule vm_run_frames [OF run_call.hyps(1)])
  have "x \<noteq> a" using c run_call.hyps(2) by blast
  with run_call.IH(1) [OF run_call.prems] run_call.IH(2) run_call.prems f show ?case by simp
next
  case (run_lock vm vm1 amount j acc j')
  have "x \<noteq> currentAddress vm1"
    by (rule not_current [OF run_lock.hyps(1) run_lock.prems])
  then show ?case using transfer_balance [OF run_lock.hyps(3), of x] e run_lock.IH [OF run_lock.prems]
      balanceOf_cong [OF contractOf_balances [OF run_lock.hyps(4)], of db x] by simp
next
  case (run_refund vm vm1 pay acc j)
  show ?case using transfer_balance [OF run_refund.hyps(5), of x] e run_refund.IH [OF run_refund.prems] run_refund.hyps(2)
    by (auto split: if_splits)
next
  case (run_transfer vm vm1 to v j)
  have "x \<noteq> currentAddress vm1"
    by (rule not_current [OF run_transfer.hyps(1) run_transfer.prems])
  then show ?case using transfer_balance [OF run_transfer.hyps(3), of x] run_transfer.IH [OF run_transfer.prems]
      transfer_bound [OF run_transfer.hyps(3)] by (auto split: if_splits)
next
  case (run_load vm vm1 a acc j)
  show ?case using balanceOf_cong [OF contractOf_balances [OF run_load.hyps(2)], of db x] run_load.IH [OF run_load.prems] by simp
qed simp_all

section \<open>Storage deposits stay backed\<close>

text \<open>How much more deposit the contexts of the journal record than the stored slots do.\<close>

definition locked_delta :: "'p sprims_scheme \<Rightarrow> DB \<Rightarrow> vmJournal \<Rightarrow> int" where
  "locked_delta P db j = sum_list (map (\<lambda>(a, acc). lockedDeposit (ctContext acc) -
     (case getContract P db a of Inl _ \<Rightarrow> 0 | Inr orig \<Rightarrow> lockedDeposit (ctContext orig))) (jAccounts j))"

lemma lockedDeposit_nonneg: "0 \<le> lockedDeposit ctx"
  by (simp add: lockedDeposit_def Let_def)

lemma lockedDeposit_cong: "ctx_lookup c contextKeyRent = ctx_lookup c' contextKeyRent \<Longrightarrow> lockedDeposit c = lockedDeposit c'"
  by (simp add: lockedDeposit_def ctx_Get_lookup)

lemma lockedDeposit_set: "ctx_ok ctx \<Longrightarrow> 0 \<le> d \<Longrightarrow> lockedDeposit (setLockedDeposit ctx d) = d"
  by (simp add: lockedDeposit_def setLockedDeposit_def ctx_simps Let_def)

lemma rent_reserved: "isReservedKey contextKeyRent"
  by (simp add: isReservedKey_def contextKeyRent_def has_prefix_def str_def AddressSize_def)

lemma locked_delta_load:
  assumes "contractOf P db j a = Inr (acc, j')" "slots_ok P db" "journal_ok P db j"
  shows "locked_delta P db j' = locked_delta P db j"
proof (cases "map_of (jAccounts j) a")
  case None
  then obtain orig where o: "getContract P db a = Inr orig"
    "j' = j\<lparr>jAccounts := AList.update a (orig\<lparr>ctContext := ctx_Clone (ctContext orig)\<rparr>) (jAccounts j)\<rparr>"
    using assms(1) by (auto simp: contractOf_def Let_def result_simps)
  then have "lockedDeposit (ctx_Clone (ctContext orig)) = lockedDeposit (ctContext orig)"
    using assms(2) by (intro lockedDeposit_cong) (simp add: slots_ok_def ctx_clone_lookup)
  then show ?thesis using assms(3) o None by (simp add: locked_delta_def sum_update journal_ok_def)
qed (use assms(1) in \<open>simp add: contractOf_def\<close>)

lemma locked_delta_write:
  assumes "map_of (jAccounts (vmJ vm)) (currentAddress vm) = Some acc" "journal_ok P db (vmJ vm)"
  shows "locked_delta P db (vmJ (vmContext_write f vm))
    = locked_delta P db (vmJ vm) + lockedDeposit (f (ctContext acc)) - lockedDeposit (ctContext acc)"
proof -
  have "distinct (map fst (jAccounts (vmJ vm)))" using assms(2) by (simp add: journal_ok_def)
  then show ?thesis using assms(1)
    by (simp add: vmContext_write_def locked_delta_def sum_update del: map_of_eq_Some_iff)
qed

lemma locked_delta_keep:
  assumes "journal_ok P db (vmJ vm)"
    "\<And>ctx. ctx_ok ctx \<Longrightarrow> ctx_lookup (f ctx) contextKeyRent = ctx_lookup ctx contextKeyRent"
  shows "locked_delta P db (vmJ (vmContext_write f vm)) = locked_delta P db (vmJ vm)"
proof (cases "map_of (jAccounts (vmJ vm)) (currentAddress vm)")
  case (Some acc)
  then have "ctx_ok (ctContext acc)" using assms(1) unfolding journal_ok_def slot_kept_def by blast
  with locked_delta_write [OF Some assms(1), of f] lockedDeposit_cong [OF assms(2)] show ?thesis by simp
qed (simp add: vmContext_write_def)

lemma locked_delta_cong: "jAccounts j' = jAccounts j \<Longrightarrow> locked_delta P db j' = locked_delta P db j"
  by (simp add: locked_delta_def)

lemma vm_run_backed:
  assumes "vm_run P db vm vm'" and sl: "slots_ok P db" and ce: "\<not> callee P db storageDepositEscrowAddr"
    and "frames_ok vm" "journal_ok P db (vmJ vm)" "storageDepositEscrowAddr \<notin> set (vmFrames vm)"
  shows "balanceOf db (vmJ vm) storageDepositEscrowAddr - locked_delta P db (vmJ vm)
    \<le> balanceOf db (vmJ vm') storageDepositEscrowAddr - locked_delta P db (vmJ vm')"
  using assms(1,4-)
proof (induction rule: vm_run.induct)
  case (run_call vm vm1 a vm2)
  have f: "frames_ok vm1" by (rule vm_run_frames_ok [OF run_call.hyps(1) run_call.prems(1)])
  have f2: "frames_ok (vm1\<lparr>vmFrames := vmFrames vm1 @ [a]\<rparr>)"
    by (rule frames_ok_push [OF f]) (use callee_slot [OF sl run_call.hyps(2)] in blast)
  have "storageDepositEscrowAddr \<notin> set (vmFrames vm1 @ [a])"
    using ce run_call.hyps(2) run_call.prems(3) vm_run_frames [OF run_call.hyps(1)] by auto
  with run_call.IH(2) [OF f2] run_call.IH(1) [OF run_call.prems]
    vm_run_journal_ok [OF run_call.hyps(1) sl run_call.prems(1,2)] show ?case by simp
next
  case (run_lock vm vm1 amount j acc j')
  have f: "frames_ok vm1" by (rule vm_run_frames_ok [OF run_lock.hyps(1) run_lock.prems(1)])
  have cur: "storageDepositEscrowAddr \<noteq> currentAddress vm1"
    by (rule not_current [OF run_lock.hyps(1) frames_ok_ne [OF run_lock.prems(1)] run_lock.prems(3)])
  have ok: "journal_ok P db j"
    by (rule journal_ok_transfer [OF run_lock.hyps(3) vm_run_journal_ok [OF run_lock.hyps(1) sl run_lock.prems(1,2)]
        frames_current [OF f] escrow_length])
  note ok' = journal_ok_load [OF run_lock.hyps(4) sl ok] and acc = contractOf_map [OF run_lock.hyps(4)]
  have "ctx_ok (ctContext acc)" using ok' acc unfolding journal_ok_def slot_kept_def by blast
  then have "locked_delta P db (vmJ (vmContext_write (\<lambda>ctx. setLockedDeposit ctx (lockedDeposit ctx + amount)) (vm1\<lparr>vmJ := j'\<rparr>)))
      = locked_delta P db j' + amount"
    using locked_delta_write [of "vm1\<lparr>vmJ := j'\<rparr>" acc P db] acc ok' run_lock.hyps(2)
      lockedDeposit_set [of "ctContext acc" "lockedDeposit (ctContext acc) + amount"] lockedDeposit_nonneg [of "ctContext acc"]
    by simp
  then show ?case using transfer_balance [OF run_lock.hyps(3), of storageDepositEscrowAddr] cur run_lock.IH [OF run_lock.prems]
      balanceOf_cong [OF contractOf_balances [OF run_lock.hyps(4)], of db storageDepositEscrowAddr]
      locked_delta_load [OF run_lock.hyps(4) sl ok] locked_delta_cong [OF transfer_accounts [OF run_lock.hyps(3)], of P db]
    by simp
next
  case (run_refund vm vm1 pay acc j)
  have f: "frames_ok vm1" by (rule vm_run_frames_ok [OF run_refund.hyps(1) run_refund.prems(1)])
  have cur: "storageDepositEscrowAddr \<noteq> currentAddress vm1"
    by (rule not_current [OF run_refund.hyps(1) frames_ok_ne [OF run_refund.prems(1)] run_refund.prems(3)])
  have ok: "journal_ok P db j"
    by (rule journal_ok_transfer [OF run_refund.hyps(5) vm_run_journal_ok [OF run_refund.hyps(1) sl run_refund.prems(1,2)]
        escrow_length frames_current [OF f]])
  note tr = transfer_accounts [OF run_refund.hyps(5)]
  have "ctx_ok (ctContext acc)" using ok run_refund.hyps(3) tr unfolding journal_ok_def slot_kept_def by metis
  then have "locked_delta P db (vmJ (vmContext_write (\<lambda>ctx. setLockedDeposit ctx (lockedDeposit ctx - pay)) (vm1\<lparr>vmJ := j\<rparr>)))
      = locked_delta P db j - pay"
    using locked_delta_write [of "vm1\<lparr>vmJ := j\<rparr>" acc P db] run_refund.hyps(3) tr ok run_refund.hyps(4)
      lockedDeposit_set [of "ctContext acc" "lockedDeposit (ctContext acc) - pay"]
    by simp
  then show ?case using transfer_balance [OF run_refund.hyps(5), of storageDepositEscrowAddr] cur
      run_refund.IH [OF run_refund.prems] locked_delta_cong [OF tr, of P db] by simp
next
  case (run_transfer vm vm1 to v j)
  have "storageDepositEscrowAddr \<noteq> currentAddress vm1"
    by (rule not_current [OF run_transfer.hyps(1) frames_ok_ne [OF run_transfer.prems(1)] run_transfer.prems(3)])
  then show ?case using transfer_balance [OF run_transfer.hyps(3), of storageDepositEscrowAddr]
      run_transfer.IH [OF run_transfer.prems] transfer_bound [OF run_transfer.hyps(3)]
      locked_delta_cong [OF transfer_accounts [OF run_transfer.hyps(3)], of P db] by (auto split: if_splits)
next
  case (run_load vm vm1 a acc j)
  show ?case using balanceOf_cong [OF contractOf_balances [OF run_load.hyps(2)], of db storageDepositEscrowAddr]
      run_load.IH [OF run_load.prems]
      locked_delta_load [OF run_load.hyps(2) sl vm_run_journal_ok [OF run_load.hyps(1) sl run_load.prems(1,2)]] by simp
next
  case (run_set vm vm1 k v)
  have "k \<noteq> contextKeyRent" using run_set.hyps(2) rent_reserved by blast
  then show ?case using run_set.IH [OF run_set.prems]
      locked_delta_keep [OF vm_run_journal_ok [OF run_set.hyps(1) sl run_set.prems(1,2)], of "\<lambda>ctx. ctx_Set ctx k v"]
    by (simp add: ctx_simps)
next
  case (run_del vm vm1 k)
  have "k \<noteq> contextKeyRent" using run_del.hyps(2) rent_reserved by blast
  then show ?case using run_del.IH [OF run_del.prems]
      locked_delta_keep [OF vm_run_journal_ok [OF run_del.hyps(1) sl run_del.prems(1,2)], of "\<lambda>ctx. ctx_Del ctx k"]
    by (simp add: ctx_simps)
qed simp_all

section \<open>The flush\<close>

lemma length_bput_old:
  assumes "bucket_ok b" "bget b k \<noteq> None"
  shows "length (bput b k v) = length b"
proof -
  have "sum_list (map (\<lambda>_. 1 :: int) (bput b k v)) = sum_list (map (\<lambda>_. 1) b)"
    using sum_bput [OF assms(1), of "\<lambda>_. 1" k v] assms(2) by (auto simp del: sum_list_triv)
  then show ?thesis by (simp add: sum_list_triv)
qed

definition put_balances :: "'p prims_scheme \<Rightarrow> u64 option \<Rightarrow> DB \<Rightarrow> (Address \<times> int) list \<Rightarrow> DB" where
  "put_balances P rec db bs = foldl (\<lambda>db (a, x). setBalance P rec db a x) db bs"

lemma foldM_balances:
  "foldM (\<lambda>db (a, x). Inr (setBalance P r db a x)) bs db = Inr (put_balances P r db bs)"
  by (induction bs arbitrary: db) (auto simp: put_balances_def)

text \<open>What a run of balance writes leaves alone.\<close>

definition balances_only :: "DB \<Rightarrow> DB \<Rightarrow> bool" where
  "balances_only db db' \<longleftrightarrow> (\<exists>b c h t u. db' = db\<lparr>dbBal := b, csBal := c, histBal := h, dbTrie := t, dbTouched := u\<rparr>)"

lemma balances_onlyI:
  "db' = db\<lparr>dbBal := dbBal db', csBal := csBal db', histBal := histBal db', dbTrie := dbTrie db', dbTouched := dbTouched db'\<rparr> \<Longrightarrow>
   balances_only db db'"
  unfolding balances_only_def by blast

lemma balances_only_set: "balances_only db (setBalance P r db a x)"
  by (rule balances_onlyI)
    (simp add: setBalance_def trieSetBalance_def Let_def trieSetLeaf_def recordBal_def split: sum.splits option.splits)

lemma balances_only_refl [simp]: "balances_only db db"
  by (rule balances_onlyI) simp

lemma balances_only_trans: "balances_only a b \<Longrightarrow> balances_only b c \<Longrightarrow> balances_only a c"
  unfolding balances_only_def by fastforce

lemma balances_only_frame:
  assumes "balances_only db db'"
  shows "dbContract db' = dbContract db" "dbCode db' = dbCode db" "dbKey db' = dbKey db" "dbCommit db' = dbCommit db"
    "dbSpent db' = dbSpent db" "dbReceipt db' = dbReceipt db" "dbBeacon db' = dbBeacon db" "dbBlocks db' = dbBlocks db"
    "dbTxs db' = dbTxs db" "dbSnapshot db' = dbSnapshot db" "csKey db' = csKey db" "csBeacon db' = csBeacon db"
    "csContract db' = csContract db" "histContract db' = histContract db"
  using assms unfolding balances_only_def by auto

lemma put_balances_ok:
  assumes "distinct (map fst bs)" "\<And>a x. (a, x) \<in> set bs \<Longrightarrow> length a = AddressSize \<and> 0 \<le> x" "bucket_ok (dbBal db)"
  shows "balances_only db (put_balances P r db bs)" "state_steps P r db (put_balances P r db bs)"
    "bucket_ok (dbBal (put_balances P r db bs))"
    "getBalance (put_balances P r db bs) a = (case map_of bs a of None \<Rightarrow> getBalance db a | Some x \<Rightarrow> x)"
    "totalSupply (put_balances P r db bs) = totalSupply db + sum_list (map (\<lambda>(a, x). x - getBalance db a) bs)"
proof -
  have "balances_only db (put_balances P r db bs) \<and> state_steps P r db (put_balances P r db bs) \<and>
    bucket_ok (dbBal (put_balances P r db bs)) \<and>
    (\<forall>a. getBalance (put_balances P r db bs) a = (case map_of bs a of None \<Rightarrow> getBalance db a | Some x \<Rightarrow> x)) \<and>
    totalSupply (put_balances P r db bs) = totalSupply db + sum_list (map (\<lambda>(a, x). x - getBalance db a) bs)"
    using assms
  proof (induction bs arbitrary: db)
    case (Cons p bs)
    obtain k x where p: "p = (k, x)" by (cases p)
    let ?db = "setBalance P r db k x"
    have kx: "length k = AddressSize" "0 \<le> x" using Cons.prems(2) p by auto
    have fresh: "k \<notin> fst ` set bs" and d: "distinct (map fst bs)" using Cons.prems(1) p by auto
    have ih: "balances_only ?db (put_balances P r ?db bs) \<and> state_steps P r ?db (put_balances P r ?db bs) \<and>
      bucket_ok (dbBal (put_balances P r ?db bs)) \<and>
      (\<forall>a. getBalance (put_balances P r ?db bs) a = (case map_of bs a of None \<Rightarrow> getBalance ?db a | Some x \<Rightarrow> x)) \<and>
      totalSupply (put_balances P r ?db bs) = totalSupply ?db + sum_list (map (\<lambda>(a, x). x - getBalance ?db a) bs)"
      using Cons.prems(2,3) by (intro Cons.IH d) (auto simp: bucket_simps)
    have same: "map (\<lambda>(a, x). x - getBalance ?db a) bs = map (\<lambda>(a, x). x - getBalance db a) bs"
      using fresh by (intro map_cong refl) (force simp: getBalance_setBalance)
    have put: "put_balances P r db (p # bs) = put_balances P r ?db bs" by (simp add: put_balances_def p)
    have bal: "(case map_of bs a of None \<Rightarrow> getBalance ?db a | Some x \<Rightarrow> x)
        = (case map_of (p # bs) a of None \<Rightarrow> getBalance db a | Some x \<Rightarrow> x)" for a
    proof -
      have "map_of bs k = None" using fresh by (simp add: map_of_eq_None_iff)
      then show ?thesis using kx(2) by (cases "a = k") (simp_all add: p getBalance_setBalance split: option.splits)
    qed
    have sup: "totalSupply ?db = totalSupply db + x - getBalance db k"
      using Cons.prems(3) kx(2) by (simp add: supply_setBalance)
    have "balances_only db (put_balances P r db (p # bs))" "state_steps P r db (put_balances P r db (p # bs))"
      using ih balances_only_trans [OF balances_only_set] state_steps_trans [OF state_steps_step [OF step_balance [OF kx(1)]]]
      unfolding put by blast+
    with ih put bal sup same show ?case by (simp add: p)
  qed (simp add: put_balances_def)
  then show "balances_only db (put_balances P r db bs)" "state_steps P r db (put_balances P r db bs)"
    "bucket_ok (dbBal (put_balances P r db bs))"
    "getBalance (put_balances P r db bs) a = (case map_of bs a of None \<Rightarrow> getBalance db a | Some x \<Rightarrow> x)"
    "totalSupply (put_balances P r db bs) = totalSupply db + sum_list (map (\<lambda>(a, x). x - getBalance db a) bs)"
    by blast+
qed

text \<open>Every bucket but those of balances, slots, code and the state tree; the changesets and histories of balances and
  slots only change for a recorder.\<close>

definition run_frame :: "u64 option \<Rightarrow> DB \<Rightarrow> DB \<Rightarrow> bool" where
  "run_frame r db db' \<longleftrightarrow> dbBlocks db' = dbBlocks db \<and> dbTxs db' = dbTxs db \<and> dbKey db' = dbKey db \<and>
     dbCommit db' = dbCommit db \<and> dbSpent db' = dbSpent db \<and> dbSnapshot db' = dbSnapshot db \<and>
     dbReceipt db' = dbReceipt db \<and> csKey db' = csKey db \<and> dbBeacon db' = dbBeacon db \<and> csBeacon db' = csBeacon db \<and>
     (r = None \<longrightarrow> csBal db' = csBal db \<and> histBal db' = histBal db \<and> csContract db' = csContract db \<and>
       histContract db' = histContract db)"

lemma put_balances_unrecorded:
  "csBal (put_balances P None db bs) = csBal db" "histBal (put_balances P None db bs) = histBal db"
  by (induction bs arbitrary: db) (auto simp: put_balances_def recordBal_def bucket_simps)

definition slots_written :: "'p sprims_scheme \<Rightarrow> DB \<Rightarrow> (Address \<times> Contract) list \<Rightarrow> DB \<Rightarrow> bool" where
  "slots_written P db as db' \<longleftrightarrow> (\<forall>a. case map_of as a of
       None \<Rightarrow> getContract P db' a = getContract P db a
     | Some acc \<Rightarrow> \<exists>ct. getContract P db' a = Inr ct \<and> slot_like P acc ct)"

lemma put_slots_ok:
  assumes "store_ok P db" "few_slots db" and rlp: "rlp_ok P" and "distinct (map fst as)"
    and "\<And>a acc. (a, acc) \<in> set as \<Longrightarrow>
      ctOwner acc = a \<and> length a = AddressSize \<and> ctx_ok (ctContext acc) \<and> bget (dbContract db) a \<noteq> None"
  shows "\<exists>db'. foldM (\<lambda>db (addr, acc). setContract P r db acc) as db = Inr db' \<and> store_ok P db' \<and>
    length (dbContract db') = length (dbContract db) \<and> slots_written P db as db' \<and> state_steps P r db db' \<and>
    dbBal db' = dbBal db \<and> run_frame r db db'"
  using assms(1,2,4,5)
proof (induction as arbitrary: db)
  case (Cons p as)
  obtain k acc where p: "p = (k, acc)" by (cases p)
  have acc: "ctOwner acc = k" "length (ctOwner acc) = AddressSize" "ctx_ok (ctContext acc)" "bget (dbContract db) k \<noteq> None"
    using Cons.prems(4) [of k acc] p by simp_all
  obtain db1 ct1 where db1: "setContract P r db acc = Inr db1" "store_ok P db1" "getContract P db1 (ctOwner acc) = Inr ct1"
    "slot_like P acc ct1" "\<forall>a. a \<noteq> ctOwner acc \<longrightarrow> getContract P db1 a = getContract P db a"
    using setContract_store [OF Cons.prems(1,2) rlp acc(2,3), of r] by blast
  note fr = setContract_effect [OF db1(1)]
  have len: "length (dbContract db1) = length (dbContract db)"
    using Cons.prems(1) acc by (simp add: fr length_bput_old store_ok_def)
  have "few_slots db1" using Cons.prems(2) len by (simp add: few_slots_def)
  moreover have d: "distinct (map fst as)" and fresh: "map_of as k = None"
    using Cons.prems(3) p by (auto simp: map_of_eq_None_iff)
  moreover have "ctOwner acc' = a \<and> length a = AddressSize \<and> ctx_ok (ctContext acc') \<and> bget (dbContract db1) a \<noteq> None"
    if "(a, acc') \<in> set as" for a acc'
    using Cons.prems(4) [of a acc'] that by (simp add: fr bucket_simps)
  ultimately obtain db' where db': "foldM (\<lambda>db (addr, acc). setContract P r db acc) as db1 = Inr db'" "store_ok P db'"
    "length (dbContract db') = length (dbContract db1)" "slots_written P db1 as db'" "state_steps P r db1 db'"
    "dbBal db' = dbBal db1" "run_frame r db1 db'"
    using Cons.IH [OF db1(2)] by blast
  have "slots_written P db (p # as) db'" unfolding slots_written_def
  proof
    fix a
    show "case map_of (p # as) a of None \<Rightarrow> getContract P db' a = getContract P db a
      | Some acc \<Rightarrow> \<exists>ct. getContract P db' a = Inr ct \<and> slot_like P acc ct"
      using spec [OF db'(4) [unfolded slots_written_def], of a] fresh db1(3-5) acc(1)
      by (cases "a = k") (auto simp: p split: option.splits)
  qed
  moreover have "state_steps P r db db'"
    by (rule state_steps_trans [OF state_steps_step [OF step_setContract [OF acc(2) db1(1)]] db'(5)])
  moreover have "run_frame r db db'" using db'(7) by (auto simp: run_frame_def fr recordContract_def)
  ultimately show ?case using db1(1) db' len fr(2) by (simp add: p)
qed (auto simp: slots_written_def run_frame_def)

lemma store_slots:
  assumes "store_ok P db" "db_wf db"
  shows "slots_ok P db"
  unfolding slots_ok_def
proof (intro allI impI)
  fix a acc assume "getContract P db a = Inr acc"
  then obtain raw sc where raw: "bget (dbContract db) a = Some raw" "rlpStoredDec P raw = Some sc"
    "acc = \<lparr>ctOwner = scOwner sc, ctSource = loadCode db (scCodeHash sc),
      ctContext = \<lparr>ccKeys = scKeys sc, ccValues = scValues sc, ccMap = None\<rparr>\<rparr>"
    by (auto simp: getContract_def decodeStoredContract_def split: option.splits)
  moreover have "length a = AddressSize" using assms(2) raw(1) by (simp add: db_wf_def)
  moreover have "scOwner sc = a" "sorted_wrt (<) (scKeys sc)" "length (scValues sc) = length (scKeys sc)"
    using assms(1) raw(1,2) unfolding store_ok_def slots_wf_def by (metis option.inject)+
  ultimately show "ctOwner acc = a \<and> length a = AddressSize \<and> ctx_ok (ctContext acc)" by (simp add: ctx_ok_def)
qed

lemma flush_ok:
  assumes st: "store_ok P db" and few: "few_slots db" and rlp: "rlp_ok P" and bal: "bucket_ok (dbBal db)"
    and sl: "slots_ok P db" and j: "journal_ok P db j"
  obtains db' where "flush P r db j = Inr db'" "store_ok P db'" "length (dbContract db') = length (dbContract db)"
    "state_steps P r db db'" "\<And>a. getBalance db' a = balanceOf db j a" "totalSupply db' = totalSupply db + jdelta db j"
    "slots_written P db (jAccounts j) db'" "run_frame r db db'"
proof -
  let ?db1 = "put_balances P r db (jBalances j)"
  have "distinct (map fst (jBalances j))" using j by (simp add: journal_ok_def)
  moreover from this have "length a = AddressSize \<and> 0 \<le> x" if "(a, x) \<in> set (jBalances j)" for a x
    using j that unfolding journal_ok_def by (metis map_of_is_SomeI)
  ultimately have 1: "balances_only db ?db1" "state_steps P r db ?db1"
    "\<And>a. getBalance ?db1 a = (case map_of (jBalances j) a of None \<Rightarrow> getBalance db a | Some x \<Rightarrow> x)"
    "totalSupply ?db1 = totalSupply db + sum_list (map (\<lambda>(a, x). x - getBalance db a) (jBalances j))"
    using put_balances_ok [OF _ _ bal] by blast+
  note fr = balances_only_frame [OF 1(1)]
  have d: "distinct (map fst (jAccounts j))" using j by (simp add: journal_ok_def)
  have acc: "ctOwner acc = a \<and> length a = AddressSize \<and> ctx_ok (ctContext acc) \<and> bget (dbContract ?db1) a \<noteq> None"
    if "(a, acc) \<in> set (jAccounts j)" for a acc
  proof -
    have "map_of (jAccounts j) a = Some acc" using d that by simp
    then obtain orig where orig: "getContract P db a = Inr orig" "slot_kept orig acc"
      using j unfolding journal_ok_def by blast
    then have "bget (dbContract db) a \<noteq> None" by (auto simp: getContract_def split: option.splits)
    with orig sl show ?thesis by (auto simp: slot_kept_def slots_ok_def fr)
  qed
  have "store_ok P ?db1" "few_slots ?db1" using st few fr store_ok_cong [of ?db1 db P] by (simp_all add: few_slots_def)
  from put_slots_ok [OF this rlp d acc]
  obtain db' where db': "foldM (\<lambda>db (addr, acc). setContract P r db acc) (jAccounts j) ?db1 = Inr db'" "store_ok P db'"
    "length (dbContract db') = length (dbContract ?db1)" "slots_written P ?db1 (jAccounts j) db'" "state_steps P r ?db1 db'"
    "dbBal db' = dbBal ?db1" "run_frame r ?db1 db'" by blast
  have "flush P r db j = Inr db'"
    using db'(1) by (simp add: flush_def foldM_balances)
  moreover have "getBalance db' a = balanceOf db j a" for a
    using 1(3) [of a] db'(6) by (simp add: balanceOf_def getBalance_def)
  moreover have "totalSupply db' = totalSupply db + jdelta db j"
    using 1(4) db'(6) by (simp add: totalSupply_def jdelta_def)
  moreover have "slots_written P db (jAccounts j) db'"
  proof -
    have "getContract P ?db1 = getContract P db" by (intro ext getContract_cong fr)
    with db'(4) show ?thesis unfolding slots_written_def by metis
  qed
  moreover have "run_frame r db db'" using db'(7) fr by (auto simp: run_frame_def put_balances_unrecorded)
  ultimately show ?thesis using that db'(2,3) state_steps_trans [OF 1(2) db'(5)] fr(1) by simp
qed

end
