(* ===== verification/Execution.thy ===== *)
theory Execution
  imports Journal
begin

text \<open>
  A whole contract run, from \<^verbatim>\<open>NewVM\<close> to the flush of \<^verbatim>\<open>Run\<close>.  \<open>vm_state\<close> is the invariant of the machine
  between its steps; \<open>run_effect\<close> is what a successful run does to the database: the supply is conserved,
  no account outside the called contracts and the escrow loses coins, code and reserved entries stay, and
  the escrow covers the recorded deposits as well as before.
\<close>

section \<open>Definitions\<close>

text \<open>The storage deposit a stored slot records, and the total over all slots.\<close>

definition locked_of :: "'p sprims_scheme \<Rightarrow> bytes \<Rightarrow> int" where
  "locked_of P raw = (case rlpStoredDec P raw of
     None \<Rightarrow> 0 | Some sc \<Rightarrow> lockedDeposit \<lparr>ccKeys = scKeys sc, ccValues = scValues sc, ccMap = None\<rparr>)"

definition lockedTotal :: "'p sprims_scheme \<Rightarrow> DB \<Rightarrow> int" where
  "lockedTotal P db = sum_list (map (locked_of P \<circ> snd) (dbContract db))"

text \<open>A slot after a run: same owner, same code, same reserved entries but for the deposit record.\<close>

definition slot_preserved :: "'p sprims_scheme \<Rightarrow> Contract \<Rightarrow> Contract \<Rightarrow> bool" where
  "slot_preserved P ct ct' \<longleftrightarrow> ctOwner ct' = ctOwner ct \<and> Hash256 P (ctSource ct') = Hash256 P (ctSource ct) \<and>
     ctx_ok (ctContext ct') \<and>
     (\<forall>k. isReservedKey k \<and> k \<noteq> contextKeyRent \<longrightarrow> ctx_lookup (ctContext ct') k = ctx_lookup (ctContext ct) k)"

definition slots_preserved :: "'p sprims_scheme \<Rightarrow> DB \<Rightarrow> DB \<Rightarrow> bool" where
  "slots_preserved P db db' \<longleftrightarrow> (\<forall>a. case getContract P db a of
       Inl e \<Rightarrow> getContract P db' a = Inl e
     | Inr ct \<Rightarrow> \<exists>ct'. getContract P db' a = Inr ct' \<and> slot_preserved P ct ct')"

definition run_effect :: "'p sprims_scheme \<Rightarrow> u64 option \<Rightarrow> DB \<Rightarrow> DB \<Rightarrow> bool" where
  "run_effect P r db db' \<longleftrightarrow> store_ok P db' \<and> length (dbContract db') = length (dbContract db) \<and>
     state_steps P r db db' \<and> totalSupply db' = totalSupply db \<and>
     (\<forall>x. \<not> callee P db x \<longrightarrow> x \<noteq> storageDepositEscrowAddr \<longrightarrow> getBalance db x \<le> getBalance db' x) \<and>
     slots_preserved P db db' \<and> run_frame r db db' \<and>
     (\<not> callee P db storageDepositEscrowAddr \<longrightarrow>
       getBalance db storageDepositEscrowAddr - lockedTotal P db \<le> getBalance db' storageDepositEscrowAddr - lockedTotal P db')"

definition vm_state :: "('i, 'p) vprims_scheme \<Rightarrow> DB \<Rightarrow> Address \<Rightarrow> 'i VM \<Rightarrow> bool" where
  "vm_state P db self vm \<longleftrightarrow> modules_ok P db vm \<and> vmFrames vm = [self] \<and> journal_ok P db (vmJ vm) \<and>
     jdelta db (vmJ vm) = 0 \<and>
     (\<forall>x. \<not> callee P db x \<longrightarrow> x \<noteq> storageDepositEscrowAddr \<longrightarrow> getBalance db x \<le> balanceOf db (vmJ vm) x) \<and>
     (\<not> callee P db storageDepositEscrowAddr \<longrightarrow>
       getBalance db storageDepositEscrowAddr \<le> balanceOf db (vmJ vm) storageDepositEscrowAddr - locked_delta P db (vmJ vm))"

section \<open>The machine between its steps\<close>

lemma vm_state_cong:
  "vmModules vm' = vmModules vm \<Longrightarrow> vmFrames vm' = vmFrames vm \<Longrightarrow> vmJ vm' = vmJ vm \<Longrightarrow>
   vm_state P db self vm' = vm_state P db self vm"
  by (simp add: vm_state_def modules_ok_def)

lemma vm_state_run:
  assumes "vm_run P db vm vm'" "vm_state P db self vm" "slots_ok P db" "callee P db self"
  shows "vm_state P db self vm'"
proof -
  have s: "modules_ok P db vm" "vmFrames vm = [self]" "journal_ok P db (vmJ vm)" "jdelta db (vmJ vm) = 0"
    using assms(2) by (simp_all add: vm_state_def)
  have f: "frames_ok vm" using callee_slot [OF assms(3,4)] s(2) by (simp add: frames_ok_def)
  have "getBalance db x \<le> balanceOf db (vmJ vm') x" if "\<not> callee P db x" "x \<noteq> storageDepositEscrowAddr" for x
  proof -
    have "x \<notin> set (vmFrames vm)" using that(1) assms(4) s(2) by auto
    with vm_run_no_debit [OF assms(1) that, of] s(2) assms(2) that show ?thesis by (force simp: vm_state_def)
  qed
  moreover have "getBalance db storageDepositEscrowAddr
      \<le> balanceOf db (vmJ vm') storageDepositEscrowAddr - locked_delta P db (vmJ vm')"
    if ce: "\<not> callee P db storageDepositEscrowAddr"
  proof -
    have "storageDepositEscrowAddr \<notin> set (vmFrames vm)" using ce assms(4) s(2) by auto
    from vm_run_backed [OF assms(1,3) ce f s(3) this] assms(2) ce show ?thesis by (simp add: vm_state_def)
  qed
  ultimately show ?thesis
    using vm_run_modules [OF assms(1) s(1)] vm_run_frames [OF assms(1)] vm_run_journal_ok [OF assms(1,3) f s(3)]
      vm_run_delta [OF assms(1,3) f s(3)] s by (simp add: vm_state_def)
qed

lemma newVMJournal_ok:
  assumes "getContract P db self = Inr account" "slots_ok P db"
  shows "journal_ok P db (newVMJournal account)" "jdelta db (newVMJournal account) = 0"
    "balanceOf db (newVMJournal account) x = getBalance db x" "locked_delta P db (newVMJournal account) = 0"
proof -
  have own: "ctOwner account = self" "ctx_ok (ctContext account)" using assms by (auto simp: slots_ok_def)
  then have "lockedDeposit (ctx_Clone (ctContext account)) = lockedDeposit (ctContext account)"
    by (intro lockedDeposit_cong) (simp add: ctx_clone_lookup)
  then show "locked_delta P db (newVMJournal account) = 0"
    using assms(1) own(1) by (simp add: locked_delta_def newVMJournal_def)
  show "journal_ok P db (newVMJournal account)" "jdelta db (newVMJournal account) = 0"
    "balanceOf db (newVMJournal account) x = getBalance db x"
    using own assms(1) slot_kept_clone [OF own(2)]
    by (simp_all add: newVMJournal_def journal_ok_def jdelta_def balanceOf_def)
qed

lemma NewVM_state:
  assumes "NewVM n P db account tx t = Inr vm" "getContract P db self = Inr account" "slots_ok P db"
  shows "vm_state P db self vm"
proof -
  have own: "ctOwner account = self" using assms(2,3) by (auto simp: slots_ok_def)
  obtain m where m: "(case loadContractDeps maxDepChainDepth P (host n P db) db m
      \<lparr>vmCaller = tx, vmSelf = account, vmBlockTime = t, vmCs = None, vmJ = newVMJournal account, vmModule = m,
       vmModules = [], vmFrames = [ctOwner account], vmCallArgs = txExtra tx, vmEvents = [], vmTrace = [],
       vmToll = 0, vmTollPreburn = 0, vmBufs = replicate vmBufSlots []\<rparr> of
        (vm, Inl e) \<Rightarrow> Inl e | (vm, Inr _) \<Rightarrow> Inr vm) = Inr vm"
    using assms(1) by (auto simp: NewVM_def result_simps Let_def)
  let ?vm0 = "\<lparr>vmCaller = tx, vmSelf = account, vmBlockTime = t, vmCs = None, vmJ = newVMJournal account, vmModule = m,
       vmModules = [], vmFrames = [ctOwner account], vmCallArgs = txExtra tx, vmEvents = [], vmTrace = [],
       vmToll = 0, vmTollPreburn = 0, vmBufs = replicate vmBufSlots []\<rparr>"
  have s0: "vm_state P db self ?vm0"
    using newVMJournal_ok [OF assms(2,3)] own by (simp add: vm_state_def modules_ok_def)
  have "modules_ok P db ?vm0" by (simp add: modules_ok_def)
  from hst.loadContractDeps_runs [OF this, of maxDepChainDepth n m]
  have run: "vm_run P db ?vm0 (fst (loadContractDeps maxDepChainDepth P (host n P db) db m ?vm0))"
    by (simp add: runs_def)
  have "fst (loadContractDeps maxDepChainDepth P (host n P db) db m ?vm0) = vm"
    using m by (auto split: prod.splits sum.splits)
  moreover have "callee P db self" using assms(2) by (auto simp: callee_def)
  ultimately show ?thesis using vm_state_run [OF run s0 assms(3)] by simp
qed

lemma exec_state:
  assumes "vm_state P db self vm" "slots_ok P db" "callee P db self"
  shows "vm_state P db self (fst (exec P (host n P db) g vm))"
  by (rule vm_state_run [OF hst.exec_runs assms]) (use assms(1) in \<open>simp add: vm_state_def\<close>)

lemma call_entry_state:
  assumes "vm_state P db self vm" "slots_ok P db" "callee P db self" "call_entry n P db entry vm = (vm', r)"
  shows "vm_state P db self vm'"
proof -
  obtain vm1 ins r1 where 1: "exec P (host n P db) (instantiate P (vmModule vm) (map fst (vmModules vm))) vm = (vm1, ins, r1)"
    by (metis prod_cases3)
  then have s1: "vm_state P db self vm1"
    using exec_state [OF assms(1-3), of n "instantiate P (vmModule vm) (map fst (vmModules vm))"] by simp
  obtain vm2 ins2 r2 where 2: "exec P (host n P db) (callExport P ins entry []) vm1 = (vm2, ins2, r2)"
    by (metis prod_cases3)
  then have s2: "vm_state P db self vm2" using exec_state [OF s1 assms(2,3), of n "callExport P ins entry []"] by simp
  show ?thesis using assms(4) 1 2 s1 s2 by (cases r1; cases r2) (auto simp: call_entry_def)
qed

lemma vm_state_prepare [simp]:
  "vm_state P db self (LimitToll Q budget vm) = vm_state P db self vm"
  "vm_state P db self (fst (EntryFor Q entry vm)) = vm_state P db self vm"
  "vm_state P db self (vm\<lparr>vmCs := cs\<rparr>) = vm_state P db self vm"
  by (rule vm_state_cong; simp add: LimitToll_def EntryFor_def Let_def split: sum.splits prod.splits option.splits)+

section \<open>Deposits in the stored slots\<close>

definition put_slots :: "'p sprims_scheme \<Rightarrow> bucket \<Rightarrow> (Address \<times> Contract) list \<Rightarrow> bucket" where
  "put_slots P b as = foldl (\<lambda>b (a, acc). bput b (ctOwner acc) (rlpStored P (storedOf P acc))) b as"

lemma foldM_slots:
  "foldM (\<lambda>db (addr, acc). setContract P r db acc) as db = Inr db' \<Longrightarrow> dbContract db' = put_slots P (dbContract db) as"
proof (induction as arbitrary: db)
  case (Cons p as)
  obtain k acc where p: "p = (k, acc)" by (cases p)
  from Cons.prems obtain db1 where db1: "setContract P r db acc = Inr db1"
    "foldM (\<lambda>db (addr, acc). setContract P r db acc) as db1 = Inr db'"
    by (auto simp: p result_simps)
  from Cons.IH [OF db1(2)] setContract_effect(1) [OF db1(1)] show ?case by (simp add: p put_slots_def)
qed (simp add: put_slots_def)

lemma sum_put_slots:
  assumes "bucket_ok b" "distinct (map fst as)" "\<And>a acc. (a, acc) \<in> set as \<Longrightarrow> ctOwner acc = a"
  shows "sum_list (map (locked_of P \<circ> snd) (put_slots P b as)) = sum_list (map (locked_of P \<circ> snd) b)
    + sum_list (map (\<lambda>(a, acc). locked_of P (rlpStored P (storedOf P acc))
        - (case bget b a of None \<Rightarrow> 0 | Some raw \<Rightarrow> locked_of P raw)) as)"
  using assms
proof (induction as arbitrary: b)
  case (Cons p as)
  obtain k acc where p: "p = (k, acc)" by (cases p)
  have own: "ctOwner acc = k" using Cons.prems(3) p by simp
  let ?b = "bput b k (rlpStored P (storedOf P acc))"
  have d: "distinct (map fst as)" "k \<notin> fst ` set as" using Cons.prems(2) p by auto
  have "sum_list (map (\<lambda>(a, acc). locked_of P (rlpStored P (storedOf P acc)) - (case bget ?b a of None \<Rightarrow> 0 | Some raw \<Rightarrow> locked_of P raw)) as)
    = sum_list (map (\<lambda>(a, acc). locked_of P (rlpStored P (storedOf P acc)) - (case bget b a of None \<Rightarrow> 0 | Some raw \<Rightarrow> locked_of P raw)) as)"
    using d(2) by (intro arg_cong [of _ _ sum_list] map_cong refl) (force simp: bucket_simps)
  moreover have "put_slots P b (p # as) = put_slots P ?b as" by (simp add: put_slots_def p own)
  moreover have "sum_list (map (locked_of P \<circ> snd) ?b) = sum_list (map (locked_of P \<circ> snd) b)
      + locked_of P (rlpStored P (storedOf P acc)) - (case bget b k of None \<Rightarrow> 0 | Some raw \<Rightarrow> locked_of P raw)"
    using sum_bput [OF Cons.prems(1), of "locked_of P \<circ> snd" k] by (simp split: option.splits)
  moreover have "sum_list (map (locked_of P \<circ> snd) (put_slots P ?b as)) = sum_list (map (locked_of P \<circ> snd) ?b)
    + sum_list (map (\<lambda>(a, acc). locked_of P (rlpStored P (storedOf P acc))
        - (case bget ?b a of None \<Rightarrow> 0 | Some raw \<Rightarrow> locked_of P raw)) as)"
  proof (rule Cons.IH [OF bucket_ok_bput [OF Cons.prems(1)] d(1)])
    fix a acc' assume "(a, acc') \<in> set as"
    then show "ctOwner acc' = a" by (intro Cons.prems(3)) simp
  qed
  ultimately show ?case by (simp add: p o_def)
qed (simp add: put_slots_def)

lemma locked_of_stored:
  assumes "rlp_ok P" "length (ctOwner acc) = AddressSize" "ctx_ok (ctContext acc)"
  shows "locked_of P (rlpStored P (storedOf P acc)) = lockedDeposit (ctContext acc)"
proof -
  let ?c = "\<lparr>ccKeys = ccKeys (ctContext acc), ccValues = ccValues (ctContext acc), ccMap = None\<rparr>"
  have "ctx_ok ?c" using assms(3) by (simp add: ctx_ok_def)
  then have "ctx_lookup ?c = ctx_lookup (ctContext acc)" using assms(3) by (simp add: ctx_lookup_zip)
  then have "lockedDeposit ?c = lockedDeposit (ctContext acc)" by (intro lockedDeposit_cong) simp
  then show ?thesis using assms(1,2) by (simp add: locked_of_def rlp_ok_def storedOf_def)
qed

lemma locked_of_slot:
  "bget (dbContract db) a = Some raw \<Longrightarrow> getContract P db a = Inr ct \<Longrightarrow> locked_of P raw = lockedDeposit (ctContext ct)"
  by (auto simp: getContract_def decodeStoredContract_def locked_of_def split: option.splits)

lemma flush_locked:
  assumes "flush P r db j = Inr db'" "store_ok P db" "rlp_ok P" "slots_ok P db" "journal_ok P db j" "bucket_ok (dbBal db)"
  shows "lockedTotal P db' = lockedTotal P db + locked_delta P db j"
proof -
  let ?db1 = "put_balances P r db (jBalances j)"
  have d: "distinct (map fst (jAccounts j))" "distinct (map fst (jBalances j))" using assms(5) by (simp_all add: journal_ok_def)
  have "length a = AddressSize \<and> 0 \<le> x" if "(a, x) \<in> set (jBalances j)" for a x
    using assms(5) that d(2) unfolding journal_ok_def by (metis map_of_is_SomeI)
  from balances_only_frame(1) [OF put_balances_ok(1) [OF d(2) this assms(6), of P r]]
  have slots: "dbContract db' = put_slots P (dbContract db) (jAccounts j)"
    using assms(1) foldM_slots [of P r "jAccounts j" ?db1 db'] by (simp add: flush_def foldM_balances)
  have acc: "\<exists>orig raw. getContract P db a = Inr orig \<and> bget (dbContract db) a = Some raw \<and> ctOwner acc = a \<and>
      length (ctOwner acc) = AddressSize \<and> ctx_ok (ctContext acc)"
    if "(a, acc) \<in> set (jAccounts j)" for a acc
  proof -
    have "map_of (jAccounts j) a = Some acc" using d(1) that by simp
    then obtain orig where orig: "getContract P db a = Inr orig" "slot_kept orig acc"
      using assms(5) unfolding journal_ok_def by blast
    then obtain raw where "bget (dbContract db) a = Some raw" by (auto simp: getContract_def split: option.splits)
    with orig assms(4) show ?thesis by (auto simp: slot_kept_def slots_ok_def)
  qed
  have same: "map (\<lambda>(a, acc). locked_of P (rlpStored P (storedOf P acc))
      - (case bget (dbContract db) a of None \<Rightarrow> 0 | Some raw \<Rightarrow> locked_of P raw)) (jAccounts j)
    = map (\<lambda>(a, acc). lockedDeposit (ctContext acc)
      - (case getContract P db a of Inl _ \<Rightarrow> 0 | Inr orig \<Rightarrow> lockedDeposit (ctContext orig))) (jAccounts j)"
  proof (intro map_cong refl)
    fix p assume mem: "p \<in> set (jAccounts j)"
    obtain a acc where "p = (a, acc)" by (cases p)
    with mem have p: "p = (a, acc)" "(a, acc) \<in> set (jAccounts j)" by simp_all
    from acc [OF p(2)] show "(case p of (a, acc) \<Rightarrow> locked_of P (rlpStored P (storedOf P acc))
        - (case bget (dbContract db) a of None \<Rightarrow> 0 | Some raw \<Rightarrow> locked_of P raw))
      = (case p of (a, acc) \<Rightarrow> lockedDeposit (ctContext acc)
        - (case getContract P db a of Inl _ \<Rightarrow> 0 | Inr orig \<Rightarrow> lockedDeposit (ctContext orig)))"
      by (auto simp: p(1) locked_of_stored [OF assms(3)] locked_of_slot)
  qed
  have "bucket_ok (dbContract db)" using assms(2) by (simp add: store_ok_def)
  from sum_put_slots [OF this d(1), of P] acc show ?thesis
    unfolding lockedTotal_def slots locked_delta_def same [symmetric] by blast
qed

section \<open>The effect of a run\<close>

lemma slots_written_preserved:
  assumes "slots_written P db (jAccounts j) db'" "journal_ok P db j" "slots_ok P db'" "slots_ok P db"
  shows "slots_preserved P db db'"
  unfolding slots_preserved_def
proof
  fix a
  show "case getContract P db a of Inl e \<Rightarrow> getContract P db' a = Inl e
    | Inr ct \<Rightarrow> \<exists>ct'. getContract P db' a = Inr ct' \<and> slot_preserved P ct ct'"
  proof (cases "map_of (jAccounts j) a")
    case None
    then have "getContract P db' a = getContract P db a"
      using spec [OF assms(1) [unfolded slots_written_def], of a] by simp
    then show ?thesis using assms(4) by (auto simp: slot_preserved_def slots_ok_def split: sum.splits)
  next
    case (Some acc)
    then obtain ct orig where ct: "getContract P db' a = Inr ct" "slot_like P acc ct" "getContract P db a = Inr orig"
      "slot_kept orig acc"
      using spec [OF assms(1) [unfolded slots_written_def], of a] assms(2) unfolding journal_ok_def by fastforce
    have ok: "ctx_ok (ctContext ct)" "ctx_ok (ctContext acc)" using assms(3) ct by (auto simp: slots_ok_def slot_kept_def)
    have "ctx_lookup (ctContext ct) = ctx_lookup (ctContext acc)"
      using ct(2) by (simp add: ctx_lookup_zip [OF ok(1)] ctx_lookup_zip [OF ok(2)] slot_like_def)
    then show ?thesis using ct ok by (auto simp: slot_preserved_def slot_kept_def slot_like_def)
  qed
qed

lemma Run_ok:
  assumes "Run n P db entry vm = (vm', r)" "vm_state P db self vm" "callee P db self"
    "store_ok P db" "few_slots db" "rlp_ok P" "prims_ok P" "db_inv P db"
  shows "(\<exists>e. r = Inl e) \<or> (\<exists>db'. r = Inr db' \<and> run_effect P (vmCs vm') db db')"
proof -
  have inv: "db_ok db" "db_wf db" using assms(8) by (simp_all add: db_inv_def)
  have bal: "bucket_ok (dbBal db)" using inv(1) by (simp add: db_ok_def)
  note sl = store_slots [OF assms(4) inv(2)]
  obtain vm1 r1 where c: "call_entry n P db entry vm = (vm1, r1)" by (cases "call_entry n P db entry vm")
  show ?thesis
  proof (cases r1)
    case (Inl e)
    then show ?thesis using assms(1) c by (auto simp: Run_def)
  next
    case (Inr u)
    then have run: "vm' = vm1" "r = flush P (vmCs vm1) db (vmJ vm1)" using assms(1) c by (auto simp: Run_def)
    note s1 = call_entry_state [OF assms(2) sl assms(3) c]
    then have j: "journal_ok P db (vmJ vm1)" "jdelta db (vmJ vm1) = 0" by (simp_all add: vm_state_def)
    from flush_ok [OF assms(4-6) bal sl j(1), of "vmCs vm1"] obtain db' where
      db': "flush P (vmCs vm1) db (vmJ vm1) = Inr db'" "store_ok P db'" "length (dbContract db') = length (dbContract db)"
      "state_steps P (vmCs vm1) db db'" "\<And>a. getBalance db' a = balanceOf db (vmJ vm1) a"
      "totalSupply db' = totalSupply db + jdelta db (vmJ vm1)"
      "slots_written P db (jAccounts (vmJ vm1)) db'" "run_frame (vmCs vm1) db db'" by metis
    have "slots_ok P db'"
      using store_slots [OF db'(2)] db_inv_wf [OF state_steps_inv [OF db'(4) assms(7,8)]] by blast
    from slots_written_preserved [OF db'(7) j(1) this sl] have "slots_preserved P db db'" .
    moreover have "lockedTotal P db' = lockedTotal P db + locked_delta P db (vmJ vm1)"
      by (rule flush_locked [OF db'(1) assms(4,6) sl j(1) bal])
    ultimately have "run_effect P (vmCs vm1) db db'"
      using db' j(2) s1 by (auto simp: run_effect_def vm_state_def)
    then show ?thesis using run db'(1) by simp
  qed
qed

end
