(* ===== verification/Checks.thy ===== *)
theory Checks
  imports Commits Machine
begin

text \<open>
  The stateful validation of \<^verbatim>\<open>ngstate/state_check.go\<close>: the commit-reveal gate, the checks of transact and
  deploy transactions, the set of generate transactions of a block and the base-fee minimum.
\<close>

section \<open>Definitions\<close>

text \<open>\<^verbatim>\<open>(*big.Int).String\<close>: the decimal form.\<close>

fun dec_digits :: "nat \<Rightarrow> bytes" where
  "dec_digits n = (if n < 10 then [of_nat (48 + n)] else dec_digits (n div 10) @ [of_nat (48 + n mod 10)])"

declare dec_digits.simps [simp del]

definition bigString :: "int \<Rightarrow> bytes" where
  "bigString x = (if x < 0 then [45] else []) @ dec_digits (nat \<bar>x\<bar>)"

definition revealHash :: "'p prims_scheme \<Rightarrow> FullTx \<Rightarrow> bytes" where
  "revealHash P tx = Hash256 P (UnheightedHash P tx @ txSalt tx)"

definition checkReveal :: "'p prims_scheme \<Rightarrow> DB \<Rightarrow> FullTx \<Rightarrow> error + unit" where
  "checkReveal P db tx =
     (if txHeight tx = 0 then Inr ()
      else if length (txSalt tx) = 0 then Inl ErrTxNotCommitted
      else if length (txSalt tx) < MinSaltSize then Inl ErrSaltTooShort
      else bind_result (FullTx_From P tx) (\<lambda>from.
           case findCommit db from (revealHash P tx) (txHeight tx) of
             None \<Rightarrow> Inl ErrTxNotCommitted | Some _ \<Rightarrow> Inr ()))"

definition checkGenerate :: "'p prims_scheme \<Rightarrow> DB \<Rightarrow> FullTx \<Rightarrow> u64 \<Rightarrow> error + unit" where
  "checkGenerate P db generateTx blockHeight = CheckGenerate P generateTx blockHeight (keyResolver db)"

definition fromWithBalance :: "'p prims_scheme \<Rightarrow> DB \<Rightarrow> FullTx \<Rightarrow> int \<Rightarrow> error + Address" where
  "fromWithBalance P db tx expense =
     bind_result (FullTx_From P tx) (\<lambda>from.
       if getBalance db from < expense then Inl ErrTxrBalanceInsufficient else Inr from)"

definition checkTransaction :: "'p prims_scheme \<Rightarrow> DB \<Rightarrow> FullTx \<Rightarrow> error + unit" where
  "checkTransaction P db tx =
     bind_result (CheckTransaction P tx (keyResolver db)) (\<lambda>_.
     bind_result (fromWithBalance P db tx (TotalExpenditure tx)) (\<lambda>_. Inr ()))"

definition checkDeploy :: "('i, 'p) vprims_scheme \<Rightarrow> DB \<Rightarrow> FullTx \<Rightarrow> error + unit" where
  "checkDeploy P db deployTx =
     bind_result (CheckDeploy P deployTx (keyResolver db)) (\<lambda>_.
     bind_result (fromWithBalance P db deployTx (TotalExpenditure deployTx)) (\<lambda>from.
     bind_result (DecodeCommitCode P (txExtra deployTx)) (\<lambda>newSource.
       if length newSource > MaxContractSourceSize then Inl ErrSourceTooLarge
       else let slot = getContract P db from;
                live = (case slot of Inl _ \<Rightarrow> None
                        | Inr s \<Rightarrow> if IsActive s \<and> length (ctSource s) \<noteq> 0 then Some s else None)
            in if length newSource = 0
               then case live of
                      None \<Rightarrow> Inl ErrNothingToDestroy
                    | Some s \<Rightarrow> if \<not> contractHasExport P (ctSource s) EntryOnUpgrade then Inl ErrImmutable
                                else if getRefCount s > 0 then Inl ErrContractRefdBy else Inr ()
               else bind_result (LoadContractWasm P newSource) (\<lambda>_.
                    bind_result (extractContractDeps P newSource) (\<lambda>deps.
                    bind_result (foldM (\<lambda>_ depAddr. dep_live P db from depAddr) deps ()) (\<lambda>_.
                      case live of
                        None \<Rightarrow> Inr ()
                      | Some s \<Rightarrow> if \<not> contractHasExport P (ctSource s) EntryOnUpgrade then Inl ErrImmutable
                                  else Inr ()))))))"

definition CheckRevealExceptCommitment :: "('i, 'p) vprims_scheme \<Rightarrow> DB \<Rightarrow> FullTx \<Rightarrow> error + unit" where
  "CheckRevealExceptCommitment P db tx =
     (if \<not> FullTx_IsSigned tx then Inl ErrTxSignInvalid
      else if length (txExtra tx) > TxMaxExtraSize then Inl ErrTxExtraExcess
      else if txType tx = TransactTx then checkTransaction P db tx
      else if txType tx = DeployTx then checkDeploy P db tx
      else Inl ErrTxTypeInvalid)"

definition CheckTx :: "('i, 'p) vprims_scheme \<Rightarrow> DB \<Rightarrow> FullTx \<Rightarrow> error + unit" where
  "CheckTx P db tx =
     (if \<not> FullTx_IsSigned tx then Inl ErrTxSignInvalid
      else if length (txExtra tx) > TxMaxExtraSize then Inl ErrTxExtraExcess
      else if txType tx = GenerateTx then Inl ErrTxTypeInvalid
      else if txType tx = TransactTx then bind_result (checkReveal P db tx) (\<lambda>_. checkTransaction P db tx)
      else if txType tx = DeployTx then bind_result (checkReveal P db tx) (\<lambda>_. checkDeploy P db tx)
      else Inl ErrTxTypeInvalid)"

definition checkTxBaseFee :: "'p prims_scheme \<Rightarrow> FullBlock \<Rightarrow> FullTx \<Rightarrow> error + unit" where
  "checkTxBaseFee P block tx =
     (if \<not> IsForkActive (hdNetwork (bkHeader block)) ForkFeeMarket (hdHeight (bkHeader block)) then Inr ()
      else let minFee = SetBytes (hdBaseFee (bkHeader block)) * int (length (rlpTx P tx))
           in if txFee tx < minFee then Inl ErrTxFeeBelowBaseFee else Inr ())"

text \<open>The loop that splits the generates into the signed one and the unsigned ones.\<close>

definition split_generate ::
  "FullTx option \<times> FullTx list \<Rightarrow> FullTx \<Rightarrow> error + FullTx option \<times> FullTx list" where
  "split_generate acc tx =
     (case acc of (primary, uncleGens) \<Rightarrow>
        if txType tx \<noteq> GenerateTx then Inr (primary, uncleGens)
        else if FullTx_IsSigned tx
             then (if primary \<noteq> None then Inl ErrRewardInvalid else Inr (Some tx, uncleGens))
             else Inr (primary, uncleGens @ [tx]))"

text \<open>\<^verbatim>\<open>want\<close>: how often an uncle reward with this recipient and amount is still expected.\<close>

definition uncle_want :: "u64 \<Rightarrow> BlockHeader list \<Rightarrow> bytes \<Rightarrow> nat" where
  "uncle_want height uncles =
     foldl (\<lambda>want u. let key = hdCoinbase u @ bigString (UncleReward (hdHeight u) height)
        in want(key := want key + 1)) (\<lambda>_. 0) uncles"

definition check_uncle_gen :: "u64 \<Rightarrow> (bytes \<Rightarrow> nat) \<Rightarrow> FullTx \<Rightarrow> error + (bytes \<Rightarrow> nat)" where
  "check_uncle_gen height want g =
     (if txFee g \<noteq> 0 then Inl ErrTxFeeInvalid
      else if txHeight g \<noteq> height then Inl ErrRewardInvalid
      else let key = txTo g @ bigString (txValue g)
           in if want key = 0 then Inl ErrRewardInvalid else Inr (want(key := want key - 1)))"

definition checkBlockGenerates :: "'p prims_scheme \<Rightarrow> DB \<Rightarrow> FullBlock \<Rightarrow> error + unit" where
  "checkBlockGenerates P db block =
     (let height = hdHeight (bkHeader block)
      in bind_result (foldM split_generate (bkTxs block) (None, [])) (\<lambda>(primary, uncleGens).
         case primary of
           None \<Rightarrow> Inl ErrRewardInvalid
         | Some p \<Rightarrow>
             if txTo p \<noteq> hdCoinbase (bkHeader block) then Inl ErrRewardInvalid
             else bind_result (CheckGenerate P p height (keyResolver db)) (\<lambda>_.
                  if length uncleGens \<noteq> length (bkUncles block) then Inl ErrRewardInvalid
                  else bind_result (foldM (check_uncle_gen height) uncleGens (uncle_want height (bkUncles block)))
                         (\<lambda>_. Inr ()))))"

definition check_block_tx :: "('i, 'p) vprims_scheme \<Rightarrow> DB \<Rightarrow> FullBlock \<Rightarrow> FullTx \<Rightarrow> error + unit" where
  "check_block_tx P db block tx =
     (if txType tx = GenerateTx then Inr ()
      else if \<not> FullTx_IsSigned tx then Inl ErrTxUnsigned
      else if length (txExtra tx) > TxMaxExtraSize then Inl ErrTxExtraExcess
      else bind_result (CheckTx P db tx) (\<lambda>_. checkTxBaseFee P block tx))"

definition CheckBlockTxs :: "('i, 'p) vprims_scheme \<Rightarrow> DB \<Rightarrow> FullBlock \<Rightarrow> error + unit" where
  "CheckBlockTxs P db block =
     bind_result (checkBlockGenerates P db block) (\<lambda>_.
       foldM (\<lambda>_ tx. check_block_tx P db block tx) (bkTxs block) ())"

end
