(* ===== verification/Apply.thy ===== *)
theory Apply
  imports Checks
begin

text \<open>
  Applying a block to the state: \<^verbatim>\<open>ngstate/state_handle.go\<close> and the forward part of \<^verbatim>\<open>state.go\<close>.  The
  remaining block gas is threaded next to the database; \<open>None\<close> is the nil budget of callers without one.
  The fields \<^verbatim>\<open>Network\<close> and \<^verbatim>\<open>Archive\<close> of \<^verbatim>\<open>State\<close> are arguments, the changeset recorder is the optional
  height \<open>cs\<close>.
\<close>

section \<open>Definitions\<close>

subsection \<open>Contract runs\<close>

definition recordRun :: "('i, 'p) vprims_scheme \<Rightarrow> DB \<Rightarrow> FullTx \<Rightarrow> ContractRun \<Rightarrow> DB" where
  "recordRun P db tx run =
     (case appendContractRun P db (FullTx_GetHash P tx) (txHeight tx) run of Inl _ \<Rightarrow> db | Inr db \<Rightarrow> db)"

definition spend_gas :: "u64 option \<Rightarrow> u64 \<Rightarrow> u64 option" where
  "spend_gas gas used =
     (case gas of None \<Rightarrow> None | Some remaining \<Rightarrow> Some (if used \<ge> remaining then 0 else remaining - used))"

definition runContract ::
  "('i, 'p) vprims_scheme \<Rightarrow> u64 option \<Rightarrow> DB \<Rightarrow> Address \<Rightarrow> FullTx \<Rightarrow> bytes \<Rightarrow> u64 \<Rightarrow> u64 option \<Rightarrow>
   DB \<times> u64 option \<times> bool" where
  "runContract P cs db addr tx entry blockTime gas =
     (case getContract P db addr of
        Inl _ \<Rightarrow> (db, gas, False)
      | Inr account \<Rightarrow>
          if \<not> IsActive account \<or> length (ctSource account) = 0 then (db, gas, False)
          else
            let run = \<lparr>crContract = addr, crEntry = entry, crOk = False, crError = [], crGasUsed = 0,
                       crEvents = [], crTrace = []\<rparr>
            in if gas = Some 0
               then (recordRun P db tx (run\<lparr>crError := str ''block gas budget exhausted''\<rparr>), gas, False)
               else
                 (case NewVM vm_nesting P db account tx blockTime of
                    Inl e \<Rightarrow> (recordRun P db tx (run\<lparr>crError := errText P e\<rparr>), gas, False)
                  | Inr vm \<Rightarrow>
                      (case EntryFor P entry (vm\<lparr>vmCs := cs\<rparr>) of
                         (vm, entry) \<Rightarrow>
                           let run = run\<lparr>crEntry := entry\<rparr>;
                               vm = (case gas of None \<Rightarrow> vm
                                     | Some remaining \<Rightarrow> if remaining < vmMaxToll then LimitToll P remaining vm else vm)
                           in (case Run vm_nesting P db entry vm of
                                 (vm, result) \<Rightarrow>
                                   let run = run\<lparr>crGasUsed := GasUsed vm, crTrace := vmTrace vm\<rparr>;
                                       gas = spend_gas gas (GasUsed vm)
                                   in (case result of
                                         Inl e \<Rightarrow>
                                           if IsExportMissing e \<and> entry \<noteq> EntryOnTx then (db, gas, False)
                                           else (recordRun P db tx (run\<lparr>crError := errText P e\<rparr>), gas, False)
                                       | Inr db \<Rightarrow>
                                           (recordRun P db tx (run\<lparr>crOk := True, crEvents := vmEvents vm\<rparr>), gas, True))))))"

subsection \<open>Transactions\<close>

definition consumeReveal :: "'p prims_scheme \<Rightarrow> DB \<Rightarrow> FullTx \<Rightarrow> error + DB" where
  "consumeReveal P db tx =
     (if txHeight tx = 0 then Inr db
      else if length (txSalt tx) < MinSaltSize then Inl ErrSaltTooShort
      else bind_result (FullTx_From P tx) (\<lambda>from.
           let hash = revealHash P tx
           in case findCommit db from hash (txHeight tx) of
                None \<Rightarrow> Inl ErrTxNotCommitted
              | Some h \<Rightarrow> Inr (consumeCommit P (journalConsumed db (txHeight tx) h hash from) h hash)))"

definition runValidate ::
  "('i, 'p) vprims_scheme \<Rightarrow> u64 option \<Rightarrow> DB \<Rightarrow> FullTx \<Rightarrow> u64 \<Rightarrow> u64 option \<Rightarrow> error + DB \<times> u64 option" where
  "runValidate P cs db tx blockTime gas =
     bind_result (FullTx_From P tx) (\<lambda>from.
       case getContract P db from of
         Inl _ \<Rightarrow> Inr (db, gas)
       | Inr account \<Rightarrow>
           if \<not> IsActive account \<or> length (ctSource account) = 0 then Inr (db, gas)
           else if \<not> contractHasExport P (ctSource account) EntryOnValidate then Inr (db, gas)
           else case runContract P cs db from tx EntryOnValidate blockTime gas of
                  (db, gas, ok) \<Rightarrow> if \<not> ok then Inl ErrTxUnauthorized else Inr (db, gas))"

definition handleGenerate :: "('i, 'p) vprims_scheme \<Rightarrow> u64 option \<Rightarrow> DB \<Rightarrow> FullTx \<Rightarrow> error + DB" where
  "handleGenerate P cs db tx =
     bind_result (if length (txSign tx) \<noteq> 0
          then bind_result (FullTx_Verify P tx (keyResolver db)) (\<lambda>_. Inr (registerPubKey P cs db tx))
          else Inr db) (\<lambda>db.
       Inr (setBalance P cs db (txTo tx) (getBalance db (txTo tx) + txValue tx)))"

definition chargeFrom :: "('i, 'p) vprims_scheme \<Rightarrow> u64 option \<Rightarrow> DB \<Rightarrow> FullTx \<Rightarrow> int \<Rightarrow> error + DB \<times> Address" where
  "chargeFrom P rec db tx expense =
     bind_result (FullTx_Verify P tx (keyResolver db)) (\<lambda>_.
       let db = registerPubKey P rec db tx
       in bind_result (FullTx_From P tx) (\<lambda>from.
          let balance = getBalance db from
          in if balance < expense then Inl ErrTxrBalanceInsufficient
             else Inr (setBalance P rec db from (balance - expense), from)))"

definition handleTransaction ::
  "('i, 'p) vprims_scheme \<Rightarrow> u64 option \<Rightarrow> DB \<Rightarrow> FullTx \<Rightarrow> u64 \<Rightarrow> u64 option \<Rightarrow> error + DB \<times> u64 option" where
  "handleTransaction P cs db tx blockTime gas =
     bind_result (chargeFrom P cs db tx (TotalExpenditure tx)) (\<lambda>(db, _).
       let db = setBalance P cs db (txTo tx) (getBalance db (txTo tx) + txValue tx)
       in if contractExists db (txTo tx)
          then (case runContract P cs db (txTo tx) tx EntryOnTx blockTime gas of (db, gas, _) \<Rightarrow> Inr (db, gas))
          else Inr (db, gas))"

definition refundContractDeposit ::
  "('i, 'p) vprims_scheme \<Rightarrow> u64 option \<Rightarrow> DB \<Rightarrow> Address \<Rightarrow> ContractContext \<Rightarrow> DB" where
  "refundContractDeposit P cs db addr ctx =
     (let owed = lockedDeposit ctx
      in if owed \<le> 0 then db
         else let escrowBal = getBalance db storageDepositEscrowAddr;
                  pay = (if escrowBal < owed then escrowBal else owed)
              in if pay \<le> 0 then db
                 else let db = setBalance P cs db storageDepositEscrowAddr (escrowBal - pay)
                      in setBalance P cs db addr (getBalance db addr + pay))"

text \<open>An empty module removes the live slot.\<close>

definition handle_destroy ::
  "('i, 'p) vprims_scheme \<Rightarrow> Network \<Rightarrow> u64 option \<Rightarrow> DB \<Rightarrow> FullTx \<Rightarrow> Address \<Rightarrow> Contract \<Rightarrow> u64 \<Rightarrow> u64 option \<Rightarrow>
   error + DB \<times> u64 option" where
  "handle_destroy P network cs db tx from slot blockTime gas =
     (if getRefCount slot > 0 then Inl ErrContractRefdBy
      else case runContract P cs db from tx EntryOnUpgrade blockTime gas of
             (db, gas, ok) \<Rightarrow>
               if \<not> ok then Inr (db, gas)
               else bind_result (releaseContractDeps P cs db slot) (\<lambda>db.
                    let db = (if IsForkActive network ForkStateRent (txHeight tx)
                              then refundContractDeposit P cs db from (ctContext slot) else db)
                    in Inr (delContract P cs db from, gas)))"

text \<open>The new code goes live and its \<^verbatim>\<open>init\<close> hook runs.\<close>

definition install_code ::
  "('i, 'p) vprims_scheme \<Rightarrow> u64 option \<Rightarrow> DB \<Rightarrow> FullTx \<Rightarrow> Address \<Rightarrow> Contract \<Rightarrow> bytes \<Rightarrow> Address list \<Rightarrow> u64 \<Rightarrow>
   u64 option \<Rightarrow> error + DB \<times> u64 option" where
  "install_code P cs db tx from slot newSource newDeps blockTime gas =
     bind_result (pinDeps P cs db newDeps) (\<lambda>db.
       let slot = setContractDeps P (SetActive (slot\<lparr>ctSource := newSource\<rparr>) True) newDeps
       in bind_result (setContract P cs db slot) (\<lambda>db.
          case runContract P cs db from tx EntryOnActivate blockTime gas of (db, gas, _) \<Rightarrow> Inr (db, gas)))"

definition handleDeploy ::
  "('i, 'p) vprims_scheme \<Rightarrow> Network \<Rightarrow> u64 option \<Rightarrow> DB \<Rightarrow> FullTx \<Rightarrow> u64 \<Rightarrow> u64 option \<Rightarrow> error + DB \<times> u64 option" where
  "handleDeploy P network cs db tx blockTime gas =
     bind_result (CheckDeploy P tx (keyResolver db)) (\<lambda>_.
     bind_result (chargeFrom P cs db tx (TotalExpenditure tx)) (\<lambda>(db, from).
     bind_result (DecodeCommitCode P (txExtra tx)) (\<lambda>newSource.
       if length newSource > MaxContractSourceSize then Inl ErrSourceTooLarge
       else let live = (case getContract P db from of Inl _ \<Rightarrow> None
                        | Inr s \<Rightarrow> if IsActive s \<and> length (ctSource s) \<noteq> 0 then Some s else None)
            in if length newSource = 0
               then (case live of
                       None \<Rightarrow> Inl ErrNothingToDestroy
                     | Some slot \<Rightarrow> handle_destroy P network cs db tx from slot blockTime gas)
               else bind_result (LoadContractWasm P newSource) (\<lambda>_.
                    bind_result (validateDeps P db from newSource) (\<lambda>newDeps.
                      case live of
                        Some slot \<Rightarrow>
                          (case runContract P cs db from tx EntryOnUpgrade blockTime gas of
                             (db, gas, ok) \<Rightarrow>
                               if \<not> ok then Inr (db, gas)
                               else bind_result (releaseContractDeps P cs db slot) (\<lambda>db.
                                    install_code P cs db tx from slot newSource newDeps blockTime gas))
                      | None \<Rightarrow>
                          install_code P cs db tx from (NewContract from [] None) newSource newDeps blockTime gas)))))"

definition handle_tx ::
  "('i, 'p) vprims_scheme \<Rightarrow> Network \<Rightarrow> u64 option \<Rightarrow> u64 \<Rightarrow> DB \<times> u64 option \<Rightarrow> FullTx \<Rightarrow> error + DB \<times> u64 option" where
  "handle_tx P network cs blockTime st tx =
     (case st of (db, gas) \<Rightarrow>
        if txType tx = InvalidTx then Inl ErrTxTypeInvalid
        else if txType tx = GenerateTx then bind_result (handleGenerate P cs db tx) (\<lambda>db. Inr (db, gas))
        else if txType tx = TransactTx
             then bind_result (consumeReveal P db tx) (\<lambda>db.
                  bind_result (runValidate P cs db tx blockTime gas) (\<lambda>(db, gas).
                  handleTransaction P cs db tx blockTime gas))
        else if txType tx = DeployTx
             then bind_result (consumeReveal P db tx) (\<lambda>db.
                  bind_result (runValidate P cs db tx blockTime gas) (\<lambda>(db, gas).
                  handleDeploy P network cs db tx blockTime gas))
        else Inl ErrTxTypeInvalid)"

definition HandleTxs ::
  "('i, 'p) vprims_scheme \<Rightarrow> Network \<Rightarrow> u64 option \<Rightarrow> DB \<Rightarrow> u64 \<Rightarrow> FullTx list \<Rightarrow> error + DB" where
  "HandleTxs P network cs db blockTime txs =
     bind_result (foldM (handle_tx P network cs blockTime) txs (db, Some MaxBlockGas)) (\<lambda>(db, _). Inr db)"

subsection \<open>Blocks\<close>

definition handle_commit :: "'p prims_scheme \<Rightarrow> u64 option \<Rightarrow> DB \<Rightarrow> Commitment \<Rightarrow> error + DB" where
  "handle_commit P cs db commit =
     bind_result (Commitment_Verify P commit (keyResolver db)) (\<lambda>_.
     bind_result (Commitment_From P commit) (\<lambda>from.
       if commitFromPending db from (cmHash commit) (cmHeight commit) then Inl ErrCommitDuplicate
       else case cmFee commit of
              None \<Rightarrow> Inl Panic
            | Some fee \<Rightarrow>
                let balance = getBalance db from
                in if balance < fee then Inl ErrCommitUnaffordable
                   else Inr (putCommit P (setBalance P cs db from (balance - fee)) (cmHeight commit) (cmHash commit) from)))"

definition handleCommits :: "'p prims_scheme \<Rightarrow> u64 option \<Rightarrow> DB \<Rightarrow> FullBlock \<Rightarrow> error + DB" where
  "handleCommits P cs db block = foldM (handle_commit P cs) (bkCommits block) db"

definition Upgrade :: "('i, 'p) vprims_scheme \<Rightarrow> Network \<Rightarrow> bool \<Rightarrow> DB \<Rightarrow> FullBlock \<Rightarrow> error + DB" where
  "Upgrade P network archive db block =
     (let hd = bkHeader block; cs = (if archive then Some (hdHeight hd) else None)
      in bind_result (handleCommits P cs db block) (\<lambda>db.
         bind_result (HandleTxs P network cs db (hdTimestamp hd) (bkTxs block)) (\<lambda>db.
         let db = updateBeacon P cs db block
         in Inr (pruneCommits P db (hdHeight hd)))))"

definition DryApplyRoot :: "('i, 'p) vprims_scheme \<Rightarrow> Network \<Rightarrow> bool \<Rightarrow> DB \<Rightarrow> FullBlock \<Rightarrow> error + bytes" where
  "DryApplyRoot P network archive db block =
     bind_result (Upgrade P network archive db block) (\<lambda>db. Inr (StateRoot P db))"

text \<open>One block of a branch: checked, applied, and compared with its committed root.\<close>

definition apply_checked :: "('i, 'p) vprims_scheme \<Rightarrow> Network \<Rightarrow> bool \<Rightarrow> DB \<Rightarrow> FullBlock \<Rightarrow> error + DB" where
  "apply_checked P network archive db b =
     bind_result (IsGenesis P b) (\<lambda>gen.
     bind_result (if \<not> gen then CheckBlockTxs P db b else Inr ()) (\<lambda>_.
     bind_result (Upgrade P network archive db b) (\<lambda>db.
     bind_result (CheckStateRoot P db (hdStateRoot (bkHeader b))) (\<lambda>_. Inr db))))"

definition ApplyBlocksTxn :: "('i, 'p) vprims_scheme \<Rightarrow> Network \<Rightarrow> bool \<Rightarrow> DB \<Rightarrow> FullBlock list \<Rightarrow> error + DB" where
  "ApplyBlocksTxn P network archive db blocks = foldM (apply_checked P network archive) blocks db"

end
