(* ===== verification/Transition.thy ===== *)
theory Transition
  imports Execution Apply
begin

text \<open>
  The state transition as a whole.  \<open>ok_step\<close> collects what every handler of \<^verbatim>\<open>state_handle.go\<close> and
  \<^verbatim>\<open>state.go\<close> guarantees: the invariants of the database and of the contract store, how many slots it may
  add, by how much it changes the total supply, and that accounts which did not authorise anything and
  hold no contract lose nothing.  The relation composes, so the guarantees of a block are the sums of those of its
  parts.
\<close>

section \<open>Definitions\<close>

definition third_ok :: "'p sprims_scheme \<Rightarrow> bool" where
  "third_ok P \<longleftrightarrow> prims_ok P \<and> rlp_ok P"

definition sys_ok :: "'p sprims_scheme \<Rightarrow> DB \<Rightarrow> bool" where
  "sys_ok P db \<longleftrightarrow> db_inv P db \<and> store_ok P db"

definition room :: "nat \<Rightarrow> DB \<Rightarrow> bool" where
  "room k db \<longleftrightarrow> int (length (dbContract db)) + int k < 2 ^ 64"

definition no_slot :: "DB \<Rightarrow> Address \<Rightarrow> bool" where
  "no_slot db x \<longleftrightarrow> bget (dbContract db) x = None"

definition ok_step :: "'p sprims_scheme \<Rightarrow> u64 option \<Rightarrow> nat \<Rightarrow> int \<Rightarrow> Address set \<Rightarrow> DB \<Rightarrow> DB \<Rightarrow> bool" where
  "ok_step P cs k s X db db' \<longleftrightarrow> sys_ok P db' \<and> state_steps P cs db db' \<and>
     length (dbContract db') \<le> length (dbContract db) + k \<and> totalSupply db' = totalSupply db + s \<and>
     (\<forall>x. x \<notin> X \<longrightarrow> x \<noteq> storageDepositEscrowAddr \<longrightarrow> no_slot db x \<longrightarrow>
        no_slot db' x \<and> getBalance db x \<le> getBalance db' x)"

section \<open>Composition\<close>

lemma ok_step_refl: "sys_ok P db \<Longrightarrow> ok_step P cs 0 0 {} db db"
  by (simp add: ok_step_def)

lemma ok_step_trans:
  assumes "ok_step P cs k s X a b" "ok_step P cs k' s' X' b c"
  shows "ok_step P cs (k + k') (s + s') (X \<union> X') a c"
proof -
  have "no_slot c x \<and> getBalance a x \<le> getBalance c x"
    if "x \<notin> X \<union> X'" "x \<noteq> storageDepositEscrowAddr" "no_slot a x" for x
    using assms that unfolding ok_step_def by (meson UnI1 UnI2 order_trans)
  moreover have "state_steps P cs a c" using assms state_steps_trans unfolding ok_step_def by blast
  ultimately show ?thesis using assms by (auto simp: ok_step_def)
qed

lemma ok_step_weaken: "ok_step P cs k s X a b \<Longrightarrow> k \<le> k' \<Longrightarrow> X \<subseteq> X' \<Longrightarrow> ok_step P cs k' s X' a b"
  unfolding ok_step_def by (meson add_left_mono order_trans subsetD)

lemma ok_step_sys: "ok_step P cs k s X a b \<Longrightarrow> sys_ok P b"
  by (simp add: ok_step_def)

lemma ok_step_room: "ok_step P cs k s X a b \<Longrightarrow> room (k + m) a \<Longrightarrow> room m b"
  by (auto simp: ok_step_def room_def)

lemma room_few: "room k db \<Longrightarrow> few_slots db"
  by (simp add: room_def few_slots_def)

lemma sys_bal: "sys_ok P db \<Longrightarrow> bucket_ok (dbBal db)"
  by (simp add: sys_ok_def db_inv_def db_ok_def)

lemma sys_slots: "sys_ok P db \<Longrightarrow> slots_ok P db"
  by (auto simp: sys_ok_def db_inv_def intro: store_slots)

text \<open>A write that touches neither balances nor slots.\<close>

lemma ok_step_frame:
  assumes "sys_ok P db" "third_ok P" "state_steps P cs db db'" "dbBal db' = dbBal db"
    "dbContract db' = dbContract db" "dbCode db' = dbCode db"
  shows "ok_step P cs 0 0 {} db db'"
proof -
  have "db_inv P db'" using state_steps_inv [OF assms(3)] assms(1,2) by (simp add: sys_ok_def third_ok_def)
  moreover have "store_ok P db'" using assms(1) store_ok_cong [OF assms(5,6), of P] by (simp add: sys_ok_def)
  ultimately show ?thesis using assms(3-5)
    by (simp add: ok_step_def sys_ok_def totalSupply_def no_slot_def getBalance_def)
qed

lemma ok_step_balance:
  assumes "sys_ok P db" "third_ok P" "length a = AddressSize" "0 \<le> x"
  shows "ok_step P cs 0 (x - getBalance db a) (if getBalance db a \<le> x then {} else {a}) db (setBalance P cs db a x)"
proof -
  have steps: "state_steps P cs db (setBalance P cs db a x)"
    by (rule state_steps_step [OF step_balance [OF assms(3)]])
  have "db_inv P (setBalance P cs db a x)"
    using state_steps_inv [OF steps] assms(1,2) by (simp add: sys_ok_def third_ok_def)
  moreover have "store_ok P (setBalance P cs db a x)"
    using assms(1) store_ok_cong [of "setBalance P cs db a x" db P] by (simp add: sys_ok_def)
  ultimately show ?thesis
    using steps assms(4) sys_bal [OF assms(1)]
    by (auto simp: ok_step_def sys_ok_def supply_setBalance no_slot_def getBalance_setBalance)
qed

lemma ok_step_credit:
  assumes "sys_ok P db" "third_ok P" "length a = AddressSize" "0 \<le> v"
  shows "ok_step P cs 0 v {} db (setBalance P cs db a (getBalance db a + v))"
  using ok_step_balance [OF assms(1-3), of "getBalance db a + v" cs] assms(4) by simp

lemma ok_step_debit:
  assumes "sys_ok P db" "third_ok P" "length a = AddressSize" "v \<le> getBalance db a"
  shows "ok_step P cs 0 (- v) {a} db (setBalance P cs db a (getBalance db a - v))"
  using ok_step_weaken [OF ok_step_balance [OF assms(1-3), of "getBalance db a - v" cs], of 0 "{a}"] assms(4) by simp

lemma ok_step_escrow:
  assumes "ok_step P cs k s {storageDepositEscrowAddr} a b"
  shows "ok_step P cs k s {} a b"
  using assms by (auto simp: ok_step_def)

text \<open>Writing a slot.\<close>

lemma length_bput_le: "length (bput b k v) \<le> length b + 1"
  by (induction b k v rule: bput.induct) auto

lemma ok_step_slot:
  assumes "sys_ok P db" "third_ok P" "few_slots db" "length (ctOwner ct) = AddressSize" "ctx_ok (ctContext ct)"
  obtains db' where "setContract P cs db ct = Inr db'" "ok_step P cs 1 0 {ctOwner ct} db db'"
    "\<not> no_slot db (ctOwner ct) \<Longrightarrow> ok_step P cs 0 0 {} db db'"
proof -
  have st: "store_ok P db" and rlp: "rlp_ok P" using assms(1,2) by (simp_all add: sys_ok_def third_ok_def)
  from setContract_store [OF st assms(3) rlp assms(4,5), of cs]
  obtain db' where db': "setContract P cs db ct = Inr db'" "store_ok P db'" by blast
  have steps: "state_steps P cs db db'" by (rule state_steps_step [OF step_setContract [OF assms(4) db'(1)]])
  have "db_inv P db'" using state_steps_inv [OF steps] assms(1,2) by (simp add: sys_ok_def third_ok_def)
  with db'(2) have sys: "sys_ok P db'" by (simp add: sys_ok_def)
  note fr = setContract_effect [OF db'(1)]
  have ok: "bucket_ok (dbContract db)" using st by (simp add: store_ok_def)
  have len: "length (dbContract db') \<le> length (dbContract db) + 1"
    unfolding fr by (rule length_bput_le)
  have len0: "length (dbContract db') = length (dbContract db)" if "\<not> no_slot db (ctOwner ct)"
    using that ok by (simp add: fr length_bput_old no_slot_def)
  have "ok_step P cs 1 0 {ctOwner ct} db db'"
    using sys steps len by (simp add: ok_step_def fr totalSupply_def no_slot_def getBalance_def bucket_simps)
  moreover have "ok_step P cs 0 0 {} db db'" if "\<not> no_slot db (ctOwner ct)"
    using sys steps len0 [OF that] that
    by (auto simp: ok_step_def fr totalSupply_def no_slot_def getBalance_def bucket_simps)
  ultimately show ?thesis using that db'(1) by blast
qed

section \<open>Contract runs\<close>

lemma envelope_from_length: "envelope_from P e sg h = Inr a \<Longrightarrow> length a = AddressSize"
  by (auto simp: envelope_from_def Let_def split: if_splits option.splits)

lemma From_length: "FullTx_From P tx = Inr a \<Longrightarrow> length a = AddressSize"
  and Commitment_From_length: "Commitment_From P c = Inr a \<Longrightarrow> length a = AddressSize"
  by (simp_all add: FullTx_From_def Commitment_From_def envelope_from_length)

lemma recordRun_receipt: "\<exists>b. recordRun P db tx run = db\<lparr>dbReceipt := b\<rparr>"
proof (cases "appendContractRun P db (FullTx_GetHash P tx) (txHeight tx) run")
  case (Inl e)
  then have "recordRun P db tx run = db\<lparr>dbReceipt := dbReceipt db\<rparr>" by (simp add: recordRun_def)
  then show ?thesis by blast
next
  case (Inr db')
  then obtain b where "db' = db\<lparr>dbReceipt := b\<rparr>"
    by (auto simp: appendContractRun_def result_simps Let_def split: option.splits)
  with Inr show ?thesis by (auto simp: recordRun_def)
qed

lemma receipt_only: "db' = db \<or> (\<exists>run. db' = recordRun P db tx run) \<Longrightarrow> \<exists>b. db' = db\<lparr>dbReceipt := b\<rparr>"
proof (elim disjE exE)
  assume "db' = db"
  then have "db' = db\<lparr>dbReceipt := dbReceipt db\<rparr>" by simp
  then show ?thesis by blast
next
  fix run assume "db' = recordRun P db tx run"
  then show ?thesis using recordRun_receipt by blast
qed

lemma ok_step_receipt:
  assumes "sys_ok P db" "third_ok P"
  shows "ok_step P cs 0 0 {} db (db\<lparr>dbReceipt := b\<rparr>)"
  by (rule ok_step_frame [OF assms state_steps_step [OF step_receipt]]) simp_all

lemma ok_step_recordRun:
  assumes "sys_ok P db" "third_ok P"
  shows "ok_step P cs 0 0 {} db (recordRun P db tx run)"
  using recordRun_receipt [of P db tx run] ok_step_receipt [OF assms] by auto

lemma getContract_missing: "getContract P db a = Inl ErrKeyNotFound \<longleftrightarrow> no_slot db a"
  by (auto simp: getContract_def decodeStoredContract_def no_slot_def split: option.splits)

lemma callee_no_slot: "slots_ok P db \<Longrightarrow> no_slot db x \<Longrightarrow> \<not> callee P db x"
  using callee_slot [of P db x] getContract_missing [of P db x] by auto

lemma slots_preserved_missing:
  assumes "slots_preserved P db db'" "getContract P db x = Inl e"
  shows "getContract P db' x = Inl e"
  using spec [OF assms(1) [unfolded slots_preserved_def], of x] assms(2) by simp

lemma ok_step_run_effect:
  assumes "sys_ok P db" "third_ok P" "run_effect P cs db db'"
  shows "ok_step P cs 0 0 {} db db'"
proof -
  have steps: "state_steps P cs db db'" and st: "store_ok P db'" using assms(3) by (simp_all add: run_effect_def)
  have "db_inv P db'" using state_steps_inv [OF steps] assms(1,2) by (simp add: sys_ok_def third_ok_def)
  moreover have "no_slot db' x" if "no_slot db x" for x
  proof -
    from that have "getContract P db x = Inl ErrKeyNotFound" by (simp add: getContract_missing)
    with assms(3) have "getContract P db' x = Inl ErrKeyNotFound"
      unfolding run_effect_def by (blast intro: slots_preserved_missing)
    then show ?thesis by (simp add: getContract_missing)
  qed
  moreover have "getBalance db x \<le> getBalance db' x" if "no_slot db x" "x \<noteq> storageDepositEscrowAddr" for x
    using assms(3) callee_no_slot [OF sys_slots [OF assms(1)] that(1)] that(2) by (simp add: run_effect_def)
  ultimately show ?thesis using assms(3) st steps by (simp add: ok_step_def sys_ok_def run_effect_def)
qed

lemma call_entry_cs:
  assumes "modules_ok P db vm" "call_entry n P db entry vm = (vm', r)"
  shows "vmCs vm' = vmCs vm"
proof -
  obtain vm1 ins r1 where 1: "exec P (host n P db) (instantiate P (vmModule vm) (map fst (vmModules vm))) vm = (vm1, ins, r1)"
    by (metis prod_cases3)
  then have run1: "vm_run P db vm vm1"
    using hst.exec_runs [OF assms(1), of n "instantiate P (vmModule vm) (map fst (vmModules vm))"] by simp
  obtain vm2 ins2 r2 where 2: "exec P (host n P db) (callExport P ins entry []) vm1 = (vm2, ins2, r2)"
    by (metis prod_cases3)
  then have run2: "vm_run P db vm1 vm2"
    using hst.exec_runs [OF vm_run_modules [OF run1 assms(1)], of n "callExport P ins entry []"] by simp
  show ?thesis using assms(2) 1 2 vm_run_cs [OF run1] vm_run_cs [OF run2]
    by (cases r1; cases r2) (auto simp: call_entry_def)
qed

lemma Run_cs: "modules_ok P db vm \<Longrightarrow> Run n P db entry vm = (vm', r) \<Longrightarrow> vmCs vm' = vmCs vm"
  by (cases "call_entry n P db entry vm") (auto simp: Run_def dest: call_entry_cs split: sum.splits)

lemma LimitToll_cs: "vmCs (LimitToll P budget vm) = vmCs vm"
  by (simp add: LimitToll_def Let_def)

lemma EntryFor_cs: "vmCs (fst (EntryFor P entry vm)) = vmCs vm"
  by (simp add: EntryFor_def Let_def split: sum.splits prod.splits option.splits)

text \<open>A run that does not succeed leaves a receipt at most; a successful one has the effect of a journal.\<close>

lemma runContract_cases:
  assumes "runContract P cs db addr tx entry bt gas = (db', gas', ok)" "sys_ok P db" "third_ok P" "few_slots db"
  shows "(\<not> ok \<and> (\<exists>b. db' = db\<lparr>dbReceipt := b\<rparr>)) \<or>
    (ok \<and> (\<exists>db1 b. run_effect P cs db db1 \<and> db' = db1\<lparr>dbReceipt := b\<rparr>))"
proof (cases "getContract P db addr")
  case (Inl e)
  then have "\<not> ok \<and> db' = db" using assms(1) by (simp add: runContract_def)
  then show ?thesis using receipt_only by blast
next
  case (Inr account)
  note acc = this
  let ?dead = "\<not> IsActive account \<or> length (ctSource account) = 0"
  show ?thesis
  proof (cases "?dead \<or> gas = Some 0 \<or> (\<exists>e. NewVM vm_nesting P db account tx bt = Inl e)")
    case True
    then have "\<not> ok \<and> (db' = db \<or> (\<exists>run. db' = recordRun P db tx run))"
      using assms(1) acc by (auto simp: runContract_def Let_def split: if_splits)
    then show ?thesis using receipt_only by blast
  next
    case False
    then obtain vm where vm: "NewVM vm_nesting P db account tx bt = Inr vm" by (cases "NewVM vm_nesting P db account tx bt") auto
    obtain vm1 entry' where e: "EntryFor P entry (vm\<lparr>vmCs := cs\<rparr>) = (vm1, entry')" by fastforce
    define vm2 where "vm2 = (case gas of None \<Rightarrow> vm1
      | Some remaining \<Rightarrow> if remaining < vmMaxToll then LimitToll P remaining vm1 else vm1)"
    obtain vm3 r where r: "Run vm_nesting P db entry' vm2 = (vm3, r)" by fastforce
    note sl = sys_slots [OF assms(2)]
    have s1: "vm_state P db addr vm1"
      using NewVM_state [OF vm acc sl] vm_state_prepare(2) [of P db addr P entry "vm\<lparr>vmCs := cs\<rparr>"] e by simp
    have s2: "vm_state P db addr vm2" "vmCs vm2 = vmCs vm1"
      using s1 by (cases gas; simp add: vm2_def LimitToll_cs)+
    have cs: "vmCs vm3 = cs"
      using Run_cs [OF _ r] s2 e EntryFor_cs [of P entry "vm\<lparr>vmCs := cs\<rparr>"] by (simp add: vm_state_def)
    have "callee P db addr" using acc by (auto simp: callee_def)
    from Run_ok [OF r s2(1) this] assms(2-4) cs
    have eff: "(\<exists>e. r = Inl e) \<or> (\<exists>db1. r = Inr db1 \<and> run_effect P cs db db1)"
      by (simp add: sys_ok_def third_ok_def)
    show ?thesis
    proof (cases r)
      case (Inl x)
      then have "\<not> ok \<and> (db' = db \<or> (\<exists>run. db' = recordRun P db tx run))"
        using assms(1) acc False vm e r by (auto simp: runContract_def Let_def vm2_def [symmetric] split: if_splits)
      then show ?thesis using receipt_only by blast
    next
      case (Inr db1)
      then have "ok \<and> (\<exists>run. db' = recordRun P db1 tx run)"
        using assms(1) acc False vm e r by (auto simp: runContract_def Let_def vm2_def [symmetric])
      then show ?thesis using eff Inr recordRun_receipt [of P db1 tx] by auto
    qed
  qed
qed

lemma ok_step_runContract:
  assumes "runContract P cs db addr tx entry bt gas = (db', gas', ok)" "sys_ok P db" "third_ok P" "few_slots db"
  shows "ok_step P cs 0 0 {} db db'"
proof -
  have ok: "ok_step P cs 0 0 {} db (db1\<lparr>dbReceipt := b\<rparr>)" if "run_effect P cs db db1" for db1 b
    using ok_step_trans [OF ok_step_run_effect [OF assms(2,3) that] ok_step_receipt [OF _ assms(3)]]
      ok_step_sys [OF ok_step_run_effect [OF assms(2,3) that]] by simp
  from runContract_cases [OF assms] show ?thesis using ok ok_step_receipt [OF assms(2,3)] by blast
qed

section \<open>Transactions\<close>

text \<open>What the Go types guarantee: addresses have 32 bytes, and RLP decodes no negative amounts.\<close>

definition tx_typed :: "FullTx \<Rightarrow> bool" where
  "tx_typed tx \<longleftrightarrow> length (txTo tx) = AddressSize \<and> 0 \<le> txValue tx"

lemma ok_step_register:
  assumes "sys_ok P db" "third_ok P"
  shows "ok_step P cs 0 0 {} db (registerPubKey P cs db tx)"
  by (rule ok_step_frame [OF assms state_steps_step [OF step_key]]) simp_all

lemma ok_step_consumeReveal:
  assumes "consumeReveal P db tx = Inr db'" "sys_ok P db" "third_ok P"
  shows "ok_step P cs 0 0 {} db db'"
proof (cases "txHeight tx = 0")
  case True
  then show ?thesis using assms(1) ok_step_refl [OF assms(2)] by (simp add: consumeReveal_def)
next
  case False
  then obtain h sender where db': "db' = consumeCommit P (journalConsumed db (txHeight tx) h (revealHash P tx) sender) h (revealHash P tx)"
    using assms(1) by (auto simp: consumeReveal_def Let_def result_simps split: if_splits option.splits)
  have only: "commits_only db db'"
    unfolding db' by (rule commits_only_trans [OF commits_only_ops(3) commits_only_ops(2)])
  have "state_steps P cs db db'" unfolding db' by (rule state_steps_step [OF step_reveal])
  then show ?thesis
    by (rule ok_step_frame [OF assms(2,3)]) (simp_all add: commits_only_frame [OF only])
qed

lemma ok_step_runValidate:
  assumes "runValidate P cs db tx bt gas = Inr (db', gas')" "sys_ok P db" "third_ok P" "few_slots db"
  shows "ok_step P cs 0 0 {} db db'"
proof -
  obtain sender where f: "FullTx_From P tx = Inr sender"
    using assms(1) by (auto simp: runValidate_def result_simps)
  obtain d g ok where r: "runContract P cs db sender tx EntryOnValidate bt gas = (d, g, ok)" by (metis prod_cases3)
  have "db' = db \<or> db' = d"
    using assms(1) f r by (cases "getContract P db sender") (auto simp: runValidate_def split: if_splits)
  then show ?thesis using ok_step_refl [OF assms(2)] ok_step_runContract [OF r assms(2-4)] by auto
qed

lemma ok_step_handleGenerate:
  assumes "handleGenerate P cs db tx = Inr db'" "sys_ok P db" "third_ok P" "tx_typed tx"
  shows "ok_step P cs 0 (txValue tx) {} db db'"
proof -
  obtain db1 where db1: "db1 = db \<or> db1 = registerPubKey P cs db tx"
    "db' = setBalance P cs db1 (txTo tx) (getBalance db1 (txTo tx) + txValue tx)"
    using assms(1) by (auto simp: handleGenerate_def result_simps split: if_splits)
  have 1: "ok_step P cs 0 0 {} db db1"
    using db1(1) ok_step_refl [OF assms(2)] ok_step_register [OF assms(2,3)] by auto
  show ?thesis unfolding db1(2)
    using ok_step_trans [OF 1 ok_step_credit [OF ok_step_sys [OF 1] assms(3), of "txTo tx" "txValue tx"]] assms(4)
    by (simp add: tx_typed_def)
qed

lemma ok_step_chargeFrom:
  assumes "chargeFrom P cs db tx expense = Inr (db', sender)" "sys_ok P db" "third_ok P"
  shows "ok_step P cs 0 (- expense) {sender} db db'" "FullTx_From P tx = Inr sender"
proof -
  let ?db = "registerPubKey P cs db tx"
  have f: "FullTx_From P tx = Inr sender" "expense \<le> getBalance ?db sender"
    "db' = setBalance P cs ?db sender (getBalance ?db sender - expense)"
    using assms(1) by (auto simp: chargeFrom_def Let_def result_simps split: if_splits)
  note 1 = ok_step_register [OF assms(2,3), of cs tx]
  show "ok_step P cs 0 (- expense) {sender} db db'" unfolding f(3)
    using ok_step_trans [OF 1 ok_step_debit [OF ok_step_sys [OF 1] assms(3) From_length [OF f(1)] f(2)]] by simp
  show "FullTx_From P tx = Inr sender" by (rule f)
qed

lemma ok_step_handleTransaction:
  assumes "handleTransaction P cs db tx bt gas = Inr (db', gas')" "sys_ok P db" "third_ok P" "few_slots db" "tx_typed tx"
  obtains sender where "FullTx_From P tx = Inr sender" "ok_step P cs 0 (- txFee tx) {sender} db db'"
proof -
  obtain db1 sender where c: "chargeFrom P cs db tx (TotalExpenditure tx) = Inr (db1, sender)"
    using assms(1) by (auto simp: handleTransaction_def result_simps)
  define db2 where "db2 = setBalance P cs db1 (txTo tx) (getBalance db1 (txTo tx) + txValue tx)"
  note 1 = ok_step_chargeFrom [OF c assms(2,3)]
  have 2: "ok_step P cs 0 (- txFee tx) {sender} db db2"
    using ok_step_trans [OF 1(1) ok_step_credit [OF ok_step_sys [OF 1(1)] assms(3), of "txTo tx" "txValue tx"]] assms(5)
    by (simp add: tx_typed_def db2_def TotalExpenditure_def)
  have few: "few_slots db2" using 2 assms(4) by (auto simp: ok_step_def few_slots_def)
  from assms(1) c consider "db' = db2" | ok where "runContract P cs db2 (txTo tx) tx EntryOnTx bt gas = (db', gas', ok)"
    by (auto simp: handleTransaction_def result_simps db2_def Let_def split: if_splits prod.splits)
  then have "ok_step P cs 0 (- txFee tx) {sender} db db'"
  proof cases
    case 2
    from ok_step_trans [OF \<open>ok_step P cs 0 (- txFee tx) {sender} db db2\<close>
        ok_step_runContract [OF 2 ok_step_sys [OF \<open>ok_step P cs 0 (- txFee tx) {sender} db db2\<close>] assms(3) few]]
    show ?thesis by simp
  qed (use 2 in simp)
  with 1(2) that show ?thesis by blast
qed

text \<open>A loop of handlers: the slots, amounts and authorisations add up.\<close>

lemma ok_step_foldM:
  assumes "foldM h xs st = Inr st'" "sys_ok P (db_of st)" "room (sum_list (map k xs)) (db_of st)"
    and step: "\<And>x st st'. x \<in> set xs \<Longrightarrow> sys_ok P (db_of st) \<Longrightarrow> room (k x) (db_of st) \<Longrightarrow> h st x = Inr st' \<Longrightarrow>
      ok_step P cs (k x) (s x) (X x) (db_of st) (db_of st')"
  shows "ok_step P cs (sum_list (map k xs)) (sum_list (map s xs)) (\<Union>x \<in> set xs. X x) (db_of st) (db_of st')"
  using assms
proof (induction xs arbitrary: st)
  case Nil
  then show ?case by (simp add: ok_step_refl)
next
  case (Cons x xs)
  from Cons.prems(1) obtain st1 where st1: "h st x = Inr st1" "foldM h xs st1 = Inr st'" by (auto simp: result_simps)
  have "room (k x) (db_of st)" using Cons.prems(3) by (simp add: room_def)
  then have 1: "ok_step P cs (k x) (s x) (X x) (db_of st) (db_of st1)"
    by (rule Cons.prems(4) [OF list.set_intros(1) Cons.prems(2) _ st1(1)])
  have r: "room (sum_list (map k xs)) (db_of st1)" by (rule ok_step_room [OF 1]) (use Cons.prems(3) in simp)
  have "ok_step P cs (sum_list (map k xs)) (sum_list (map s xs)) (\<Union>x \<in> set xs. X x) (db_of st1) (db_of st')"
  proof (rule Cons.IH [OF st1(2) ok_step_sys [OF 1] r])
    fix y t t' assume "y \<in> set xs" and y: "sys_ok P (db_of t)" "room (k y) (db_of t)" "h t y = Inr t'"
    then have "y \<in> set (x # xs)" by simp
    then show "ok_step P cs (k y) (s y) (X y) (db_of t) (db_of t')" by (rule Cons.prems(4) [OF _ y])
  qed
  from ok_step_trans [OF 1 this] show ?case by simp
qed

lemma ok_step_foldM0:
  assumes "foldM h xs db = Inr db'" "sys_ok P db" "few_slots db"
    and "\<And>x db db'. sys_ok P db \<Longrightarrow> few_slots db \<Longrightarrow> h db x = Inr db' \<Longrightarrow> ok_step P cs 0 0 {} db db'"
  shows "ok_step P cs 0 0 {} db db'"
proof -
  have "ok_step P cs (sum_list (map (\<lambda>_. 0) xs)) (sum_list (map (\<lambda>_. 0) xs)) (\<Union>x \<in> set xs. {}) db db'"
  proof (rule ok_step_foldM [of h xs db db' P "\<lambda>db. db", OF assms(1,2)])
    show "room (sum_list (map (\<lambda>_. 0) xs)) db" using assms(3) by (simp add: room_def few_slots_def)
    fix x d d' assume d: "sys_ok P d" "room 0 d" "h d x = Inr d'"
    show "ok_step P cs 0 0 {} d d'" by (rule assms(4) [OF d(1) room_few [OF d(2)] d(3)])
  qed
  then show ?thesis by simp
qed

section \<open>Deploying\<close>

lemma ctx_ok_setters:
  "ctx_ok (ctContext acc) \<Longrightarrow> ctx_ok (ctContext (setRefCount acc n))"
  "ctx_ok (ctContext acc) \<Longrightarrow> ctx_ok (ctContext (SetActive acc a))"
  "ctx_ok (ctContext acc) \<Longrightarrow> ctx_ok (ctContext (setContractDeps P acc deps))"
  "ctx_ok (ctContext (NewContract owner src None))"
  by (simp_all add: setRefCount_def SetActive_def setContractDeps_def NewContract_def ctx_simps)

lemma owner_setters [simp]:
  "ctOwner (setRefCount acc n) = ctOwner acc" "ctOwner (SetActive acc a) = ctOwner acc"
  "ctOwner (setContractDeps P acc deps) = ctOwner acc" "ctOwner (NewContract owner src c) = owner"
  by (simp_all add: setRefCount_def SetActive_def setContractDeps_def NewContract_def)

lemma ok_step_setRefCount:
  assumes "getContract P db a = Inr acc" "setContract P cs db (setRefCount acc n) = Inr db'"
    "sys_ok P db" "third_ok P" "few_slots db"
  shows "ok_step P cs 0 0 {} db db'"
proof -
  have acc: "ctOwner acc = a" "length a = AddressSize" "ctx_ok (ctContext acc)"
    using sys_slots [OF assms(3)] assms(1) by (auto simp: slots_ok_def)
  have "\<not> no_slot db a" using assms(1) getContract_missing [of P db a] by auto
  then show ?thesis
    using ok_step_slot [OF assms(3-5), of "setRefCount acc n" cs] assms(2) acc by (simp add: ctx_ok_setters) (metis sum.inject(2))
qed

lemma ok_step_pinDeps:
  assumes "pinDeps P cs db deps = Inr db'" "sys_ok P db" "third_ok P" "few_slots db"
  shows "ok_step P cs 0 0 {} db db'"
  using assms(1) unfolding pinDeps_def
  by (rule ok_step_foldM0 [OF _ assms(2,4)]) (auto simp: result_simps intro: ok_step_setRefCount assms(3))

lemma ok_step_releaseContractDeps:
  assumes "releaseContractDeps P cs db slot = Inr db'" "sys_ok P db" "third_ok P" "few_slots db"
  shows "ok_step P cs 0 0 {} db db'"
proof -
  obtain deps where "foldM (\<lambda>db depAddr. bind_result (getContract P db depAddr) (\<lambda>depAcc.
      let refs = getRefCount depAcc
      in if refs > 0 then setContract P cs db (setRefCount depAcc (refs - 1)) else Inr db)) deps db = Inr db'"
    using assms(1) by (auto simp: releaseContractDeps_def result_simps)
  then show ?thesis
    by (rule ok_step_foldM0 [OF _ assms(2,4)])
      (auto simp: result_simps Let_def split: if_splits intro: ok_step_setRefCount assms(3) ok_step_refl)
qed

lemma ok_step_few: "ok_step P cs 0 s X a b \<Longrightarrow> few_slots a \<Longrightarrow> few_slots b"
  by (auto simp: ok_step_def few_slots_def)

lemma ok_step_install_code:
  assumes "install_code P cs db tx sender slot newSource newDeps bt gas = Inr (db', gas')"
    "ctOwner slot = sender" "length sender = AddressSize" "ctx_ok (ctContext slot)" "sys_ok P db" "third_ok P" "room 1 db"
  shows "ok_step P cs 1 0 {sender} db db'"
proof -
  let ?slot = "setContractDeps P (SetActive (slot\<lparr>ctSource := newSource\<rparr>) True) newDeps"
  obtain db1 where 1: "pinDeps P cs db newDeps = Inr db1" using assms(1) by (auto simp: install_code_def result_simps)
  note s1 = ok_step_pinDeps [OF 1 assms(5,6) room_few [OF assms(7)]]
  obtain db2 where 2: "setContract P cs db1 ?slot = Inr db2"
    using assms(1) 1 by (auto simp: install_code_def result_simps Let_def)
  have "few_slots db1" by (rule ok_step_few [OF s1 room_few [OF assms(7)]])
  from ok_step_slot [OF ok_step_sys [OF s1] assms(6) this, of ?slot cs] 2
  have s2: "ok_step P cs 1 0 {sender} db1 db2" using assms(2-4) by (simp add: ctx_ok_setters) (metis sum.inject(2))
  have "room 0 db2" using ok_step_room [OF ok_step_trans [OF s1 s2], of 0] assms(7) by simp
  moreover obtain ok where "runContract P cs db2 sender tx EntryOnActivate bt gas = (db', gas', ok)"
    using assms(1) 1 2 by (auto simp: install_code_def result_simps Let_def split: prod.splits)
  ultimately have "ok_step P cs 0 0 {} db2 db'"
    using ok_step_runContract ok_step_sys [OF s2] assms(6) room_few by blast
  from ok_step_trans [OF ok_step_trans [OF s1 s2] this] show ?thesis by simp
qed

lemma ok_step_refund:
  assumes "sys_ok P db" "third_ok P" "length a = AddressSize"
  shows "ok_step P cs 0 0 {} db (refundContractDeposit P cs db a ctx)"
proof -
  let ?e = storageDepositEscrowAddr
  define pay where "pay = (if getBalance db ?e < lockedDeposit ctx then getBalance db ?e else lockedDeposit ctx)"
  let ?db = "setBalance P cs db ?e (getBalance db ?e - pay)"
  show ?thesis
  proof (cases "lockedDeposit ctx \<le> 0 \<or> pay \<le> 0")
    case True
    then have "refundContractDeposit P cs db a ctx = db"
      by (auto simp: refundContractDeposit_def Let_def pay_def split: if_splits)
    then show ?thesis using ok_step_refl [OF assms(1)] by simp
  next
    case False
    then have r: "refundContractDeposit P cs db a ctx = setBalance P cs ?db a (getBalance ?db a + pay)"
      by (auto simp: refundContractDeposit_def Let_def pay_def)
    have "pay \<le> getBalance db ?e" by (simp add: pay_def)
    note 1 = ok_step_escrow [OF ok_step_debit [OF assms(1,2) escrow_length this, of cs]]
    have "0 \<le> pay" using False by simp
    from ok_step_trans [OF 1 ok_step_credit [OF ok_step_sys [OF 1] assms(2,3) this]] show ?thesis by (simp add: r)
  qed
qed

lemma ok_step_delContract:
  assumes "sys_ok P db" "third_ok P" "few_slots db" "length a = AddressSize"
  shows "ok_step P cs 0 0 {} db (delContract P cs db a)"
proof -
  have steps: "state_steps P cs db (delContract P cs db a)" by (rule state_steps_step [OF step_delContract [OF assms(4)]])
  have "db_inv P (delContract P cs db a)" using state_steps_inv [OF steps] assms(1,2) by (simp add: sys_ok_def third_ok_def)
  moreover have "store_ok P (delContract P cs db a)" using assms(1) by (intro delContract_store(1) [OF _ assms(3)]) (simp add: sys_ok_def)
  moreover have "length (bdel (dbContract db) a) \<le> length (dbContract db)" by (simp add: bdel_def)
  ultimately show ?thesis using steps
    by (simp add: ok_step_def sys_ok_def totalSupply_def no_slot_def getBalance_def bucket_simps)
qed

lemma ok_step_handle_destroy:
  assumes "handle_destroy P network cs db tx sender slot bt gas = Inr (db', gas')"
    "sys_ok P db" "third_ok P" "few_slots db" "length sender = AddressSize"
  shows "ok_step P cs 0 0 {} db db'"
proof -
  obtain db1 gas1 ok where r: "runContract P cs db sender tx EntryOnUpgrade bt gas = (db1, gas1, ok)" by (metis prod_cases3)
  note 1 = ok_step_runContract [OF r assms(2-4)]
  show ?thesis
  proof (cases ok)
    case False
    then show ?thesis using assms(1) r 1 by (auto simp: handle_destroy_def split: if_splits)
  next
    case True
    then obtain db2 where db2: "releaseContractDeps P cs db1 slot = Inr db2"
      "db' = delContract P cs (if IsForkActive network ForkStateRent (txHeight tx)
         then refundContractDeposit P cs db2 sender (ctContext slot) else db2) sender"
      using assms(1) r by (auto simp: handle_destroy_def result_simps Let_def split: if_splits)
    note 2 = ok_step_trans [OF 1 ok_step_releaseContractDeps [OF db2(1) ok_step_sys [OF 1] assms(3) ok_step_few [OF 1 assms(4)]]]
    let ?db3 = "if IsForkActive network ForkStateRent (txHeight tx)
         then refundContractDeposit P cs db2 sender (ctContext slot) else db2"
    have "ok_step P cs 0 0 {} db2 ?db3"
      using ok_step_refl [OF ok_step_sys [OF 2]] ok_step_refund [OF ok_step_sys [OF 2] assms(3,5)] by simp
    from ok_step_trans [OF 2 this] have 3: "ok_step P cs 0 0 {} db ?db3" by simp
    from ok_step_trans [OF 3 ok_step_delContract [OF ok_step_sys [OF 3] assms(3) ok_step_few [OF 3 assms(4)] assms(5)]]
    show ?thesis by (simp add: db2(2))
  qed
qed

lemma ok_step_handleDeploy:
  assumes "handleDeploy P network cs db tx bt gas = Inr (db', gas')" "sys_ok P db" "third_ok P" "room 1 db"
  obtains sender where "FullTx_From P tx = Inr sender" "ok_step P cs 1 (- txFee tx) {sender} db db'"
proof -
  obtain db1 sender newSource where c: "CheckDeploy P tx (keyResolver db) = Inr ()"
    "chargeFrom P cs db tx (TotalExpenditure tx) = Inr (db1, sender)" "DecodeCommitCode P (txExtra tx) = Inr newSource"
    using assms(1) by (auto simp: handleDeploy_def result_simps)
  have "txValue tx = 0" using c(1) by (auto simp: CheckDeploy_def checkNoTransfer_def result_simps split: if_splits)
  with ok_step_chargeFrom [OF c(2) assms(2,3)]
  have 1: "ok_step P cs 0 (- txFee tx) {sender} db db1" and f: "FullTx_From P tx = Inr sender"
    by (simp_all add: TotalExpenditure_def)
  note len = From_length [OF f] and sys = ok_step_sys [OF 1]
  have room: "room 1 db1" by (rule ok_step_room [OF 1]) (use assms(4) in simp)
  note few = room_few [OF room]
  define live where "live = (case getContract P db1 sender of Inl _ \<Rightarrow> None
    | Inr s \<Rightarrow> if IsActive s \<and> length (ctSource s) \<noteq> 0 then Some s else None)"
  have slot: "ctOwner slot = sender \<and> ctx_ok (ctContext slot)" if "live = Some slot" for slot
    using that sys_slots [OF sys] by (auto simp: live_def slots_ok_def split: sum.splits if_splits)
  have main: "ok_step P cs 1 0 {sender} db1 db'"
  proof (cases "newSource = []")
    case True
    then obtain s where "handle_destroy P network cs db1 tx sender s bt gas = Inr (db', gas')"
      using assms(1) c by (auto simp: handleDeploy_def live_def [symmetric] Let_def split: if_splits option.splits)
    from ok_step_weaken [OF ok_step_handle_destroy [OF this sys assms(3) few len]] show ?thesis by simp
  next
    case False
    show ?thesis
    proof (cases live)
      case None
      then obtain newDeps where
        "install_code P cs db1 tx sender (NewContract sender [] None) newSource newDeps bt gas = Inr (db', gas')"
        using assms(1) c False
        by (auto simp: handleDeploy_def live_def [symmetric] Let_def result_simps split: if_splits)
      then show ?thesis by (rule ok_step_install_code) (use room in \<open>simp_all add: len ctx_ok_setters sys assms(3)\<close>)
    next
      case (Some s)
      obtain db2 gas2 ok where r: "runContract P cs db1 sender tx EntryOnUpgrade bt gas = (db2, gas2, ok)" by (metis prod_cases3)
      note 2 = ok_step_runContract [OF r sys assms(3) few]
      show ?thesis
      proof (cases ok)
        case False
        then have "db' = db2" using assms(1) c \<open>newSource \<noteq> []\<close> Some r
          by (auto simp: handleDeploy_def live_def [symmetric] Let_def result_simps split: if_splits)
        then show ?thesis using ok_step_weaken [OF 2] by simp
      next
        case True
        then obtain newDeps db3 where db3: "releaseContractDeps P cs db2 s = Inr db3"
          "install_code P cs db3 tx sender s newSource newDeps bt gas2 = Inr (db', gas')"
          using assms(1) c \<open>newSource \<noteq> []\<close> Some r
          by (auto simp: handleDeploy_def live_def [symmetric] Let_def result_simps split: if_splits)
        note 3 = ok_step_trans [OF 2 ok_step_releaseContractDeps [OF db3(1) ok_step_sys [OF 2] assms(3) ok_step_few [OF 2 few]]]
        have "room 1 db3" by (rule ok_step_room [OF 3]) (use room in simp)
        then have "ok_step P cs 1 0 {sender} db3 db'"
          using slot [OF Some] by (intro ok_step_install_code [OF db3(2)]) (simp_all add: len ok_step_sys [OF 3] assms(3))
        from ok_step_trans [OF 3 this] show ?thesis by simp
      qed
    qed
  qed
  from ok_step_trans [OF 1 main] f that show ?thesis by simp
qed

section \<open>Blocks\<close>

text \<open>The accounts that authorise something in a block, and what a block mints and burns.\<close>

definition tx_sender :: "'p prims_scheme \<Rightarrow> FullTx \<Rightarrow> Address set" where
  "tx_sender P tx = (if txType tx = GenerateTx then {} else case FullTx_From P tx of Inl _ \<Rightarrow> {} | Inr a \<Rightarrow> {a})"

definition tx_supply :: "FullTx \<Rightarrow> int" where
  "tx_supply tx = (if txType tx = GenerateTx then txValue tx else - txFee tx)"

definition commit_sender :: "'p prims_scheme \<Rightarrow> Commitment \<Rightarrow> Address set" where
  "commit_sender P c = (case Commitment_From P c of Inl _ \<Rightarrow> {} | Inr a \<Rightarrow> {a})"

definition commit_supply :: "Commitment \<Rightarrow> int" where
  "commit_supply c = (case cmFee c of None \<Rightarrow> 0 | Some fee \<Rightarrow> - fee)"

definition block_senders :: "'p prims_scheme \<Rightarrow> FullBlock \<Rightarrow> Address set" where
  "block_senders P b = (\<Union>c \<in> set (bkCommits b). commit_sender P c) \<union> (\<Union>tx \<in> set (bkTxs b). tx_sender P tx)"

definition block_supply :: "FullBlock \<Rightarrow> int" where
  "block_supply b = sum_list (map commit_supply (bkCommits b)) + sum_list (map tx_supply (bkTxs b))"

definition block_typed :: "FullBlock \<Rightarrow> bool" where
  "block_typed b \<longleftrightarrow> (\<forall>tx \<in> set (bkTxs b). tx_typed tx)"

lemma ok_step_handle_tx:
  assumes "handle_tx P network cs bt st tx = Inr st'" "sys_ok P (fst st)" "third_ok P" "room 1 (fst st)" "tx_typed tx"
  shows "ok_step P cs 1 (tx_supply tx) (tx_sender P tx) (fst st) (fst st')"
proof -
  obtain db gas where st: "st = (db, gas)" by (cases st)
  obtain db' gas' where st': "st' = (db', gas')" by (cases st')
  note few = room_few [OF assms(4)]
  show ?thesis
  proof (cases "txType tx = GenerateTx")
    case True
    then have "handleGenerate P cs db tx = Inr db'"
      using assms(1) by (auto simp: handle_tx_def st st' result_simps split: if_splits)
    from ok_step_weaken [OF ok_step_handleGenerate [OF this _ assms(3,5)]] assms(2) st show ?thesis
      by (simp add: st' tx_supply_def True)
  next
    case False
    then obtain db1 db2 gas2 where 1: "consumeReveal P db tx = Inr db1" "runValidate P cs db1 tx bt gas = Inr (db2, gas2)"
      and h: "handleTransaction P cs db2 tx bt gas2 = Inr (db', gas') \<or> handleDeploy P network cs db2 tx bt gas2 = Inr (db', gas')"
      using assms(1) by (auto simp: handle_tx_def st st' result_simps split: if_splits)
    have sys: "sys_ok P db" "few_slots db" using assms(2) few by (simp_all add: st)
    note s1 = ok_step_consumeReveal [OF 1(1) sys(1) assms(3), of cs]
    note s2 = ok_step_trans [OF s1 ok_step_runValidate [OF 1(2) ok_step_sys [OF s1] assms(3) ok_step_few [OF s1 sys(2)]]]
    have room: "room 1 db2" by (rule ok_step_room [OF s2]) (use assms(4) in \<open>simp add: st\<close>)
    from h obtain sender where sender: "FullTx_From P tx = Inr sender" "ok_step P cs 1 (- txFee tx) {sender} db2 db'"
    proof
      assume "handleTransaction P cs db2 tx bt gas2 = Inr (db', gas')"
      from ok_step_handleTransaction [OF this ok_step_sys [OF s2] assms(3) room_few [OF room] assms(5)] that
      show ?thesis using ok_step_weaken by (metis le_numeral_extra(1) subset_refl)
    next
      assume "handleDeploy P network cs db2 tx bt gas2 = Inr (db', gas')"
      from ok_step_handleDeploy [OF this ok_step_sys [OF s2] assms(3) room] that show ?thesis by metis
    qed
    from ok_step_trans [OF s2 sender(2)] show ?thesis
      using False sender(1) by (simp add: st st' tx_supply_def tx_sender_def)
  qed
qed

lemma ok_step_handle_commit:
  assumes "handle_commit P cs db c = Inr db'" "sys_ok P db" "third_ok P"
  shows "ok_step P cs 0 (commit_supply c) (commit_sender P c) db db'"
proof -
  obtain sender fee where f: "Commitment_From P c = Inr sender" "cmFee c = Some fee" "fee \<le> getBalance db sender"
    "db' = putCommit P (setBalance P cs db sender (getBalance db sender - fee)) (cmHeight c) (cmHash c) sender"
    using assms(1) by (auto simp: handle_commit_def result_simps Let_def split: if_splits option.splits)
  let ?db = "setBalance P cs db sender (getBalance db sender - fee)"
  note len = Commitment_From_length [OF f(1)]
  note 1 = ok_step_debit [OF assms(2,3) len f(3), of cs]
  have "sender \<noteq> []" using len by (auto simp: AddressSize_def)
  then have "state_steps P cs ?db db'" unfolding f(4) by (rule state_steps_step [OF step_commit])
  then have "ok_step P cs 0 0 {} ?db db'"
    by (rule ok_step_frame [OF ok_step_sys [OF 1] assms(3)])
      (use commits_only_frame [OF commits_only_ops(1) [of ?db P "cmHeight c" "cmHash c" sender]] in \<open>simp_all add: f(4)\<close>)
  from ok_step_trans [OF 1 this] show ?thesis by (simp add: f commit_supply_def commit_sender_def)
qed

lemma ok_step_updateBeacon:
  assumes "sys_ok P db" "third_ok P"
  shows "ok_step P cs 0 0 {} db (updateBeacon P cs db block)"
proof -
  have "Hash256 P x \<noteq> []" for x
    using hash32_length [of "Hash256 P" x] assms(2) by (auto simp: third_ok_def prims_ok_def HashSize_def)
  then have seed: "ok_step P cs 0 0 {} db (setBeacon P cs db (Hash256 P x))" for x
    by (intro ok_step_frame [OF assms state_steps_step [OF step_beacon]]) simp_all
  show ?thesis using ok_step_refl [OF assms(1)] seed by (auto simp: updateBeacon_def Let_def)
qed

lemma ok_step_prune:
  assumes "sys_ok P db" "third_ok P"
  shows "ok_step P cs 0 0 {} db (pruneCommits P db tip)"
  by (rule ok_step_frame [OF assms state_steps_step [OF step_prune]])
    (simp_all add: commits_only_frame [OF commits_only_ops(4)])

text \<open>The guarantees of a block.\<close>

lemma Upgrade_ok:
  assumes "Upgrade P network archive db b = Inr db'" "sys_ok P db" "third_ok P" "room (length (bkTxs b)) db" "block_typed b"
  shows "ok_step P (if archive then Some (hdHeight (bkHeader b)) else None) (length (bkTxs b)) (block_supply b)
    (block_senders P b) db db'"
proof -
  define cs where "cs = (if archive then Some (hdHeight (bkHeader b)) else None)"
  obtain db1 db2 gas where u: "handleCommits P cs db b = Inr db1"
    "foldM (handle_tx P network cs (hdTimestamp (bkHeader b))) (bkTxs b) (db1, Some MaxBlockGas) = Inr (db2, gas)"
    "db' = pruneCommits P (updateBeacon P cs db2 b) (hdHeight (bkHeader b))"
    using assms(1) by (auto simp: Upgrade_def Let_def cs_def HandleTxs_def result_simps)
  have "ok_step P cs (sum_list (map (\<lambda>_. 0) (bkCommits b))) (sum_list (map commit_supply (bkCommits b)))
      (\<Union>c \<in> set (bkCommits b). commit_sender P c) db db1"
  proof (rule ok_step_foldM [of _ _ _ _ P "\<lambda>db. db", OF u(1) [unfolded handleCommits_def] assms(2)])
    show "room (sum_list (map (\<lambda>_. 0) (bkCommits b))) db" using assms(4) by (simp add: room_def)
    fix c d d' assume "sys_ok P d" "handle_commit P cs d c = Inr d'"
    then show "ok_step P cs 0 (commit_supply c) (commit_sender P c) d d'" by (intro ok_step_handle_commit assms(3))
  qed
  then have 1: "ok_step P cs 0 (sum_list (map commit_supply (bkCommits b))) (\<Union>c \<in> set (bkCommits b). commit_sender P c) db db1"
    by simp
  have "room (sum_list (map (\<lambda>_. 1) (bkTxs b))) db1"
    by (rule ok_step_room [OF 1]) (use assms(4) in \<open>simp add: sum_list_triv\<close>)
  then have "ok_step P cs (sum_list (map (\<lambda>_. 1) (bkTxs b))) (sum_list (map tx_supply (bkTxs b)))
      (\<Union>tx \<in> set (bkTxs b). tx_sender P tx) (fst (db1, Some MaxBlockGas)) (fst (db2, gas))"
    by (intro ok_step_foldM [OF u(2)])
      (use ok_step_sys [OF 1] assms(3,5) in \<open>auto dest!: ok_step_handle_tx simp: block_typed_def\<close>)
  then have 2: "ok_step P cs (length (bkTxs b)) (sum_list (map tx_supply (bkTxs b))) (\<Union>tx \<in> set (bkTxs b). tx_sender P tx) db1 db2"
    by (simp add: sum_list_triv)
  note 3 = ok_step_updateBeacon [OF ok_step_sys [OF 2] assms(3), of cs b]
  note 4 = ok_step_prune [OF ok_step_sys [OF 3] assms(3), of cs "hdHeight (bkHeader b)"]
  from ok_step_trans [OF ok_step_trans [OF 1 2] ok_step_trans [OF 3 4]]
  show ?thesis by (simp add: u(3) block_supply_def block_senders_def cs_def)
qed

end
