(* ===== verification/Ledger.thy ===== *)
theory Ledger
  imports Transition
begin

text \<open>
  What the application of a block guarantees for the ledger: the state stays well formed and its root
  reproducible, the supply changes by what is minted and burned, and nobody loses coins without having
  signed something.  The results rest on \<open>Upgrade_ok\<close> and \<open>runContract_cases\<close>.
\<close>

section \<open>A concrete machine\<close>

text \<open>An instance of the third-party functions for evaluation on examples: every non-empty byte string is
  a module without imports whose calls burn five units of toll.\<close>

definition demo_module :: "bytes \<Rightarrow> wmodule option" where
  "demo_module src = (if src = [] then None
     else Some \<lparr>wmSource = src, wmTypes = [], wmImports = [], wmFunctions = [], wmExports = []\<rparr>)"

definition demo_toll :: "u64 \<Rightarrow> u64 \<Rightarrow> u64 \<times> bool" where
  "demo_toll t c = (if unat t + unat c \<le> unat vmMaxToll then (t + c, True) else (t, False))"

definition demo_vm :: "unit vprims" where
  "demo_vm = sprims.extend demo_store
     \<lparr>newModule = demo_module, instantiate = (\<lambda>_ _. Done [] ()), callExport = (\<lambda>_ _ _. Burn 5 () (Done [] ())),
      tollAdd = demo_toll, defineFunc = (\<lambda>_. True), recoverErr = (\<lambda>e. e), errText = (\<lambda>_. []),
      bs58Decode = (\<lambda>_. None), rlpDeps = concat, rlpDepsDec = (\<lambda>_. Some []),
      rlpReceipt = (\<lambda>_. []), rlpReceiptDec = (\<lambda>_. None)\<rparr>"

lemma demo_vm_simps [simp]:
  "Hash256 demo_vm = pad32" "rlpStored demo_vm = demo_stored" "rlpStoredDec demo_vm = demo_unstored"
  "newModule demo_vm = demo_module" "instantiate demo_vm = (\<lambda>_ _. Done [] ())"
  "callExport demo_vm = (\<lambda>_ _ _. Burn 5 () (Done [] ()))" "tollAdd demo_vm = demo_toll"
  by (simp_all add: demo_vm_def demo_store_def demo_prims_def prims.defs sprims.defs)

lemma demo_vm_ok: "third_ok demo_vm"
proof -
  have "rlp_ok demo_vm" by (simp add: rlp_ok_def demo_stored_roundtrip)
  moreover have "demo_stored sc \<noteq> []" for sc
    by (cases "scOwner sc") (simp_all add: demo_stored_def)
  moreover have "length (scOwner sc) = AddressSize" if "demo_unstored raw = Some sc" for raw sc
    using that by (auto simp: demo_unstored_def split: option.splits if_splits prod.splits)
  ultimately have "prims_ok demo_vm" "rlp_ok demo_vm" using hash32_pad32 by (simp_all add: prims_ok_def)
  then show ?thesis by (simp add: third_ok_def)
qed

section \<open>Plain transfers\<close>

lemma consumeReveal_frame:
  assumes "consumeReveal P db tx = Inr db'"
  shows "dbBal db' = dbBal db" "dbContract db' = dbContract db" "keyResolver db' = keyResolver db"
proof -
  have "commits_only db db'"
    using assms commits_only_trans [OF commits_only_ops(3) commits_only_ops(2)]
    by (auto simp: consumeReveal_def result_simps Let_def split: if_splits option.splits)
  from commits_only_frame [OF this] show "dbBal db' = dbBal db" "dbContract db' = dbContract db"
    "keyResolver db' = keyResolver db" by (simp_all add: keyResolver_def)
qed

lemma no_slot_runs:
  assumes "no_slot db a"
  shows "contractExists db a = False" "getContract P db a = Inl ErrKeyNotFound"
  using assms by (simp_all add: getContract_missing) (simp add: no_slot_def contractExists_def)

lemma transfer_after_reveal:
  assumes "txType tx = TransactTx" "FullTx_Verify P tx (keyResolver db) = Inr ()" "FullTx_From P tx = Inr sender"
    and db1: "consumeReveal P db tx = Inr db1"
    and "TotalExpenditure tx \<le> getBalance db sender" "0 \<le> txValue tx" "no_slot db sender" "no_slot db (txTo tx)"
  shows "\<exists>db'. handle_tx P network cs bt (db, gas) tx = Inr (db', gas) \<and> dbCommit db' = dbCommit db1 \<and>
    (\<forall>a. getBalance db' a = getBalance db a - (if a = sender then txValue tx + txFee tx else 0) + (if a = txTo tx then txValue tx else 0))"
proof -
  note f = consumeReveal_frame [OF db1]
  let ?db2 = "registerPubKey P cs db1 tx"
  have bal: "getBalance ?db2 a = getBalance db a" for a by (simp add: getBalance_def f)
  have slots: "no_slot db1 sender" "no_slot db1 (txTo tx)" using assms(7,8) f by (simp_all add: no_slot_def)
  let ?db3 = "setBalance P cs ?db2 sender (getBalance db sender - TotalExpenditure tx)"
  let ?db4 = "setBalance P cs ?db3 (txTo tx) (getBalance ?db3 (txTo tx) + txValue tx)"
  have "chargeFrom P cs db1 tx (TotalExpenditure tx) = Inr (?db3, sender)"
    using assms(2,3,5) f(3) bal by (simp add: chargeFrom_def Let_def result_simps)
  moreover have "contractExists ?db4 (txTo tx) = False"
    using slots(2) by (intro no_slot_runs) (simp add: no_slot_def)
  ultimately have "handleTransaction P cs db1 tx bt gas = Inr (?db4, gas)"
    by (simp add: handleTransaction_def result_simps Let_def)
  moreover have "runValidate P cs db1 tx bt gas = Inr (db1, gas)"
    using no_slot_runs(2) [OF slots(1), of P] assms(3) by (simp add: runValidate_def result_simps)
  ultimately have "handle_tx P network cs bt (db, gas) tx = Inr (?db4, gas)"
    using assms(1) db1 by (simp add: handle_tx_def result_simps tx_type_defs)
  moreover have "getBalance ?db4 a = getBalance db a - (if a = sender then txValue tx + txFee tx else 0)
      + (if a = txTo tx then txValue tx else 0)" for a
    using assms(5,6) by (simp add: getBalance_setBalance bal TotalExpenditure_def)
  moreover have "dbCommit ?db4 = dbCommit db1" by simp
  ultimately show ?thesis by blast
qed

lemma handle_tx_transfer:
  assumes "txType tx = TransactTx" "FullTx_Verify P tx (keyResolver db) = Inr ()" "FullTx_From P tx = Inr sender"
    "txHeight tx \<noteq> 0" "findCommit db sender (revealHash P tx) (txHeight tx) = Some h" "MinSaltSize \<le> length (txSalt tx)"
    "TotalExpenditure tx \<le> getBalance db sender" "0 \<le> txValue tx" "no_slot db sender" "no_slot db (txTo tx)"
  shows "\<exists>db'. handle_tx P network cs bt (db, gas) tx = Inr (db', gas) \<and>
    (\<forall>a. getBalance db' a = getBalance db a - (if a = sender then txValue tx + txFee tx else 0) + (if a = txTo tx then txValue tx else 0)) \<and>
    bget (dbCommit db') (commitKey h (revealHash P tx)) = None"
proof -
  obtain db1 where db1: "consumeReveal P db tx = Inr db1" "dbCommit db1 = bdel (dbCommit db) (commitKey h (revealHash P tx))"
    using assms(3-6) by (simp add: consumeReveal_def Let_def result_simps consumeCommit_def journalConsumed_def trie_wrappers)
  from transfer_after_reveal [OF assms(1-3) db1(1) assms(7-10), of network cs bt gas] db1(2) show ?thesis by (auto simp: bget_bdel)
qed

text \<open>C24: a committed plain transfer goes through and moves exactly its value. If the sender of a signed
  transact transaction has a matching commitment inside the reveal window, a long enough salt and a
  balance that covers value and fee, and neither side holds a contract, then handling it succeeds, spends
  no block gas, takes value and fee from the sender, credits the recipient, changes no other balance and
  removes the commitment it consumed.\<close>

theorem transfer_moves_value:
  assumes "txType tx = TransactTx" "FullTx_Verify P tx (keyResolver db) = Inr ()" "FullTx_From P tx = Inr sender"
    "txHeight tx \<noteq> 0" "findCommit db sender (revealHash P tx) (txHeight tx) = Some h" "MinSaltSize \<le> length (txSalt tx)"
    "TotalExpenditure tx \<le> getBalance db sender" "0 \<le> txValue tx" "no_slot db sender" "no_slot db (txTo tx)"
  shows "\<exists>db'. handle_tx P network cs bt (db, gas) tx = Inr (db', gas) \<and>
    (\<forall>a. getBalance db' a = getBalance db a - (if a = sender then txValue tx + txFee tx else 0) + (if a = txTo tx then txValue tx else 0)) \<and>
    bget (dbCommit db') (commitKey h (revealHash P tx)) = None"
  by (rule handle_tx_transfer [OF assms])

text \<open>A ledger in which one account holds a hundred coins and has committed to a transfer.\<close>

lemmas demo_vm_defs = demo_vm_def demo_store_def demo_prims_def prims.defs sprims.defs

definition demo_sender :: Address where
  "demo_sender = AddressOfPubKey demo_vm SchemeSecp256k1 (replicate 33 7)"

definition demo_ledger :: DB where
  "demo_ledger = putCommit demo_vm (setBalance demo_vm (Some 4) InitDB demo_sender 100) 4 (revealHash demo_vm demo_tx) demo_sender"

lemma demo_tx_vm: "FullTx_Verify demo_vm demo_tx lookup = Inr ()" "FullTx_From demo_vm demo_tx = Inr demo_sender"
proof -
  show "FullTx_Verify demo_vm demo_tx lookup = Inr ()"
    by (simp add: FullTx_Verify_def FullTx_envelope_def envelope_def envelope_tags demo_tx_def demo_vm_defs
        PubKeySize_def SigSize_def HasRecovery_def RecoverPubKey_def VerifyHashSig_def scheme_defs Let_def)
  show "FullTx_From demo_vm demo_tx = Inr demo_sender"
    by (simp add: FullTx_From_def envelope_from_def envelope_def envelope_tags demo_tx_def demo_vm_defs demo_sender_def
        PubKeySize_def SigSize_def HasRecovery_def RecoverPubKey_def VerifyHashSig_def scheme_defs Let_def)
qed


lemma demo_tx_fields:
  "txType demo_tx = TransactTx" "txHeight demo_tx \<noteq> 0" "MinSaltSize \<le> length (txSalt demo_tx)"
  "TotalExpenditure demo_tx = 73" "txValue demo_tx = 70" "txFee demo_tx = 3" "txTo demo_tx = replicate 32 9"
  by (simp_all add: demo_tx_def MinSaltSize_def TotalExpenditure_def)

lemma demo_ledger_ok: "sys_ok demo_vm demo_ledger"
proof -
  note len = From_length [OF demo_tx_vm(2)]
  then have "demo_sender \<noteq> []" by (auto simp: AddressSize_def)
  then have "state_steps demo_vm (Some 4) InitDB demo_ledger" unfolding demo_ledger_def
    by (rule state_steps_trans [OF state_steps_step [OF step_balance [OF len]] state_steps_step [OF step_commit]])
  from state_steps_inv [OF this] have "db_inv demo_vm demo_ledger"
    using demo_vm_ok db_inv_InitDB [of demo_vm] hash32_pad32 by (simp add: third_ok_def)
  moreover have "store_ok demo_vm demo_ledger"
    by (rule store_ok_empty) (simp_all add: demo_ledger_def commits_only_frame [OF commits_only_ops(1)] InitDB_def)
  ultimately show ?thesis by (simp add: sys_ok_def)
qed

lemma demo_ledger_commit:
  assumes "dbCommit db = dbCommit demo_ledger"
  obtains h where "findCommit db demo_sender (revealHash demo_vm demo_tx) (txHeight demo_tx) = Some h"
proof -
  have "bget (dbCommit db) (commitKey 4 (revealHash demo_vm demo_tx)) = Some demo_sender"
    by (simp add: assms demo_ledger_def putCommit_def Let_def trie_wrappers bucket_simps)
  then have "findCommit db demo_sender (revealHash demo_vm demo_tx) 5 \<noteq> None"
    using findCommit_None [of db demo_sender "revealHash demo_vm demo_tx" 5 4]
    by (auto simp: in_window_def CommitWindow_def)
  then show ?thesis using that by (auto simp: demo_tx_def)
qed

lemma demo_ledger_frame:
  "getBalance demo_ledger a = (if a = demo_sender then 100 else 0)" "no_slot demo_ledger a"
  by (simp_all add: demo_ledger_def getBalance_def no_slot_def commits_only_frame [OF commits_only_ops(1)] bucket_simps InitDB_def)

lemma demo_sender_hd: "hd demo_sender = addressVersion"
  by (simp add: demo_sender_def AddressOfPubKey_def pad32_def scheme_defs HashSize_def AddressSize_def copy_at_def)

theorem transfer_moves_value_witness:
  "\<exists>db'. handle_tx demo_vm ZERONET None 0 (demo_ledger, Some MaxBlockGas) demo_tx = Inr (db', Some MaxBlockGas) \<and>
    getBalance db' demo_sender = 27 \<and> getBalance db' (replicate 32 9) = 70"
proof -
  obtain h where h: "findCommit demo_ledger demo_sender (revealHash demo_vm demo_tx) (txHeight demo_tx) = Some h"
    using demo_ledger_commit by blast
  have "hd demo_sender \<noteq> hd (replicate 32 9)" unfolding demo_sender_hd by (simp add: addressVersion_def)
  then have ne: "demo_sender \<noteq> replicate 32 9" by metis
  from transfer_moves_value [OF demo_tx_fields(1) demo_tx_vm demo_tx_fields(2) h demo_tx_fields(3) _ _ demo_ledger_frame(2,2), of ZERONET None 0 "Some MaxBlockGas"]
  show ?thesis using ne by (auto simp: demo_ledger_frame demo_tx_fields)
qed

section \<open>Blocks\<close>

text \<open>C4: applying a block keeps the state sound. From a well-formed state, a block whose transactions
  carry non-negative amounts and 32-byte recipients leaves a well-formed state: buckets, contract slots,
  the reference counts of the code registry and the state tree agree, and the root it commits to is the
  one a rebuild from the buckets produces, for as long as leaf hashes do not collide.\<close>

theorem Upgrade_keeps_state:
  assumes "Upgrade P network archive db b = Inr db'" "sys_ok P db" "third_ok P" "room (length (bkTxs b)) db" "block_typed b"
  shows "sys_ok P db' \<and> (leaf_inj P db' \<longrightarrow> (\<exists>u. RebuildTrie P db' = Inr (db'\<lparr>dbTouched := u\<rparr>) \<and>
    StateRoot P (db'\<lparr>dbTouched := u\<rparr>) = StateRoot P db'))"
proof -
  have "sys_ok P db'" by (rule ok_step_sys [OF Upgrade_ok [OF assms]])
  with assms(3) show ?thesis using RebuildTrie_sync [of P db']
    by (auto simp: sys_ok_def third_ok_def prims_ok_def db_inv_def StateRoot_def)
qed

text \<open>C2: the supply law. A block changes the sum of all balances by the coins its generates mint less
  the fees its other transactions and commitments burn; contract runs, deposits and refunds in between
  neither create nor destroy a coin.\<close>

theorem Upgrade_supply:
  assumes "Upgrade P network archive db b = Inr db'" "sys_ok P db" "third_ok P" "room (length (bkTxs b)) db" "block_typed b"
  shows "totalSupply db' = totalSupply db + sum_list (map commit_supply (bkCommits b)) + sum_list (map tx_supply (bkTxs b))"
  using Upgrade_ok [OF assms] by (simp add: ok_step_def block_supply_def)

text \<open>C1: no theft. Whatever contracts a block runs, an account that holds no contract and is the sender
  of none of the block's transactions and commitments has at least its old balance afterwards; only the
  deposit escrow is exempt.\<close>

theorem Upgrade_no_theft:
  assumes "Upgrade P network archive db b = Inr db'" "sys_ok P db" "third_ok P" "room (length (bkTxs b)) db" "block_typed b"
    and "\<forall>tx \<in> set (bkTxs b). txType tx \<noteq> GenerateTx \<longrightarrow> FullTx_From P tx \<noteq> Inr x"
    and "\<forall>c \<in> set (bkCommits b). Commitment_From P c \<noteq> Inr x" "no_slot db x" "x \<noteq> storageDepositEscrowAddr"
  shows "getBalance db x \<le> getBalance db' x \<and> no_slot db' x"
proof -
  have "x \<notin> block_senders P b"
    using assms(6,7) by (auto simp: block_senders_def tx_sender_def commit_sender_def split: sum.splits if_splits)
  then show ?thesis using Upgrade_ok [OF assms(1-5)] assms(8,9) by (simp add: ok_step_def)
qed

text \<open>A block that mints ten coins and carries the committed transfer.\<close>

definition demo_generate :: FullTx where
  "demo_generate = demo_tx\<lparr>txType := GenerateTx, txTo := replicate 32 8, txValue := 10, txFee := 0, txSign := []\<rparr>"

definition demo_upgrade :: FullBlock where
  "demo_upgrade = demo_block\<lparr>bkTxs := [demo_generate, demo_tx]\<rparr>"

lemma demo_block_applies:
  assumes "bkTxs b = [demo_generate, demo_tx]" "bkCommits b = []"
  shows "\<exists>db'. Upgrade demo_vm ZERONET True demo_ledger b = Inr db'"
proof -
  let ?cs = "Some (hdHeight (bkHeader b))"
  let ?db = "setBalance demo_vm ?cs demo_ledger (replicate 32 8) (getBalance demo_ledger (replicate 32 8) + 10)"
  have gen: "handle_tx demo_vm ZERONET ?cs bt (demo_ledger, gas) demo_generate = Inr (?db, gas)" for bt gas
    by (simp add: handle_tx_def demo_generate_def tx_type_defs handleGenerate_def result_simps)
  obtain h where h5: "findCommit ?db demo_sender (revealHash demo_vm demo_tx) (txHeight demo_tx) = Some h"
    using demo_ledger_commit [of ?db] by auto
  have slot: "no_slot ?db a" for a using demo_ledger_frame(2) [of a] by (simp add: no_slot_def)
  have bal: "TotalExpenditure demo_tx \<le> getBalance ?db demo_sender"
  proof -
    have "hd demo_sender \<noteq> hd (replicate 32 8)" unfolding demo_sender_hd by (simp add: addressVersion_def)
    then have "demo_sender \<noteq> replicate 32 8" by metis
    then show ?thesis by (simp add: getBalance_setBalance demo_ledger_frame demo_tx_fields)
  qed
  have "0 \<le> txValue demo_tx" by (simp add: demo_tx_fields)
  from handle_tx_transfer [OF demo_tx_fields(1) demo_tx_vm demo_tx_fields(2) h5 demo_tx_fields(3) bal this slot slot,
    of ZERONET ?cs "hdTimestamp (bkHeader b)" "Some MaxBlockGas"]
  obtain db2 where "handle_tx demo_vm ZERONET ?cs (hdTimestamp (bkHeader b)) (?db, Some MaxBlockGas) demo_tx
      = Inr (db2, Some MaxBlockGas)" by blast
  with gen show ?thesis by (simp add: Upgrade_def Let_def handleCommits_def HandleTxs_def assms result_simps)
qed

lemma demo_upgrade_applies: "\<exists>db'. Upgrade demo_vm ZERONET True demo_ledger demo_upgrade = Inr db'"
  by (rule demo_block_applies) (simp_all add: demo_upgrade_def demo_block_def NewBlock_def)

lemma demo_upgrade_room: "room (length (bkTxs demo_upgrade)) demo_ledger" "block_typed demo_upgrade"
proof -
  have "dbContract demo_ledger = []" by (simp add: demo_ledger_def commits_only_frame [OF commits_only_ops(1)] InitDB_def bempty_def)
  then show "room (length (bkTxs demo_upgrade)) demo_ledger" by (simp add: room_def demo_upgrade_def)
  show "block_typed demo_upgrade"
    by (simp add: block_typed_def tx_typed_def demo_upgrade_def demo_generate_def demo_tx_def AddressSize_def)
qed

theorem Upgrade_supply_witness:
  "\<exists>db'. Upgrade demo_vm ZERONET True demo_ledger demo_upgrade = Inr db' \<and> totalSupply db' = totalSupply demo_ledger + 7"
proof -
  obtain db' where db': "Upgrade demo_vm ZERONET True demo_ledger demo_upgrade = Inr db'" using demo_upgrade_applies by blast
  from Upgrade_supply [OF this demo_ledger_ok demo_vm_ok demo_upgrade_room] have "totalSupply db' = totalSupply demo_ledger + 7"
    by (simp add: demo_upgrade_def demo_block_def NewBlock_def tx_supply_def demo_generate_def demo_tx_fields tx_type_defs)
  with db' show ?thesis by blast
qed

theorem Upgrade_keeps_state_witness:
  "\<exists>db'. Upgrade demo_vm ZERONET True demo_ledger demo_upgrade = Inr db' \<and> sys_ok demo_vm db'"
  using demo_upgrade_applies Upgrade_keeps_state [OF _ demo_ledger_ok demo_vm_ok demo_upgrade_room] by blast

theorem Upgrade_no_theft_witness:
  "\<exists>db'. Upgrade demo_vm ZERONET True demo_ledger demo_upgrade = Inr db' \<and>
    getBalance demo_ledger (replicate 32 6) \<le> getBalance db' (replicate 32 6)"
proof -
  obtain db' where db': "Upgrade demo_vm ZERONET True demo_ledger demo_upgrade = Inr db'" using demo_upgrade_applies by blast
  have "hd demo_sender \<noteq> hd (replicate 32 6)" unfolding demo_sender_hd by (simp add: addressVersion_def)
  then have ne: "demo_sender \<noteq> replicate 32 6" by metis
  have esc: "replicate 32 6 \<noteq> storageDepositEscrowAddr" 
    by (simp add: storageDepositEscrowAddr_def zeros_def AddressSize_def)
  from Upgrade_no_theft [OF db' demo_ledger_ok demo_vm_ok demo_upgrade_room, of "replicate 32 6"] ne esc db' show ?thesis
    by (auto simp: demo_upgrade_def demo_tx_vm demo_ledger_frame demo_generate_def demo_block_def NewBlock_def)
qed

section \<open>Branches\<close>

lemma apply_checked_ok:
  assumes "apply_checked P network archive db b = Inr db'" "sys_ok P db" "third_ok P" "room (length (bkTxs b) + k) db" "block_typed b"
  shows "sys_ok P db' \<and> totalSupply db' = totalSupply db + block_supply b \<and> room k db' \<and> StateRoot P db' = hdStateRoot (bkHeader b)"
proof -
  have up: "Upgrade P network archive db b = Inr db'" and root: "CheckStateRoot P db' (hdStateRoot (bkHeader b)) = Inr ()"
    using assms(1) by (auto simp: apply_checked_def result_simps)
  have "room (length (bkTxs b)) db" using assms(4) by (simp add: room_def)
  note step = Upgrade_ok [OF up assms(2,3) this assms(5)]
  with ok_step_room [OF step assms(4)] root show ?thesis
    by (auto simp: ok_step_def CheckStateRoot_def Let_def split: if_splits)
qed

text \<open>C9: a branch that applies is sound block by block. If a sequence of blocks is applied on a well-formed
  state, the final state is well formed, the supply has changed by the sum of the blocks' mints and burns,
  and the final state root is the one the last header commits to.\<close>

theorem ApplyBlocksTxn_sound:
  assumes "ApplyBlocksTxn P network archive db (bs @ [b]) = Inr db'" "sys_ok P db" "third_ok P"
    "room (sum_list (map (\<lambda>b. length (bkTxs b)) (bs @ [b]))) db" "\<forall>x \<in> set (bs @ [b]). block_typed x"
  shows "sys_ok P db' \<and> totalSupply db' = totalSupply db + sum_list (map block_supply (bs @ [b])) \<and>
    StateRoot P db' = hdStateRoot (bkHeader b)"
  using assms unfolding ApplyBlocksTxn_def
proof (induction bs arbitrary: db)
  case Nil
  then have "apply_checked P network archive db b = Inr db'" "room (length (bkTxs b) + 0) db" "block_typed b"
    by (simp_all add: result_simps)
  from apply_checked_ok [OF this(1) Nil.prems(2,3) this(2,3)] show ?case by simp
next
  case (Cons a bs)
  then obtain db1 where db1: "apply_checked P network archive db a = Inr db1"
    "foldM (apply_checked P network archive) (bs @ [b]) db1 = Inr db'" by (auto simp: result_simps)
  have "room (length (bkTxs a) + sum_list (map (\<lambda>b. length (bkTxs b)) (bs @ [b]))) db" "block_typed a" using Cons.prems by simp_all
  note 1 = apply_checked_ok [OF db1(1) Cons.prems(2,3) this]
  have "\<forall>x \<in> set (bs @ [b]). block_typed x" using Cons.prems(5) by simp
  from Cons.IH [OF db1(2) _ Cons.prems(3) _ this] 1 show ?case by simp
qed

text \<open>A mined block: its reward goes to the signer of the generate, and its header commits to the state it
  leaves.\<close>

definition demo_reward :: FullTx where
  "demo_reward = demo_tx\<lparr>txType := GenerateTx, txHeight := 1, txTo := demo_sender, txValue := GetBlockReward 1, txFee := 0\<rparr>"

definition demo_unrooted :: FullBlock where
  "demo_unrooted = SetCoinbase (demo_block\<lparr>bkTxs := [demo_reward]\<rparr>) demo_sender"

definition demo_mined :: FullBlock where
  "demo_mined = demo_unrooted\<lparr>bkHeader := (bkHeader demo_unrooted)\<lparr>hdStateRoot :=
     (case DryApplyRoot demo_vm ZERONET True demo_ledger demo_unrooted of Inl _ \<Rightarrow> [] | Inr r \<Rightarrow> r)\<rparr>\<rparr>"

lemma Upgrade_root_free:
  "Upgrade P network archive db (b\<lparr>bkHeader := (bkHeader b)\<lparr>hdStateRoot := r\<rparr>\<rparr>) = Upgrade P network archive db b"
  by (simp add: Upgrade_def handleCommits_def updateBeacon_def Let_def cong: if_cong)

lemma demo_mined_fields:
  "bkTxs demo_mined = [demo_reward]" "bkUncles demo_mined = []" "bkCommits demo_mined = []" "hdHeight (bkHeader demo_mined) = 1"
  "hdCoinbase (bkHeader demo_mined) = demo_sender" "hdNetwork (bkHeader demo_mined) = ZERONET"
  by (simp_all add: demo_mined_def demo_unrooted_def SetCoinbase_def demo_block_def NewBlock_def)

lemma demo_reward_vm: "FullTx_Verify demo_vm demo_reward lookup = Inr ()" "FullTx_From demo_vm demo_reward = Inr demo_sender"
proof -
  show "FullTx_Verify demo_vm demo_reward lookup = Inr ()"
    by (simp add: FullTx_Verify_def FullTx_envelope_def envelope_def envelope_tags demo_reward_def demo_tx_def demo_vm_defs
        PubKeySize_def SigSize_def HasRecovery_def RecoverPubKey_def VerifyHashSig_def scheme_defs Let_def)
  show "FullTx_From demo_vm demo_reward = Inr demo_sender"
    by (simp add: FullTx_From_def envelope_from_def envelope_def envelope_tags demo_reward_def demo_tx_def demo_vm_defs
        demo_sender_def PubKeySize_def SigSize_def HasRecovery_def RecoverPubKey_def VerifyHashSig_def scheme_defs Let_def)
qed

lemma demo_mined_checked: "CheckBlockTxs demo_vm db demo_mined = Inr ()"
proof -
  have r: "txType demo_reward = GenerateTx" "txTo demo_reward = demo_sender" "FullTx_IsSigned demo_reward" "txFee demo_reward = 0"
    "TotalExpenditure demo_reward = GetBlockReward 1"
    by (simp_all add: demo_reward_def demo_tx_def FullTx_IsSigned_def TotalExpenditure_def)
  show ?thesis
    by (simp add: CheckBlockTxs_def checkBlockGenerates_def demo_mined_fields result_simps split_generate_def r Let_def
        CheckGenerate_def demo_reward_vm check_block_tx_def)
qed

lemma demo_block_hash_hd: "hd (Block_GetHash demo_vm b) = ucast (hdHeight (bkHeader b))"
  by (simp add: Block_GetHash_def demo_vm_defs pad32_def HashSize_def PackUint64LE_def upt_rec)

lemma demo_mined_not_genesis: "IsGenesis demo_vm demo_mined = Inr False"
proof -
  obtain g where g: "GetGenesisBlock demo_vm ZERONET = Inr g" "hdHeight (bkHeader g) = 0"
    by (simp add: GetGenesisBlock_def GetGenesisGenerateTx_def GetGenesisGenerateTxSignature_def GetGenesisTimestamp_def
        GetGenesisBlockNonce_def result_simps Let_def SetCoinbase_def NewBlock_def)
  have "Block_GetHash demo_vm demo_mined \<noteq> Block_GetHash demo_vm g"
    using demo_block_hash_hd [of demo_mined] demo_block_hash_hd [of g] g(2) by (auto simp: demo_mined_fields)
  with g(1) show ?thesis by (simp add: IsGenesis_def demo_mined_fields result_simps)
qed

lemma demo_mined_applies: "\<exists>db'. apply_checked demo_vm ZERONET True demo_ledger demo_mined = Inr db'"
proof -
  have "txSign demo_reward \<noteq> []" "txType demo_reward = GenerateTx" by (simp_all add: demo_reward_def demo_tx_def)
  then have "\<exists>db'. handle_tx demo_vm ZERONET cs bt (demo_ledger, gas) demo_reward = Inr (db', gas)" for cs bt gas
    by (simp add: handle_tx_def handleGenerate_def result_simps demo_reward_vm tx_type_defs)
  moreover have "bkTxs demo_unrooted = [demo_reward]" "bkCommits demo_unrooted = []"
    by (simp_all add: demo_unrooted_def SetCoinbase_def demo_block_def NewBlock_def)
  ultimately have "\<exists>db'. Upgrade demo_vm ZERONET True demo_ledger demo_unrooted = Inr db'"
    by (simp add: Upgrade_def Let_def handleCommits_def HandleTxs_def result_simps) blast
  then obtain db' where db': "Upgrade demo_vm ZERONET True demo_ledger demo_unrooted = Inr db'" ..
  then have root: "hdStateRoot (bkHeader demo_mined) = StateRoot demo_vm db'"
    by (simp add: demo_mined_def DryApplyRoot_def result_simps)
  have "Upgrade demo_vm ZERONET True demo_ledger demo_mined = Inr db'" using db' by (simp add: demo_mined_def Upgrade_root_free)
  then have "apply_checked demo_vm ZERONET True demo_ledger demo_mined = Inr db'"
    by (simp add: apply_checked_def result_simps demo_mined_not_genesis demo_mined_checked CheckStateRoot_def root)
  then show ?thesis ..
qed

lemma demo_mined_typed: "room (length (bkTxs demo_mined)) demo_ledger" "block_typed demo_mined"
proof -
  have "dbContract demo_ledger = []" by (simp add: demo_ledger_def commits_only_frame [OF commits_only_ops(1)] InitDB_def bempty_def)
  then show "room (length (bkTxs demo_mined)) demo_ledger" by (simp add: room_def demo_mined_fields)
  have "0 \<le> GetBlockReward 1" using GetBlockReward_bounds [of 1] by (simp add: minReward_def NG_def)
  then show "block_typed demo_mined" using From_length [OF demo_tx_vm(2)]
    by (simp add: block_typed_def tx_typed_def demo_mined_fields demo_reward_def)
qed

theorem ApplyBlocksTxn_sound_witness:
  "\<exists>db'. ApplyBlocksTxn demo_vm ZERONET True demo_ledger [demo_mined] = Inr db' \<and> sys_ok demo_vm db' \<and>
    StateRoot demo_vm db' = hdStateRoot (bkHeader demo_mined)"
proof -
  obtain db' where "apply_checked demo_vm ZERONET True demo_ledger demo_mined = Inr db'" using demo_mined_applies ..
  then have db': "ApplyBlocksTxn demo_vm ZERONET True demo_ledger ([] @ [demo_mined]) = Inr db'"
    by (simp add: ApplyBlocksTxn_def result_simps)
  from ApplyBlocksTxn_sound [OF this demo_ledger_ok demo_vm_ok] demo_mined_typed db' show ?thesis by auto
qed

section \<open>Contract runs\<close>


lemma Run_flushes:
  assumes "getContract P db addr = Inr account" "NewVM n P db account tx bt = Inr vm"
    "call_entry n P db entry (vm\<lparr>vmCs := cs\<rparr>) = (vm', Inr ())" "sys_ok P db" "third_ok P" "few_slots db"
  shows "\<exists>db'. Run n P db entry (vm\<lparr>vmCs := cs\<rparr>) = (vm', Inr db') \<and> sys_ok P db' \<and>
    (\<forall>a. getBalance db' a = balanceOf db (vmJ vm') a) \<and> slots_written P db (jAccounts (vmJ vm')) db' \<and> run_frame cs db db'"
proof -
  note sl = sys_slots [OF assms(4)]
  have "callee P db addr" using assms(1) by (auto simp: callee_def)
  with NewVM_state [OF assms(2,1) sl] call_entry_state [OF _ sl _ assms(3)] have "vm_state P db addr vm'" by simp
  moreover have "modules_ok P db (vm\<lparr>vmCs := cs\<rparr>)" using NewVM_state [OF assms(2,1) sl] by (simp add: vm_state_def modules_ok_def)
  from call_entry_cs [OF this assms(3)] have cs: "vmCs vm' = cs" by simp
  ultimately have j: "journal_ok P db (vmJ vm')" by (simp add: vm_state_def)
  have st: "store_ok P db" "bucket_ok (dbBal db)" "rlp_ok P" using assms(4,5) sys_bal by (auto simp: sys_ok_def third_ok_def)
  from flush_ok [OF st(1) assms(6) st(3,2) sl j, of "vmCs vm'"] obtain db' where
    db': "flush P (vmCs vm') db (vmJ vm') = Inr db'" "store_ok P db'" "state_steps P (vmCs vm') db db'"
      "\<And>a. getBalance db' a = balanceOf db (vmJ vm') a" "slots_written P db (jAccounts (vmJ vm')) db'" "run_frame (vmCs vm') db db'" by metis
  have "sys_ok P db'" using state_steps_inv [OF db'(3)] db'(2) assms(4,5) by (simp add: sys_ok_def third_ok_def)
  with db' assms(3) cs show ?thesis by (simp add: Run_def)
qed

text \<open>C11: a call that returns is committed, exactly. If the machine of a stored contract is built and its entry
  returns without an error, the flush cannot fail: the run ends with a well-formed database whose balances are those
  of the machine's journal, in which every loaded slot is written with its journalled context and every other slot
  reads as before. Apart from the buckets behind them (balances, slots, code, the state tree and, when a height is
  recorded, the changesets and histories of balances and slots) every bucket is unchanged.\<close>

theorem Run_commits:
  assumes "getContract P db addr = Inr account" "NewVM n P db account tx bt = Inr vm"
    "call_entry n P db entry (vm\<lparr>vmCs := cs\<rparr>) = (vm', Inr ())" "sys_ok P db" "third_ok P" "few_slots db"
  shows "\<exists>db'. Run n P db entry (vm\<lparr>vmCs := cs\<rparr>) = (vm', Inr db') \<and> sys_ok P db' \<and>
    (\<forall>a. getBalance db' a = balanceOf db (vmJ vm') a) \<and> slots_written P db (jAccounts (vmJ vm')) db' \<and> run_frame cs db db'"
  by (rule Run_flushes [OF assms])

text \<open>A deployed contract for evaluation on examples.\<close>

definition demo_live :: "Contract \<Rightarrow> bool" where
  "demo_live ct \<longleftrightarrow> IsActive ct \<and> 4 \<le> length (ctSource ct) \<and> take 4 (ctSource ct) = wasmMagic"

lemma pad32_magic: "pad32 src = pad32 wasmMagic \<Longrightarrow> 4 \<le> length src \<and> take 4 src = wasmMagic"
proof -
  assume eq: "pad32 src = pad32 wasmMagic"
  then have t: "take 4 (pad32 src) = wasmMagic" by (simp add: pad32_def wasmMagic_def HashSize_def)
  have "\<not> length src < 4"
  proof
    assume "length src < 4"
    then have "pad32 src ! 3 = 0" by (simp add: pad32_def HashSize_def nth_append zeros_def)
    moreover have "pad32 wasmMagic ! 3 = 0x6d" by (simp add: pad32_def wasmMagic_def HashSize_def)
    ultimately show False using eq by simp
  qed
  moreover from this t have "take 4 src = wasmMagic" by (simp add: pad32_def HashSize_def)
  ultimately show ?thesis by simp
qed

lemma demo_deployed:
  obtains db ct where "sys_ok demo_vm db" "few_slots db" "getContract demo_vm db (replicate 32 5) = Inr ct" "demo_live ct"
proof -
  have "dbContract demo_ledger = []" by (simp add: demo_ledger_def commits_only_frame [OF commits_only_ops(1)] InitDB_def bempty_def)
  then have few: "few_slots demo_ledger" "room 1 demo_ledger" by (simp_all add: few_slots_def room_def)
  have own: "length (ctOwner demo_contract) = AddressSize" by (simp add: demo_contract_ok AddressSize_def)
  obtain db where db: "setContract demo_vm None demo_ledger demo_contract = Inr db"
    "ok_step demo_vm None 1 0 {ctOwner demo_contract} demo_ledger db"
    using ok_step_slot [OF demo_ledger_ok demo_vm_ok few(1) own demo_contract_ok(2)] by metis
  obtain ct where ct: "getContract demo_vm db (ctOwner demo_contract) = Inr ct" "slot_like demo_vm demo_contract ct"
    using setContract_store [of demo_vm demo_ledger demo_contract None] demo_ledger_ok demo_vm_ok few(1) own demo_contract_ok(2) db(1)
    by (auto simp: sys_ok_def third_ok_def)
  have src: "ctSource demo_contract = wasmMagic" by (simp add: demo_contract_def SetActive_def NewContract_def wasmMagic_def)
  have "ctx_ok (ctContext ct)" using ct(1) sys_slots [OF ok_step_sys [OF db(2)]] by (auto simp: slots_ok_def)
  then have "ctx_lookup (ctContext ct) = ctx_lookup (ctContext demo_contract)"
    using ct(2) demo_contract_ok(2) by (simp add: slot_like_def ctx_lookup_zip)
  then have "IsActive ct"
    by (simp add: IsActive_def demo_contract_def SetActive_def NewContract_def ctx_simps)
  with pad32_magic [of "ctSource ct"] ct(2) src have "demo_live ct" by (simp add: demo_live_def slot_like_def)
  with ct(1) ok_step_sys [OF db(2)] room_few [OF ok_step_room [OF db(2), of 0]] few(2) that show ?thesis
    by (simp add: demo_contract_ok)
qed

lemma demo_runs:
  assumes "demo_live ct"
  shows "\<exists>vm vm'. NewVM n demo_vm db ct tx bt = Inr vm \<and> vmCaller vm = tx \<and>
    call_entry n demo_vm db entry (vm\<lparr>vmCs := cs\<rparr>) = (vm', Inr ())"
proof -
  have src: "LoadContractWasm demo_vm (ctSource ct) = Inr (ctSource ct)" "\<exists>m. loadModule demo_vm (ctSource ct) = Inr m \<and> wmImports m = []"
    using assms by (auto simp: demo_live_def LoadContractWasm_def loadModule_def templateFor_def demo_module_def result_simps)
  then obtain m where m: "loadModule demo_vm (ctSource ct) = Inr m" "parseContractDeps demo_vm m = Inr []"
    by (auto simp: parseContractDeps_def maxDepsPerContract_def)
  then have "loadContractDeps k demo_vm H db m vm = (vm, Inr ())" for k H vm
    by (cases k) (simp_all add: act_ret_def)
  with src(1) m(1) have "\<exists>vm. NewVM n demo_vm db ct tx bt = Inr vm \<and> vmCaller vm = tx \<and> vmToll vm = 0"
    by (simp add: NewVM_def result_simps Let_def)
  then obtain vm where vm: "NewVM n demo_vm db ct tx bt = Inr vm" "vmCaller vm = tx" "vmToll vm = 0" by blast
  moreover have "\<exists>vm'. call_entry n demo_vm db entry (vm\<lparr>vmCs := cs\<rparr>) = (vm', Inr ())"
    by (simp add: call_entry_def charge_def demo_toll_def vm(3) vmMaxToll_def)
  ultimately show ?thesis by blast
qed

theorem Run_commits_witness:
  "\<exists>db account vm vm' db'. getContract demo_vm db (replicate 32 5) = Inr account \<and>
     NewVM vm_nesting demo_vm db account demo_tx 0 = Inr vm \<and>
     Run vm_nesting demo_vm db EntryOnTx (vm\<lparr>vmCs := None\<rparr>) = (vm', Inr db') \<and> sys_ok demo_vm db'"
proof -
  obtain db ct where d: "sys_ok demo_vm db" "few_slots db" "getContract demo_vm db (replicate 32 5) = Inr ct" "demo_live ct"
    by (rule demo_deployed)
  from demo_runs [OF d(4)] obtain vm vm' where vm: "NewVM vm_nesting demo_vm db ct demo_tx 0 = Inr vm"
    "call_entry vm_nesting demo_vm db EntryOnTx (vm\<lparr>vmCs := None\<rparr>) = (vm', Inr ())" by blast
  from Run_commits [OF d(3) vm d(1) demo_vm_ok d(2)] d(3) vm(1) show ?thesis by blast
qed


end
