(* ===== verification/Nesting.thy ===== *)
theory Nesting
  imports Ledger
begin

text \<open>
  The bound on nested calls.  The tables \<open>host n\<close> of the machine serve \<open>n\<close> nested levels; the program has no
  such bound.  Every nested call first charges \<open>gasServiceCall\<close> against the toll budget, and the toll
  of a run never falls, so from \<open>vm_nesting\<close> levels on the tables cannot be told apart: the machine of the
  development is the machine of the program, and every run of it ends.
\<close>

section \<open>Definitions\<close>

text \<open>The toll station: the total never falls, and a charge that is accepted is added and within the budget.\<close>

definition toll_ok :: "('i, 'p) vprims_scheme \<Rightarrow> bool" where
  "toll_ok P \<longleftrightarrow> (\<forall>t c t' ok. tollAdd P t c = (t', ok) \<longrightarrow>
     t \<le> t' \<and> (ok \<longrightarrow> unat t' = unat t + unat c \<and> t' \<le> vmMaxToll))"

definition deep :: "('i, 'p) vprims_scheme \<Rightarrow> DB \<Rightarrow> nat \<Rightarrow> 'i VM \<Rightarrow> bool" where
  "deep P db n vm \<longleftrightarrow> toll_ok P \<and> modules_ok P db vm \<and> unat vmMaxToll < Suc n * unat gasServiceCall + unat (vmToll vm)"

section \<open>The toll never falls\<close>

lemma vm_run_toll: "vm_run P db vm vm' \<Longrightarrow> toll_ok P \<Longrightarrow> vmToll vm \<le> vmToll vm'"
proof (induction rule: vm_run.induct)
  case (run_charge vm vm1 cost)
  have "vmToll vm1 \<le> fst (tollAdd P (vmToll vm1) cost)"
    using run_charge.prems unfolding toll_ok_def by (metis prod.collapse)
  with run_charge show ?case by simp
qed (simp_all, (meson order_trans)?)

lemma deep_run: "vm_run P db vm vm' \<Longrightarrow> deep P db n vm \<Longrightarrow> deep P db n vm'"
  using vm_run_toll [of P db vm vm'] vm_run_modules [of P db vm vm'] by (auto simp: deep_def word_le_nat_alt)

lemma deep_upd [simp]:
  "deep P db n (vm\<lparr>vmFrames := f\<rparr>) = deep P db n vm" "deep P db n (vm\<lparr>vmCallArgs := a\<rparr>) = deep P db n vm"
  by (simp_all add: deep_def)

lemma charge_added:
  assumes "toll_ok P" "charge P c vm = (vm', Inr u)"
  shows "unat (vmToll vm') = unat (vmToll vm) + unat c \<and> vmToll vm' \<le> vmMaxToll \<and> vmModules vm' = vmModules vm"
proof -
  obtain t ok where t: "tollAdd P (vmToll vm) c = (t, ok)" by fastforce
  then have "ok" "vm' = vm\<lparr>vmToll := t\<rparr>" using assms(2) by (auto simp: charge_def split: if_splits)
  with t assms(1) show ?thesis unfolding toll_ok_def by fastforce
qed

lemma charge_deep:
  assumes "deep P db (Suc n) vm" "charge P gasServiceCall vm = (vm', Inr u)"
  shows "deep P db n vm'"
  using charge_added [OF _ assms(2)] assms(1) modules_ok_cong [of vm' vm P db] by (simp add: deep_def)

lemma charge_shallow:
  assumes "deep P db 0 vm"
  shows "charge P gasServiceCall vm \<noteq> (vm', Inr u)"
  using charge_added [of P gasServiceCall vm vm' u] assms by (auto simp: deep_def word_le_nat_alt)

lemma bind_same:
  assumes "m vm = m' vm" "\<And>a vm'. m vm = (vm', Inr a) \<Longrightarrow> f a vm' = f' a vm'"
  shows "act_bind m f vm = act_bind m' f' vm"
  using assms by (auto simp: act_bind_def split: prod.splits sum.splits)

section \<open>Two tables that agree\<close>

locale host_tables = host_table P db H for P :: "('i, 'p) vprims_scheme" and db H +
  fixes H' :: "hostcall \<Rightarrow> memory \<Rightarrow> ('i, u64 list \<times> memory) act" and n :: nat
  assumes agree: "deep P db n vm \<Longrightarrow> H c mem vm = H' c mem vm"
begin

lemma deep_modules: "deep P db n vm \<Longrightarrow> modules_ok P db vm"
  by (simp add: deep_def)

lemma exec_same: "deep P db n vm \<Longrightarrow> exec P H g vm = exec P H' g vm"
proof (induction g arbitrary: vm)
  case (Burn cost ins g)
  obtain vm' r where c: "charge P cost vm = (vm', r)" by (cases "charge P cost vm")
  then have "vm_run P db vm vm'" using runs_charge [of P db cost vm] by (simp add: runs_def)
  from Burn.IH [OF deep_run [OF this Burn.prems]] c show ?case by (cases r) simp_all
next
  case (Host c ins mem k)
  obtain vm' r where h: "H c mem vm = (vm', r)" by (cases "H c mem vm")
  then have run: "vm_run P db vm vm'" using table_runs [OF deep_modules [OF Host.prems], of c mem] by (simp add: runs_def)
  show ?case
  proof (cases r)
    case (Inr a)
    then show ?thesis using h agree [OF Host.prems, of c mem] Host.IH [OF _ deep_run [OF run Host.prems]] by auto
  qed (use h agree [OF Host.prems, of c mem] in simp)
qed simp_all

lemma frame_same: "deep P db n vm \<Longrightarrow> in_frame a (exec P H g) vm = in_frame a (exec P H' g) vm"
  by (simp add: in_frame_def exec_same)

lemma linkServiceDep_same:
  assumes "\<And>m vm. deep P db n vm \<Longrightarrow> L m vm = L' m vm" "\<And>m vm. modules_ok P db vm \<Longrightarrow> runs P db (L m) vm" "deep P db n vm"
  shows "linkServiceDep P H L name depAcc vm = linkServiceDep P H' L' name depAcc vm"
proof (cases "bind_result (LoadContractWasm P (ctSource depAcc)) (loadModule P)")
  case (Inr m)
  have "deep P db n vm'" if "L m vm = (vm', Inr u)" for vm' u
    using deep_run [OF _ assms(3), of vm'] assms(2) [OF deep_modules [OF assms(3)], of m] that by (simp add: runs_def)
  then show ?thesis unfolding linkServiceDep_def Inr sum.case
    by (intro bind_same assms(1) assms(3)) (simp add: exec_same)
qed (simp add: linkServiceDep_def)

lemma load_dep_same:
  assumes "\<And>m vm. deep P db n vm \<Longrightarrow> L m vm = L' m vm" "\<And>m vm. modules_ok P db vm \<Longrightarrow> runs P db (L m) vm" "deep P db n vm"
  shows "load_dep P H db L raw vm = load_dep P H' db L' raw vm"
  using linkServiceDep_same [of L L', OF assms] by (simp add: load_dep_def act_get_def split: sum.splits)

lemma act_each_same:
  assumes "\<And>x vm. deep P db n vm \<Longrightarrow> f x vm = f' x vm" "\<And>x vm. modules_ok P db vm \<Longrightarrow> runs P db (f x) vm"
  shows "deep P db n vm \<Longrightarrow> act_each f xs vm = act_each f' xs vm"
proof (induction xs arbitrary: vm)
  case (Cons x xs)
  have d: "deep P db n vm'" if "f x vm = (vm', Inr u)" for vm' u
    using deep_run [OF _ Cons.prems, of vm'] assms(2) [OF deep_modules [OF Cons.prems], of x] that by (simp add: runs_def)
  show ?case unfolding act_each.simps by (intro bind_same assms(1) Cons.prems Cons.IH d)
qed simp

lemma loadContractDeps_same: "deep P db n vm \<Longrightarrow> loadContractDeps k P H db m vm = loadContractDeps k P H' db m vm"
proof (induction k arbitrary: m vm)
  case (Suc k)
  have "act_each (load_dep P H db (loadContractDeps k P H db)) deps vm
      = act_each (load_dep P H' db (loadContractDeps k P H' db)) deps vm" for deps
    by (intro act_each_same load_dep_same load_dep_runs loadContractDeps_runs Suc)
  then show ?case by (simp split: sum.splits)
qed simp

lemma service_invoke_same:
  "deep P db n vm \<Longrightarrow> service_invoke P H name addr ins export args outputs mem idx vm
    = service_invoke P H' name addr ins export args outputs mem idx vm"
  by (simp add: service_invoke_def frame_same)

lemma dyn_invoke_same:
  assumes "deep P db n vm"
  shows "dyn_invoke P H target m ins calldata mem vm = dyn_invoke P H' target m ins calldata mem vm"
proof -
  have "deep P db n vm'" if "traceStart c vm = (vm', Inr u)" for c vm' u
    using deep_run [OF _ assms, of vm'] runs_trace(1) [of P db c vm] that by (simp add: runs_def)
  then show ?thesis unfolding dyn_invoke_def act_get_def
    by (auto split: prod.splits intro!: bind_same simp: frame_same Let_def)
qed

lemma dyn_enter_same:
  assumes "deep P db n vm"
  shows "dyn_enter P H db target calldata mem m vm = dyn_enter P H' db target calldata mem m vm"
proof -
  obtain vm1 r1 where l: "loadContractDeps (maxDepChainDepth - length (vmFrames vm)) P H db m vm = (vm1, r1)" by fastforce
  have d1: "deep P db n vm1"
    using deep_run [OF _ assms, of vm1] loadContractDeps_runs [OF deep_modules [OF assms]] l unfolding runs_def by (metis fst_conv)
  obtain vm2 ins r2 where i: "exec P H (instantiate P m (map fst (vmModules vm1))) vm1 = (vm2, ins, r2)" by (metis prod_cases3)
  have d2: "deep P db n vm2"
    using deep_run [OF _ d1, of vm2] exec_runs [OF deep_modules [OF d1], of "instantiate P m (map fst (vmModules vm1))"] i by simp
  show ?thesis using l i loadContractDeps_same [OF assms] exec_same [OF d1] dyn_invoke_same [OF d2]
    by (cases r1; cases r2) (simp_all add: dyn_enter_def)
qed

lemma makeServiceWrapper_same:
  assumes "deep P db (Suc n) vm"
  shows "makeServiceWrapper P H name export args mem vm = makeServiceWrapper P H' name export args mem vm"
proof -
  have step: "deep P db n vm2"
    if "charge P gasServiceCall vm = (vm1, Inr u)" "traceStart c vm1 = (vm2, Inr v)" for vm1 u c vm2 v
    using deep_run [OF _ charge_deep [OF assms that(1)], of vm2] runs_trace(1) [of P db c vm1] that(2)
    by (simp add: runs_def)
  show ?thesis unfolding makeServiceWrapper_def act_get_def
    by (auto split: option.splits intro!: bind_same service_invoke_same dest: step)
qed

lemma serviceCall_same:
  assumes "deep P db (Suc n) vm"
  shows "serviceCall P H db a b c mem vm = serviceCall P H' db a b c mem vm"
  unfolding serviceCall_def
proof (rule bind_same [OF refl])
  fix u vm' assume "charge P gasServiceCall vm = (vm', Inr u)"
  note d = charge_deep [OF assms this]
  show "act_get (\<lambda>vm. if length (vmFrames vm) \<ge> maxDepChainDepth then act_raise ErrDepLimit
       else or_zero (readAddr mem a) mem (\<lambda>target.
            or_zero (readMem mem b c) mem (\<lambda>calldata.
            if onStack vm target
            then act_bind (traceStart (trace_call (currentAddress vm) target [] [])) (\<lambda>_. act_raise ErrServiceReentry)
            else or_zero (getContract P db target) mem (\<lambda>acc.
                 if \<not> IsActive acc \<or> length (ctSource acc) = 0 then ret32 0 mem
                 else or_zero (bind_result (LoadContractWasm P (ctSource acc)) (templateFor P)) mem (\<lambda>m.
                      dyn_enter P H db target calldata mem m))))) vm'
    = act_get (\<lambda>vm. if length (vmFrames vm) \<ge> maxDepChainDepth then act_raise ErrDepLimit
       else or_zero (readAddr mem a) mem (\<lambda>target.
            or_zero (readMem mem b c) mem (\<lambda>calldata.
            if onStack vm target
            then act_bind (traceStart (trace_call (currentAddress vm) target [] [])) (\<lambda>_. act_raise ErrServiceReentry)
            else or_zero (getContract P db target) mem (\<lambda>acc.
                 if \<not> IsActive acc \<or> length (ctSource acc) = 0 then ret32 0 mem
                 else or_zero (bind_result (LoadContractWasm P (ctSource acc)) (templateFor P)) mem (\<lambda>m.
                      dyn_enter P H' db target calldata mem m))))) vm'"
    using dyn_enter_same [OF d] by (simp add: act_get_def or_zero_def split: sum.splits)
qed

lemma tables_same:
  "deep P db (Suc n) vm \<Longrightarrow> initBuiltInImports P db (makeServiceWrapper P H) (serviceCall P H db) c mem vm
    = initBuiltInImports P db (makeServiceWrapper P H') (serviceCall P H' db) c mem vm"
  by (cases c) (simp_all add: makeServiceWrapper_same serviceCall_same)

end

section \<open>The tables of the machine\<close>

lemma tables_shallow:
  assumes "deep P db 0 vm"
  shows "initBuiltInImports P db (makeServiceWrapper P H) (serviceCall P H db) c mem vm
    = initBuiltInImports P db (makeServiceWrapper P H') (serviceCall P H' db) c mem vm"
proof -
  note stop = charge_shallow [OF assms]
  have "makeServiceWrapper P H name export args mem vm = makeServiceWrapper P H' name export args mem vm" for name export args mem
    unfolding makeServiceWrapper_def act_get_def by (auto split: option.splits intro!: bind_same simp: stop)
  moreover have "serviceCall P H db a b c mem vm = serviceCall P H' db a b c mem vm" for a b c mem
    unfolding serviceCall_def by (rule bind_same) (simp_all add: stop)
  ultimately show ?thesis by (cases c) simp_all
qed

lemma host_tables_host: "host_tables P db (host n P db) (host (Suc n) P db) n"
proof (induction n)
  case 0
  show ?case
    by (intro host_tables.intro host_table_host host_tables_axioms.intro) (simp add: tables_shallow)
next
  case (Suc n)
  show ?case
    by (intro host_tables.intro host_table_host host_tables_axioms.intro) (simp add: host_tables.tables_same [OF Suc])
qed

interpretation nst: host_tables P db "host n P db" "host (Suc n) P db" n for P :: "('i, 'p) vprims_scheme" and db n
  by (rule host_tables_host)

lemma deep_enough: "toll_ok P \<Longrightarrow> modules_ok P db vm \<Longrightarrow> vm_nesting \<le> n \<Longrightarrow> deep P db n vm"
  by (simp add: deep_def vm_nesting_def vmMaxToll_def gasServiceCall_def)

lemma call_entry_deep:
  assumes "deep P db n vm"
  shows "call_entry n P db entry vm = call_entry (Suc n) P db entry vm"
proof -
  obtain vm1 ins r1 where i: "exec P (host n P db) (instantiate P (vmModule vm) (map fst (vmModules vm))) vm = (vm1, ins, r1)"
    by (metis prod_cases3)
  have d1: "deep P db n vm1"
    using deep_run [OF _ assms, of vm1] hst.exec_runs [OF nst.deep_modules [OF assms], of n "instantiate P (vmModule vm) (map fst (vmModules vm))"] i
    by simp
  show ?thesis using i nst.exec_same [OF assms] nst.exec_same [OF d1] by (cases r1) (simp_all add: call_entry_def)
qed

lemma machine_step:
  assumes "toll_ok P" "vm_nesting \<le> n"
  shows "NewVM n P db account tx bt = NewVM (Suc n) P db account tx bt"
    "modules_ok P db vm \<Longrightarrow> call_entry n P db entry vm = call_entry (Suc n) P db entry vm"
proof -
  have "loadContractDeps k P (host n P db) db m vm = loadContractDeps k P (host (Suc n) P db) db m vm" if "vmModules vm = []" for k m vm
    by (rule nst.loadContractDeps_same, rule deep_enough [OF assms(1) _ assms(2)]) (simp add: modules_ok_def that)
  then show "NewVM n P db account tx bt = NewVM (Suc n) P db account tx bt" by (simp add: NewVM_def)
  show "call_entry n P db entry vm = call_entry (Suc n) P db entry vm" if "modules_ok P db vm"
    by (rule call_entry_deep [OF deep_enough [OF assms(1) that assms(2)]])
qed

text \<open>C10: the toll bounds the nesting of calls, so a bounded machine is the machine of the program. Over a toll
  station whose total never falls and that accepts no charge past its budget, building a machine,
  running an entry and dry-running it give the same result for every number of nested levels from
  \<open>vm_nesting\<close> on; in particular the artificial cut-off below the last level is never observed.\<close>

theorem vm_nesting_enough:
  assumes "toll_ok P" "vm_nesting \<le> n"
  shows "NewVM n P db account tx bt = NewVM vm_nesting P db account tx bt \<and>
    (modules_ok P db vm \<longrightarrow> Run n P db entry vm = Run vm_nesting P db entry vm \<and>
       DryRun n P db entry vm = DryRun vm_nesting P db entry vm)"
  using assms(2)
proof (induction n rule: dec_induct)
  case (step n)
  then show ?case using machine_step [OF assms(1), of n] by (simp add: Run_def DryRun_def)
qed simp

lemma demo_toll_ok: "toll_ok demo_vm"
proof -
  have "unat (t + c) = unat t + unat c \<and> t + c \<le> vmMaxToll \<and> t \<le> t + c"
    if "unat t + unat c \<le> unat vmMaxToll" for t c :: u64
  proof -
    have "unat t + unat c < 2 ^ LENGTH(64)" using that by (simp add: vmMaxToll_def)
    then have "unat (t + c) = unat t + unat c" by (simp add: unat_word_ariths)
    with that show ?thesis by (simp add: word_le_nat_alt)
  qed
  then show ?thesis by (auto simp: toll_ok_def demo_toll_def)
qed

theorem vm_nesting_enough_witness:
  "NewVM 10000 demo_vm InitDB demo_contract demo_tx 0 = NewVM vm_nesting demo_vm InitDB demo_contract demo_tx 0"
  using vm_nesting_enough [OF demo_toll_ok, of 10000]
  by (simp add: vm_nesting_def vmMaxToll_def gasServiceCall_def)

end
