(* ===== verification/Blocks.thy ===== *)
theory Blocks
  imports Wasm Block
begin

text \<open>
  The block store of \<^verbatim>\<open>ngblocks\<close>.  One bucket holds, under disjoint keys, the block bodies by hash, the
  canonical height index, the latest and origin tags, the memoized cumulative work and the marks of side
  blocks; another holds the transactions, their containing block and the account history.  Operations take
  the buckets and return them updated; nil arguments are not modelled.  RLP decoding is third-party code
  (\<open>rlpBlockDec\<close>, \<open>rlpTxDec\<close>).
\<close>

section \<open>Definitions\<close>

record 'i nprims = "'i vprims" +
  rlpTxDec :: "bytes \<Rightarrow> FullTx option"
  rlpBlockDec :: "bytes \<Rightarrow> FullBlock option"

definition LatestHeightTag :: bytes where "LatestHeightTag = str ''latest:height''"
definition LatestHashTag :: bytes where "LatestHashTag = str ''latest:hash''"
definition OriginHeightTag :: bytes where "OriginHeightTag = str ''origin:height''"
definition OriginHashTag :: bytes where "OriginHashTag = str ''origin:hash''"
definition TxBlockPrefix :: bytes where "TxBlockPrefix = str ''blk:''"
definition AddrTxPrefix :: bytes where "AddrTxPrefix = str ''atx:''"

subsection \<open>Reading\<close>

definition GetTxByHash :: "('i, 'p) nprims_scheme \<Rightarrow> bucket \<Rightarrow> bytes \<Rightarrow> error + FullTx" where
  "GetTxByHash P txBucket hash =
     (case bget txBucket hash of
        None \<Rightarrow> Inl ErrKeyNotFound
      | Some rawTx \<Rightarrow> (case rlpTxDec P rawTx of None \<Rightarrow> Inl (ErrMsg ''rlp'') | Some tx \<Rightarrow> Inr tx))"

definition GetTxBlockHash :: "bucket \<Rightarrow> bytes \<Rightarrow> error + bytes" where
  "GetTxBlockHash txBucket txHash =
     (case bget txBucket (TxBlockPrefix @ txHash) of None \<Rightarrow> Inl ErrKeyNotFound | Some blockHash \<Rightarrow> Inr blockHash)"

definition GetBlockByHash :: "('i, 'p) nprims_scheme \<Rightarrow> bucket \<Rightarrow> bytes \<Rightarrow> error + FullBlock" where
  "GetBlockByHash P blockBucket hash =
     (case bget blockBucket hash of
        None \<Rightarrow> Inl ErrKeyNotFound
      | Some rawBlock \<Rightarrow> (case rlpBlockDec P rawBlock of None \<Rightarrow> Inl (ErrMsg ''rlp'') | Some b \<Rightarrow> Inr b))"

definition GetBlockByHeight :: "('i, 'p) nprims_scheme \<Rightarrow> bucket \<Rightarrow> u64 \<Rightarrow> error + FullBlock" where
  "GetBlockByHeight P blockBucket height =
     (case bget blockBucket (PackUint64LE height) of
        None \<Rightarrow> Inl ErrKeyNotFound
      | Some hash \<Rightarrow>
          (case bget blockBucket hash of
             None \<Rightarrow> Inl ErrKeyNotFound
           | Some rawBlock \<Rightarrow> (case rlpBlockDec P rawBlock of None \<Rightarrow> Inl (ErrMsg ''rlp'') | Some b \<Rightarrow> Inr b)))"

definition GetLatestHeight :: "bucket \<Rightarrow> error + u64" where
  "GetLatestHeight blockBucket =
     (case bget blockBucket LatestHeightTag of
        None \<Rightarrow> Inl ErrKeyNotFound
      | Some height \<Rightarrow> (case UnpackUint64LE height of None \<Rightarrow> Inl Panic | Some h \<Rightarrow> Inr h))"

definition GetLatestHash :: "bucket \<Rightarrow> error + bytes" where
  "GetLatestHash blockBucket =
     (case bget blockBucket LatestHashTag of None \<Rightarrow> Inl ErrKeyNotFound | Some hash \<Rightarrow> Inr hash)"

definition GetLatestBlock :: "('i, 'p) nprims_scheme \<Rightarrow> bucket \<Rightarrow> error + FullBlock" where
  "GetLatestBlock P blockBucket = bind_result (GetLatestHash blockBucket) (GetBlockByHash P blockBucket)"

definition GetOriginHeight :: "bucket \<Rightarrow> error + u64" where
  "GetOriginHeight blockBucket =
     (case bget blockBucket OriginHeightTag of
        None \<Rightarrow> Inl ErrKeyNotFound
      | Some height \<Rightarrow> (case UnpackUint64LE height of None \<Rightarrow> Inl Panic | Some h \<Rightarrow> Inr h))"

definition GetOriginHash :: "bucket \<Rightarrow> error + bytes" where
  "GetOriginHash blockBucket =
     (case bget blockBucket OriginHashTag of None \<Rightarrow> Inl ErrKeyNotFound | Some hash \<Rightarrow> Inr hash)"

definition GetOriginBlock :: "('i, 'p) nprims_scheme \<Rightarrow> bucket \<Rightarrow> error + FullBlock" where
  "GetOriginBlock P blockBucket = bind_result (GetOriginHash blockBucket) (GetBlockByHash P blockBucket)"

subsection \<open>The account history\<close>

definition addrTxKey :: "Address \<Rightarrow> u64 \<Rightarrow> bytes \<Rightarrow> bytes" where
  "addrTxKey addr height txHash = AddrTxPrefix @ addr @ PutUint64BE height @ txHash"

definition txAddresses :: "'p prims_scheme \<Rightarrow> FullTx \<Rightarrow> Address list" where
  "txAddresses P tx =
     (let zero = zeros AddressSize
      in (if txTo tx \<noteq> zero then [txTo tx] else []) @
         (case FullTx_From P tx of
            Inl _ \<Rightarrow> [] | Inr from \<Rightarrow> if from \<noteq> zero \<and> from \<noteq> txTo tx then [from] else []))"

definition putTxAddrIndex :: "'p prims_scheme \<Rightarrow> bucket \<Rightarrow> FullTx \<Rightarrow> bucket" where
  "putTxAddrIndex P txBucket tx =
     foldl (\<lambda>b addr. bput b (addrTxKey addr (txHeight tx) (FullTx_GetHash P tx)) []) txBucket (txAddresses P tx)"

definition delTxAddrIndex :: "'p prims_scheme \<Rightarrow> bucket \<Rightarrow> FullTx \<Rightarrow> bucket" where
  "delTxAddrIndex P txBucket tx =
     foldl (\<lambda>b addr. bdel b (addrTxKey addr (txHeight tx) (FullTx_GetHash P tx))) txBucket (txAddresses P tx)"

definition addrTxKeyLen :: nat where
  "addrTxKeyLen = length AddrTxPrefix + AddressSize + 8 + 32"

definition maxAddrTxLimit :: int where "maxAddrTxLimit = 1000"

text \<open>The cursor loop: entries of another length are skipped, a height above \<open>toHeight\<close> and the limit end it.\<close>

fun addr_txs ::
  "('i, 'p) nprims_scheme \<Rightarrow> bucket \<Rightarrow> u64 \<Rightarrow> nat \<Rightarrow> bytes list \<Rightarrow> FullTx list \<Rightarrow> error + FullTx list" where
  "addr_txs P txBucket toHeight limit [] out = Inr out"
| "addr_txs P txBucket toHeight limit (k # ks) out =
     (if length k \<noteq> addrTxKeyLen then addr_txs P txBucket toHeight limit ks out
      else case Uint64BE (drop (length AddrTxPrefix + AddressSize) k) of
             None \<Rightarrow> Inl Panic
           | Some height \<Rightarrow>
               if height > toHeight then Inr out
               else bind_result (GetTxByHash P txBucket (drop (length k - 32) k)) (\<lambda>tx.
                    let out = out @ [tx]
                    in if length out \<ge> limit then Inr out else addr_txs P txBucket toHeight limit ks out))"

definition GetTxsByAddress ::
  "('i, 'p) nprims_scheme \<Rightarrow> bucket \<Rightarrow> Address \<Rightarrow> u64 \<Rightarrow> u64 \<Rightarrow> int \<Rightarrow> error + FullTx list" where
  "GetTxsByAddress P txBucket addr fromHeight toHeight limit =
     (let limit = (if limit \<le> 0 \<or> limit > maxAddrTxLimit then maxAddrTxLimit else limit);
          toHeight = (if toHeight = 0 then - 1 else toHeight);
          prefix = AddrTxPrefix @ addr;
          seek = addrTxKey addr fromHeight []
      in addr_txs P txBucket toHeight (nat limit)
           (map fst (takeWhile (\<lambda>kv. has_prefix (fst kv) prefix) (dropWhile (\<lambda>kv. fst kv < seek) txBucket))) [])"

definition PruneAddrTxIndexTxn :: "bucket \<Rightarrow> u64 \<Rightarrow> bucket" where
  "PruneAddrTxIndexTxn txBucket belowHeight =
     filter (\<lambda>(k, _). \<not> (has_prefix k AddrTxPrefix \<and> length k = addrTxKeyLen \<and>
       (case Uint64BE (drop (length AddrTxPrefix + AddressSize) k) of None \<Rightarrow> False | Some height \<Rightarrow> height < belowHeight)))
       txBucket"

subsection \<open>Work and side blocks\<close>

definition blockWorkKey :: "bytes \<Rightarrow> bytes" where
  "blockWorkKey hash = str ''work:'' @ hash"

definition PutBlockWork :: "bucket \<Rightarrow> bytes \<Rightarrow> int \<Rightarrow> bucket" where
  "PutBlockWork blockBucket hash work = bput blockBucket (blockWorkKey hash) (bigBytes work)"

definition GetBlockWork :: "bucket \<Rightarrow> bytes \<Rightarrow> error + int" where
  "GetBlockWork blockBucket hash =
     (case bget blockBucket (blockWorkKey hash) of None \<Rightarrow> Inl ErrKeyNotFound | Some raw \<Rightarrow> Inr (SetBytes raw))"

definition sideBlockPrefix :: bytes where
  "sideBlockPrefix = str ''side:''"

definition sideBlockKey :: "bytes \<Rightarrow> bytes" where
  "sideBlockKey hash = sideBlockPrefix @ hash"

definition PutSideBlock :: "('i, 'p) nprims_scheme \<Rightarrow> bucket \<Rightarrow> FullBlock \<Rightarrow> bucket" where
  "PutSideBlock P blockBucket block =
     bput (bput blockBucket (Block_GetHash P block) (rlpBlock P block))
       (sideBlockKey (Block_GetHash P block)) (PackUint64LE (hdHeight (bkHeader block)))"

definition ListSideBlocksInRange ::
  "('i, 'p) nprims_scheme \<Rightarrow> bucket \<Rightarrow> u64 \<Rightarrow> u64 \<Rightarrow> error + FullBlock list" where
  "ListSideBlocksInRange P blockBucket minHeight maxHeight =
     foldM (\<lambda>out (k, v).
        case UnpackUint64LE v of
          None \<Rightarrow> Inl Panic
        | Some height \<Rightarrow>
            if height < minHeight \<or> height > maxHeight then Inr out
            else bind_result (GetBlockByHash P blockBucket (drop (length sideBlockPrefix) k)) (\<lambda>block.
                 Inr (out @ [block])))
       (seek_prefix blockBucket sideBlockPrefix) []"

definition side_victims :: "bucket \<Rightarrow> u64 \<Rightarrow> error + bytes list" where
  "side_victims blockBucket belowHeight =
     foldM (\<lambda>victims (k, v).
        case UnpackUint64LE v of
          None \<Rightarrow> Inl Panic
        | Some height \<Rightarrow>
            let hash = drop (length sideBlockPrefix) k
            in if height \<ge> belowHeight then Inr victims
               else if bget blockBucket (PackUint64LE height) = Some hash then Inr victims
               else Inr (victims @ [hash]))
       (seek_prefix blockBucket sideBlockPrefix) []"

definition PruneSideBlocks :: "bucket \<Rightarrow> u64 \<Rightarrow> error + bucket \<times> nat" where
  "PruneSideBlocks blockBucket belowHeight =
     bind_result (side_victims blockBucket belowHeight) (\<lambda>victims.
       Inr (foldl (\<lambda>b hash. bdel (bdel (bdel b hash) (blockWorkKey hash)) (sideBlockKey hash)) blockBucket victims,
            length victims))"

subsection \<open>Writing\<close>

definition putTxs :: "('i, 'p) nprims_scheme \<Rightarrow> bucket \<Rightarrow> FullBlock \<Rightarrow> bucket" where
  "putTxs P txBucket block =
     foldl (\<lambda>b tx.
        let hash = FullTx_GetHash P tx;
            b = bput b hash (rlpTx P tx);
            b = bput b (TxBlockPrefix @ hash) (Block_GetHash P block)
        in putTxAddrIndex P b tx) txBucket (bkTxs block)"

definition delTxs :: "('i, 'p) nprims_scheme \<Rightarrow> bucket \<Rightarrow> FullTx list \<Rightarrow> bucket" where
  "delTxs P txBucket txs =
     foldl (\<lambda>b tx.
        let hash = FullTx_GetHash P tx;
            b = bdel b hash;
            b = bdel b (TxBlockPrefix @ hash)
        in delTxAddrIndex P b tx) txBucket txs"

definition putBlock :: "('i, 'p) nprims_scheme \<Rightarrow> bucket \<Rightarrow> bytes \<Rightarrow> FullBlock \<Rightarrow> bucket" where
  "putBlock P blockBucket hash block =
     (let b = bput blockBucket hash (rlpBlock P block);
          b = bput b (PackUint64LE (hdHeight (bkHeader block))) hash
      in bdel b (sideBlockKey hash))"

definition putLatestTags :: "bucket \<Rightarrow> u64 \<Rightarrow> bytes \<Rightarrow> bucket" where
  "putLatestTags blockBucket height hash =
     bput (bput blockBucket LatestHeightTag (PackUint64LE height)) LatestHashTag hash"

definition blockHeightExists :: "('i, 'p) nprims_scheme \<Rightarrow> bucket \<Rightarrow> u64 \<Rightarrow> bool" where
  "blockHeightExists P blockBucket height =
     (if height = 0 then True
      else case GetBlockByHeight P blockBucket height of Inl e \<Rightarrow> e \<noteq> ErrKeyNotFound | Inr _ \<Rightarrow> True)"

definition blockPrevHashExists :: "('i, 'p) nprims_scheme \<Rightarrow> bucket \<Rightarrow> u64 \<Rightarrow> bytes \<Rightarrow> bool" where
  "blockPrevHashExists P blockBucket height prevHash =
     (if height = 0 \<and> prevHash = zeros 32 then True
      else case GetBlockByHash P blockBucket prevHash of
             Inl _ \<Rightarrow> False | Inr b \<Rightarrow> hdHeight (bkHeader b) = height - 1)"

definition checkBlock :: "('i, 'p) nprims_scheme \<Rightarrow> bucket \<Rightarrow> u64 \<Rightarrow> bytes \<Rightarrow> error + unit" where
  "checkBlock P blockBucket height prevHash =
     (if blockHeightExists P blockBucket height then Inl ErrBlockHeightConflict
      else if \<not> blockPrevHashExists P blockBucket height prevHash then Inl ErrPrevBlockNotExist
      else Inr ())"

definition PutNewBlock ::
  "('i, 'p) nprims_scheme \<Rightarrow> bucket \<Rightarrow> bucket \<Rightarrow> FullBlock \<Rightarrow> error + bucket \<times> bucket" where
  "PutNewBlock P blockBucket txBucket block =
     (let hash = Block_GetHash P block; height = hdHeight (bkHeader block)
      in bind_result (checkBlock P blockBucket height (hdPrevBlockHash (bkHeader block))) (\<lambda>_.
         let blockBucket = putBlock P blockBucket hash block;
             txBucket = putTxs P txBucket block
         in Inr (putLatestTags blockBucket height hash, txBucket)))"

definition ForcePutNewBlock ::
  "('i, 'p) nprims_scheme \<Rightarrow> bucket \<Rightarrow> bucket \<Rightarrow> FullBlock \<Rightarrow> error + bucket \<times> bucket" where
  "ForcePutNewBlock P blockBucket txBucket block =
     (let hash = Block_GetHash P block; height = hdHeight (bkHeader block)
      in bind_result (if blockHeightExists P blockBucket height
                      then bind_result (GetBlockByHeight P blockBucket height) (\<lambda>b. Inr (delTxs P txBucket (bkTxs b)))
                      else Inr txBucket) (\<lambda>txBucket.
         if \<not> blockPrevHashExists P blockBucket height (hdPrevBlockHash (bkHeader block)) then Inl ErrPrevBlockNotExist
         else let blockBucket = putBlock P blockBucket hash block;
                  txBucket = putTxs P txBucket block
              in Inr (putLatestTags blockBucket height hash, txBucket)))"

text \<open>A store that starts at a block: genesis or a checkpoint.\<close>

definition InitFromCheckpoint :: "('i, 'p) nprims_scheme \<Rightarrow> bucket \<Rightarrow> FullBlock \<Rightarrow> bucket" where
  "InitFromCheckpoint P blockBucket block =
     (let hash = Block_GetHash P block; height = PackUint64LE (hdHeight (bkHeader block));
          b = bput blockBucket hash (rlpBlock P block);
          b = bput b height hash;
          b = bput b LatestHeightTag height;
          b = bput b LatestHashTag hash;
          b = bput b OriginHeightTag height
      in bput b OriginHashTag hash)"

definition hasGenesisBlock :: "('i, 'p) nprims_scheme \<Rightarrow> bucket \<Rightarrow> Network \<Rightarrow> error + bool" where
  "hasGenesisBlock P blockBucket network =
     (case bget blockBucket (PackUint64LE 0) of
        None \<Rightarrow> Inr False
      | Some hash \<Rightarrow> bind_result (GetGenesisBlock P network) (\<lambda>g.
          if hash \<noteq> Block_GetHash P g then Inl Panic else Inr True))"

definition initWithGenesis :: "('i, 'p) nprims_scheme \<Rightarrow> bucket \<Rightarrow> Network \<Rightarrow> error + bucket" where
  "initWithGenesis P blockBucket network =
     bind_result (hasGenesisBlock P blockBucket network) (\<lambda>has.
       if has then Inr blockBucket
       else bind_result (GetGenesisBlock P network) (\<lambda>block. Inr (InitFromCheckpoint P blockBucket block)))"

subsection \<open>Switching branches\<close>

text \<open>\<^verbatim>\<open>for h := a; h <= b; h++\<close>, for \<open>b\<close> below the largest 64-bit number.\<close>

definition heights :: "u64 \<Rightarrow> u64 \<Rightarrow> u64 list" where
  "heights a b = map of_nat [unat a ..< Suc (unat b)]"

fun branch_connected :: "'p prims_scheme \<Rightarrow> FullBlock list \<Rightarrow> bool" where
  "branch_connected P (a # b # bs) =
     (hdHeight (bkHeader b) = hdHeight (bkHeader a) + 1 \<and> hdPrevBlockHash (bkHeader b) = Block_GetHash P a \<and>
      branch_connected P (b # bs))"
| "branch_connected P _ = True"

definition unlink_old :: "('i, 'p) nprims_scheme \<Rightarrow> bucket \<times> bucket \<Rightarrow> u64 \<Rightarrow> error + bucket \<times> bucket" where
  "unlink_old P st h =
     (case st of (blockBucket, txBucket) \<Rightarrow>
        bind_result (GetBlockByHeight P blockBucket h) (\<lambda>old.
          Inr (bput blockBucket (sideBlockKey (Block_GetHash P old)) (PackUint64LE (hdHeight (bkHeader old))),
               delTxs P txBucket (bkTxs old))))"

definition connect_block :: "('i, 'p) nprims_scheme \<Rightarrow> bucket \<times> bucket \<Rightarrow> FullBlock \<Rightarrow> bucket \<times> bucket" where
  "connect_block P st block =
     (case st of (blockBucket, txBucket) \<Rightarrow>
        (bdel (putBlock P blockBucket (Block_GetHash P block) block) (sideBlockKey (Block_GetHash P block)),
         putTxs P txBucket block))"

definition SwitchToBranch ::
  "('i, 'p) nprims_scheme \<Rightarrow> bucket \<Rightarrow> bucket \<Rightarrow> FullBlock list \<Rightarrow> error + bucket \<times> bucket" where
  "SwitchToBranch P blockBucket txBucket branch =
     (case branch of
        [] \<Rightarrow> Inl ErrBranchEmpty
      | first # _ \<Rightarrow>
          if \<not> branch_connected P branch then Inl ErrBranchDisconnected
          else if bget blockBucket (PackUint64LE (hdHeight (bkHeader first) - 1)) \<noteq> Some (hdPrevBlockHash (bkHeader first))
          then Inl ErrBranchDetached
          else bind_result (GetLatestHeight blockBucket) (\<lambda>oldHeight.
               bind_result (foldM (unlink_old P) (heights (hdHeight (bkHeader first)) oldHeight) (blockBucket, txBucket))
                 (\<lambda>st.
                    let newTip = last branch;
                        (blockBucket, txBucket) = foldl (connect_block P) st branch;
                        blockBucket = foldl (\<lambda>b h. bdel b (PackUint64LE h)) blockBucket
                          (heights (hdHeight (bkHeader newTip) + 1) oldHeight)
                    in Inr (putLatestTags blockBucket (hdHeight (bkHeader newTip)) (Block_GetHash P newTip), txBucket))))"

end
