(* ===== verification/Sheets.thy ===== *)
theory Sheets
  imports Blocks Apply
begin

text \<open>
  State sheets and snapshots: \<^verbatim>\<open>ngtypes/sheet.go\<close>, \<^verbatim>\<open>ngstate/state_snapshot.go\<close>, \<^verbatim>\<open>scratch.go\<close> and the parts of
  \<^verbatim>\<open>ngstate/state.go\<close> that seed a state from a sheet or replay it from the block store.  The in-memory cache
  \<^verbatim>\<open>SnapshotManager\<close> is a pair of maps; its hexadecimal keys are the hashes themselves.
\<close>

section \<open>Definitions\<close>

subsection \<open>Sheets\<close>

record Balance =
  blAddress :: Address
  blAmount :: int

record RegisteredKey =
  rkAddress :: Address
  rkEntry :: bytes

record Sheet =
  shNetwork :: Network
  shHeight :: u64
  shBlockHash :: bytes
  shBalances :: "Balance list"
  shContracts :: "Contract list"
  shKeys :: "RegisteredKey list"
  shBeacon :: bytes

record 'i pprims = "'i nprims" +
  rlpSheet :: "Sheet \<Rightarrow> bytes"
  rlpSheetDec :: "bytes \<Rightarrow> Sheet option"

definition NewSheet ::
  "Network \<Rightarrow> u64 \<Rightarrow> bytes \<Rightarrow> Balance list \<Rightarrow> Contract list \<Rightarrow> RegisteredKey list \<Rightarrow> Sheet" where
  "NewSheet network height blockHash balances contracts keys =
     \<lparr>shNetwork = network, shHeight = height, shBlockHash = blockHash, shBalances = balances,
      shContracts = contracts, shKeys = keys, shBeacon = []\<rparr>"

definition GetGenesisSheet :: "'p prims_scheme \<Rightarrow> Network \<Rightarrow> error + Sheet" where
  "GetGenesisSheet P network =
     bind_result (GetGenesisBlock P network) (\<lambda>g. Inr (NewSheet network 0 (Block_GetHash P g) [] [] []))"

subsection \<open>The snapshot cache\<close>

record SnapshotManager =
  heightToHash :: "(u64 \<times> bytes) list"
  hashToSnapshot :: "(bytes \<times> Sheet) list"

definition snapshotRetention :: u64 where "snapshotRetention = 16"

definition snapshot_span :: u64 where "snapshot_span = snapshotRetention * of_nat BlockCheckRound"

definition PutSnapshot :: "SnapshotManager \<Rightarrow> u64 \<Rightarrow> bytes \<Rightarrow> Sheet \<Rightarrow> SnapshotManager" where
  "PutSnapshot sm height hash sheet =
     (let sm = (if height > snapshot_span
                then let old = filter (\<lambda>(h, _). h < height - snapshot_span) (heightToHash sm)
                     in sm\<lparr>hashToSnapshot := filter (\<lambda>(x, _). x \<notin> snd ` set old) (hashToSnapshot sm),
                           heightToHash := filter (\<lambda>(h, _). \<not> h < height - snapshot_span) (heightToHash sm)\<rparr>
                else sm)
      in sm\<lparr>heightToHash := AList.update height hash (heightToHash sm),
            hashToSnapshot := AList.update hash sheet (hashToSnapshot sm)\<rparr>)"

definition GetSnapshot :: "SnapshotManager \<Rightarrow> u64 \<Rightarrow> bytes \<Rightarrow> Sheet option" where
  "GetSnapshot sm height hash =
     (case map_of (heightToHash sm) height of
        None \<Rightarrow> None | Some h \<Rightarrow> if h \<noteq> hash then None else map_of (hashToSnapshot sm) h)"

definition cached_at :: "SnapshotManager \<Rightarrow> u64 \<Rightarrow> Sheet option" where
  "cached_at sm height =
     (case map_of (heightToHash sm) height of None \<Rightarrow> None | Some h \<Rightarrow> map_of (hashToSnapshot sm) h)"

definition GetSnapshotByHash :: "SnapshotManager \<Rightarrow> bytes \<Rightarrow> Sheet option" where
  "GetSnapshotByHash sm hash = map_of (hashToSnapshot sm) hash"

subsection \<open>Dumping the state\<close>

definition snapshotKey :: "u64 \<Rightarrow> bytes" where
  "snapshotKey height = PutUint64BE height"

definition DumpSheetAt :: "'p sprims_scheme \<Rightarrow> Network \<Rightarrow> DB \<Rightarrow> u64 \<Rightarrow> bytes \<Rightarrow> error + Sheet" where
  "DumpSheetAt P network db height blockHash =
     bind_result (foldM (\<lambda>out (k, _). bind_result (getContract P db (copy_at 0 k (zeros AddressSize))) (\<lambda>account.
          Inr (out @ [account]))) (dbContract db) []) (\<lambda>contracts.
     bind_result (foldM (\<lambda>out (addr, raw). bind_result (Address_SetBytes addr) (\<lambda>a.
          Inr (out @ [\<lparr>blAddress = a, blAmount = SetBytes raw\<rparr>]))) (dbBal db) []) (\<lambda>balances.
       let keys = map (\<lambda>(addr, entry). \<lparr>rkAddress = copy_at 0 addr (zeros AddressSize), rkEntry = entry\<rparr>) (dbKey db);
           sheet = NewSheet network height blockHash balances contracts keys
       in Inr (case bget (dbBeacon db) BeaconStateKey of None \<Rightarrow> sheet | Some v \<Rightarrow> sheet\<lparr>shBeacon := v\<rparr>)))"

definition DumpSheetTxn :: "('i, 'p) nprims_scheme \<Rightarrow> Network \<Rightarrow> DB \<Rightarrow> error + Sheet" where
  "DumpSheetTxn P network db =
     bind_result (GetLatestBlock P (dbBlocks db)) (\<lambda>b.
       DumpSheetAt P network db (hdHeight (bkHeader b)) (Block_GetHash P b))"

text \<open>The keys are big-endian, so the loop that stops at the first survivor removes every older snapshot.\<close>

definition PutSnapshotTxn ::
  "('i, 'p) pprims_scheme \<Rightarrow> SnapshotManager \<Rightarrow> DB \<Rightarrow> Sheet \<Rightarrow> SnapshotManager \<times> DB" where
  "PutSnapshotTxn P sm db sheet =
     (let sm = PutSnapshot sm (shHeight sheet) (shBlockHash sheet) sheet;
          b = bput (dbSnapshot db) (snapshotKey (shHeight sheet)) (rlpSheet P sheet);
          b = (if shHeight sheet > snapshot_span
               then dropWhile (\<lambda>(k, _). case Uint64BE k of None \<Rightarrow> False | Some h \<Rightarrow> h < shHeight sheet - snapshot_span) b
               else b)
      in (sm, db\<lparr>dbSnapshot := b\<rparr>))"

definition GenerateSnapshotTxn ::
  "('i, 'p) pprims_scheme \<Rightarrow> Network \<Rightarrow> SnapshotManager \<Rightarrow> DB \<Rightarrow> error + SnapshotManager \<times> DB" where
  "GenerateSnapshotTxn P network sm db =
     bind_result (DumpSheetTxn P network db) (\<lambda>sheet. Inr (PutSnapshotTxn P sm db sheet))"

text \<open>The cached sheet, else the persisted one, else the nearest older one, else the genesis sheet.\<close>

definition GetSnapshotByHeight ::
  "('i, 'p) pprims_scheme \<Rightarrow> Network \<Rightarrow> SnapshotManager \<Rightarrow> DB \<Rightarrow> u64 \<Rightarrow> error + SnapshotManager \<times> Sheet" where
  "GetSnapshotByHeight P network sm db height =
     (let genesis = bind_result (GetGenesisSheet P network) (\<lambda>g. Inr (sm, g))
      in if height = 0 then genesis
         else case cached_at sm height of
                Some sheet \<Rightarrow> Inr (sm, sheet)
              | None \<Rightarrow>
                  let raw = (case bget (dbSnapshot db) (snapshotKey height) of
                               Some raw \<Rightarrow> Some raw
                             | None \<Rightarrow>
                                 let older = takeWhile (\<lambda>(k, _). case Uint64BE k of None \<Rightarrow> False | Some h \<Rightarrow> h \<le> height)
                                               (dbSnapshot db)
                                 in if older = [] then None else Some (snd (last older)))
                  in case (case raw of None \<Rightarrow> None | Some raw \<Rightarrow> rlpSheetDec P raw) of
                       None \<Rightarrow> genesis
                     | Some sheet \<Rightarrow> Inr (PutSnapshot sm (shHeight sheet) (shBlockHash sheet) sheet, sheet))"

subsection \<open>Seeding and replaying a state\<close>

definition initFromSheet :: "'p sprims_scheme \<Rightarrow> DB \<Rightarrow> Sheet \<Rightarrow> error + DB" where
  "initFromSheet P db sheet =
     bind_result (foldM (setContract P None) (shContracts sheet) db) (\<lambda>db.
       let db = db\<lparr>dbBal := foldl (\<lambda>b x. bput b (blAddress x) (bigBytes (blAmount x))) (dbBal db) (shBalances sheet)\<rparr>;
           db = db\<lparr>dbKey := foldl (\<lambda>b x. bput b (rkAddress x) (rkEntry x)) (dbKey db) (shKeys sheet)\<rparr>
       in Inr (if length (shBeacon sheet) \<noteq> 0
               then db\<lparr>dbBeacon := bput (dbBeacon db) BeaconStateKey (shBeacon sheet)\<rparr> else db))"

text \<open>The buckets both resets drop and create again.\<close>

definition reset_state :: "DB \<Rightarrow> DB" where
  "reset_state db = db\<lparr>dbBal := bempty, dbContract := bempty, dbCode := bempty, dbKey := bempty, dbCommit := bempty,
     dbSpent := bempty, dbBeacon := bempty, csBeacon := bempty, csBal := bempty, csContract := bempty, csKey := bempty,
     histBal := bempty, histContract := bempty\<rparr>"

definition RebuildFromSheetTxn :: "'p sprims_scheme \<Rightarrow> DB \<Rightarrow> Sheet \<Rightarrow> error + DB" where
  "RebuildFromSheetTxn P db sheet = bind_result (initFromSheet P (reset_state db) sheet) (RebuildTrie P)"

definition replay_block ::
  "('i, 'p) nprims_scheme \<Rightarrow> Network \<Rightarrow> bool \<Rightarrow> DB \<Rightarrow> u64 \<Rightarrow> error + DB" where
  "replay_block P network archive db h =
     bind_result (GetBlockByHeight P (dbBlocks db) h) (apply_checked P network archive db)"

definition RebuildFromBlockStoreTxn :: "('i, 'p) nprims_scheme \<Rightarrow> Network \<Rightarrow> bool \<Rightarrow> DB \<Rightarrow> error + DB" where
  "RebuildFromBlockStoreTxn P network archive db =
     (let db = (reset_state db)\<lparr>dbReceipt := bempty\<rparr>
      in bind_result (GetGenesisSheet P network) (\<lambda>sheet.
         bind_result (initFromSheet P db sheet) (\<lambda>db.
         bind_result (RebuildTrie P db) (\<lambda>db.
         bind_result (GetLatestHeight (dbBlocks db)) (\<lambda>latestHeight.
           foldM (replay_block P network archive) (heights 0 latestHeight) db)))))"

definition InitStateFromGenesis :: "('i, 'p) nprims_scheme \<Rightarrow> Network \<Rightarrow> DB \<Rightarrow> error + DB" where
  "InitStateFromGenesis P network db =
     (if dbBal db \<noteq> [] then Inr db
      else bind_result (GetGenesisSheet P network) (\<lambda>sheet.
           bind_result (initFromSheet P db sheet) (\<lambda>db.
           bind_result (GetGenesisBlock P network) (Upgrade P network True db))))"

definition InitStateFromSheet :: "'p sprims_scheme \<Rightarrow> DB \<Rightarrow> Sheet \<Rightarrow> error + DB" where
  "InitStateFromSheet P db sheet = initFromSheet P db sheet"

text \<open>The scratch state a historical query runs on; \<open>db\<close> is the live database.\<close>

definition ReconstructAt ::
  "('i, 'p) pprims_scheme \<Rightarrow> Network \<Rightarrow> SnapshotManager \<Rightarrow> DB \<Rightarrow> u64 \<Rightarrow> error + SnapshotManager \<times> DB" where
  "ReconstructAt P network sm db height =
     bind_result (GetLatestHeight (dbBlocks db)) (\<lambda>tip.
       if height > tip then Inl (ErrMsg ''height is above the chain tip'')
       else bind_result (GetSnapshotByHeight P network sm db height) (\<lambda>(sm, sheet).
            bind_result (initFromSheet P InitDB sheet) (\<lambda>scratch.
            bind_result (foldM (\<lambda>scratch h. bind_result (GetBlockByHeight P (dbBlocks db) h) (Upgrade P network False scratch))
                (heights (shHeight sheet + 1) height) scratch) (\<lambda>scratch. Inr (sm, scratch)))))"

definition GetMatureBalanceByAddress ::
  "('i, 'p) pprims_scheme \<Rightarrow> Network \<Rightarrow> SnapshotManager \<Rightarrow> DB \<Rightarrow> Address \<Rightarrow> error + SnapshotManager \<times> int" where
  "GetMatureBalanceByAddress P network sm db address =
     bind_result (GetLatestHeight (dbBlocks db)) (\<lambda>currentHeight.
     bind_result (GetSnapshotByHeight P network sm db (GetMatureHeight currentHeight)) (\<lambda>(sm, sheet).
       Inr (sm, foldl (\<lambda>acc x. if blAddress x = address then blAmount x else acc) 0 (shBalances sheet))))"

end
