(* ===== verification/Unwind.thy ===== *)
theory Unwind
  imports Sheets
begin

text \<open>
  History and reorganisation of the state: the reads of \<^verbatim>\<open>ngstate/changeset.go\<close> and \<^verbatim>\<open>state_external.go\<close> that
  answer for a past height, and the unwinding of applied blocks from the recorded pre-images
  (\<^verbatim>\<open>unwindHeightTxn\<close>, \<^verbatim>\<open>UnwindToTxn\<close>).
\<close>

section \<open>Definitions\<close>

subsection \<open>Reading the past\<close>

text \<open>\<^verbatim>\<open>c.Seek(k)\<close>: the first entry at or above the key.\<close>

definition bseek :: "bucket \<Rightarrow> bytes \<Rightarrow> (bytes \<times> bytes) option" where
  "bseek b k = (case dropWhile (\<lambda>kv. fst kv < k) b of [] \<Rightarrow> None | kv # _ \<Rightarrow> Some kv)"

definition firstChangeHeightAfter :: "bucket \<Rightarrow> Address \<Rightarrow> u64 \<Rightarrow> u64 option" where
  "firstChangeHeightAfter hist addr target =
     (case bseek hist (histKey addr (target + 1)) of
        None \<Rightarrow> None
      | Some (k, _) \<Rightarrow>
          if length k \<noteq> AddressSize + 8 then None
          else if copy_at 0 (take AddressSize k) (zeros AddressSize) \<noteq> addr then None
          else Uint64BE (drop AddressSize k))"

definition balanceAtHeight :: "DB \<Rightarrow> Address \<Rightarrow> u64 \<Rightarrow> int" where
  "balanceAtHeight db addr height =
     (case firstChangeHeightAfter (histBal db) addr height of
        None \<Rightarrow> getBalance db addr
      | Some m \<Rightarrow>
          (case splitPreimage (case bget (csBal db) (csKeyOf m addr) of None \<Rightarrow> [] | Some t \<Rightarrow> t) of
             None \<Rightarrow> 0 | Some val \<Rightarrow> SetBytes val))"

definition contractAtHeight :: "'p sprims_scheme \<Rightarrow> DB \<Rightarrow> Address \<Rightarrow> u64 \<Rightarrow> error + Contract option" where
  "contractAtHeight P db addr height =
     (case firstChangeHeightAfter (histContract db) addr height of
        None \<Rightarrow>
          (case getContract P db addr of
             Inl e \<Rightarrow> if e = ErrKeyNotFound then Inr None else Inl e | Inr acc \<Rightarrow> Inr (Some acc))
      | Some m \<Rightarrow>
          (case splitPreimage (case bget (csContract db) (csKeyOf m addr) of None \<Rightarrow> [] | Some t \<Rightarrow> t) of
             None \<Rightarrow> Inr None
           | Some raw \<Rightarrow> bind_result (decodeStoredContract P db raw) (\<lambda>acc. Inr (Some acc))))"

definition changesetCovers :: "DB \<Rightarrow> u64 \<Rightarrow> bool" where
  "changesetCovers db h =
     (case bseek (csBal db) (PackUint64LE h) of None \<Rightarrow> False | Some (k, _) \<Rightarrow> has_prefix k (PackUint64LE h))"

definition checkHeightInRange :: "DB \<Rightarrow> u64 \<Rightarrow> error + unit" where
  "checkHeightInRange db height =
     bind_result (GetLatestHeight (dbBlocks db)) (\<lambda>tip.
       if height > tip then Inl (ErrMsg ''height is above the chain tip'')
       else if height < tip \<and> \<not> changesetCovers db (height + 1) then Inl (ErrMsg ''no archived history'')
       else Inr ())"

definition GetBalanceByAddressAt :: "bool \<Rightarrow> DB \<Rightarrow> Address \<Rightarrow> u64 \<Rightarrow> error + int" where
  "GetBalanceByAddressAt archive db address height =
     (if \<not> archive then Inl ErrArchiveDisabled
      else bind_result (checkHeightInRange db height) (\<lambda>_. Inr (balanceAtHeight db address height)))"

definition GetContractAt :: "'p sprims_scheme \<Rightarrow> bool \<Rightarrow> DB \<Rightarrow> Address \<Rightarrow> u64 \<Rightarrow> error + Contract" where
  "GetContractAt P archive db address height =
     (if \<not> archive then Inl ErrArchiveDisabled
      else bind_result (checkHeightInRange db height) (\<lambda>_.
           bind_result (contractAtHeight P db address height) (\<lambda>acc.
             case acc of None \<Rightarrow> Inl ErrKeyNotFound | Some acc \<Rightarrow> Inr acc)))"

text \<open>The read-only views of \<^verbatim>\<open>state_external.go\<close> on the current state.\<close>

definition GetTotalBalanceByAddress :: "DB \<Rightarrow> Address \<Rightarrow> int" where
  "GetTotalBalanceByAddress db address = getBalance db address"

definition State_GetContract :: "'p sprims_scheme \<Rightarrow> DB \<Rightarrow> Address \<Rightarrow> error + Contract" where
  "State_GetContract P db address = getContract P db address"

definition PubKeyRegistered :: "DB \<Rightarrow> Address \<Rightarrow> bool" where
  "PubKeyRegistered db addr \<longleftrightarrow> bget (dbKey db) addr \<noteq> None"

subsection \<open>Unwinding\<close>

text \<open>The addresses a height changed in one domain, with their tagged pre-images.\<close>

definition revert_entries :: "bucket \<Rightarrow> u64 \<Rightarrow> (Address \<times> bytes) list" where
  "revert_entries csb h =
     map (\<lambda>(k, v). (copy_at 0 (drop 8 k) (zeros AddressSize), v))
       (filter (\<lambda>(k, _). length k = 8 + AddressSize) (seek_prefix csb (PackUint64LE h)))"

text \<open>The bucket names are the reader of the changeset and the updates of the buckets; \<open>hist\<close> is absent for
  the key registry.\<close>

definition revert_entry ::
  "((bucket \<Rightarrow> bucket) \<Rightarrow> DB \<Rightarrow> DB) \<Rightarrow> ((bucket \<Rightarrow> bucket) \<Rightarrow> DB \<Rightarrow> DB) \<Rightarrow> ((bucket \<Rightarrow> bucket) \<Rightarrow> DB \<Rightarrow> DB) option \<Rightarrow>
   u64 \<Rightarrow> (DB \<Rightarrow> Address \<Rightarrow> bytes option \<Rightarrow> DB) \<Rightarrow> DB \<Rightarrow> Address \<times> bytes \<Rightarrow> DB" where
  "revert_entry cs state hist h mirror db e =
     (case e of (addr, tagged) \<Rightarrow>
        let val = splitPreimage tagged;
            db = state (\<lambda>b. case val of Some v \<Rightarrow> bput b addr v | None \<Rightarrow> bdel b addr) db;
            db = mirror db addr val;
            db = (case hist of None \<Rightarrow> db | Some u \<Rightarrow> u (\<lambda>b. bdel b (histKey addr h)) db)
        in cs (\<lambda>b. bdel b (csKeyOf h addr)) db)"

definition revertDomain ::
  "(DB \<Rightarrow> bucket) \<Rightarrow> ((bucket \<Rightarrow> bucket) \<Rightarrow> DB \<Rightarrow> DB) \<Rightarrow> ((bucket \<Rightarrow> bucket) \<Rightarrow> DB \<Rightarrow> DB) \<Rightarrow>
   ((bucket \<Rightarrow> bucket) \<Rightarrow> DB \<Rightarrow> DB) option \<Rightarrow> u64 \<Rightarrow> (DB \<Rightarrow> Address \<Rightarrow> bytes option \<Rightarrow> DB) \<Rightarrow> DB \<Rightarrow> DB" where
  "revertDomain csb cs state hist h mirror db =
     foldl (revert_entry cs state hist h mirror) db (revert_entries (csb db) h)"

definition revertBeacon :: "'p prims_scheme \<Rightarrow> DB \<Rightarrow> u64 \<Rightarrow> DB" where
  "revertBeacon P db h =
     (case bget (csBeacon db) (PackUint64LE h) of
        None \<Rightarrow> db
      | Some tagged \<Rightarrow>
          let db = (case splitPreimage tagged of
                      Some val \<Rightarrow> trieSetBeacon P (db\<lparr>dbBeacon := bput (dbBeacon db) BeaconStateKey val\<rparr>) val
                    | None \<Rightarrow> trieSetBeacon P (db\<lparr>dbBeacon := bdel (dbBeacon db) BeaconStateKey\<rparr>) [])
          in db\<lparr>csBeacon := bdel (csBeacon db) (PackUint64LE h)\<rparr>)"

definition revertBalances :: "'p prims_scheme \<Rightarrow> DB \<Rightarrow> u64 \<Rightarrow> DB" where
  "revertBalances P db h =
     revertDomain csBal csBal_update dbBal_update (Some histBal_update) h
       (\<lambda>db addr val. trieSetBalance P db addr (map_option SetBytes val)) db"

definition revertContracts :: "'p prims_scheme \<Rightarrow> DB \<Rightarrow> u64 \<Rightarrow> DB" where
  "revertContracts P db h =
     revertDomain csContract csContract_update dbContract_update (Some histContract_update) h
       (\<lambda>db addr val. trieSetContract P db addr (case val of None \<Rightarrow> [] | Some v \<Rightarrow> v)) db"

definition revertKeys :: "'p prims_scheme \<Rightarrow> DB \<Rightarrow> u64 \<Rightarrow> DB" where
  "revertKeys P db h =
     revertDomain csKey csKey_update dbKey_update None h
       (\<lambda>db addr val. trieSetKey P db addr (case val of None \<Rightarrow> [] | Some v \<Rightarrow> v)) db"

definition unwindHeightTxn :: "'p prims_scheme \<Rightarrow> DB \<Rightarrow> u64 \<Rightarrow> error + DB" where
  "unwindHeightTxn P db h =
     (let db = revertBalances P db h;
          db = revertContracts P db h;
          db = revertKeys P db h;
          db = deleteCommitsAtHeight P db h
      in bind_result (restoreConsumedAtHeight P db h) (\<lambda>db. Inr (revertBeacon P db h)))"

definition UnwindToTxn :: "('i, 'p) vprims_scheme \<Rightarrow> bool \<Rightarrow> DB \<Rightarrow> u64 \<Rightarrow> error + DB \<times> bool" where
  "UnwindToTxn P archive db target =
     (if \<not> archive then Inr (db, False)
      else bind_result (GetLatestHeight (dbBlocks db)) (\<lambda>tip.
           if target \<ge> tip then Inr (db, True)
           else if \<not> changesetCovers db (target + 1) then Inr (db, False)
           else bind_result (foldM (unwindHeightTxn P) (rev (heights (target + 1) tip)) db) (\<lambda>db.
                Inr (deleteReceiptsAboveTxn P db target, True))))"

definition BackfillArchive :: "('i, 'p) nprims_scheme \<Rightarrow> Network \<Rightarrow> bool \<Rightarrow> DB \<Rightarrow> error + DB \<times> bool" where
  "BackfillArchive P network archive db =
     (if \<not> archive then Inr (db, False)
      else bind_result (GetLatestHeight (dbBlocks db)) (\<lambda>tip.
           bind_result (GetOriginHeight (dbBlocks db)) (\<lambda>origin.
             if origin = 0 \<and> tip > 0 \<and> \<not> changesetCovers db 1
             then bind_result (RebuildFromBlockStoreTxn P network archive db) (\<lambda>db. Inr (db, True))
             else Inr (db, False))))"

end
