(* ===== verification/Chain.thy ===== *)
theory Chain
  imports Unwind
begin

text \<open>
  The chain: \<^verbatim>\<open>blockchain\<close> and the log queries of \<^verbatim>\<open>ngstate/receipt.go\<close>.  A node is a record of its database, the
  in-memory snapshot cache, its settings and the buffers of the reorganisation hooks.  The body of a
  \<^verbatim>\<open>bbolt\<close> transaction is a function from the node to the node and a result; \<open>chain_update\<close> is \<^verbatim>\<open>Update\<close>: an
  error rolls the database back, while what the body wrote in memory stays.  The hooks are recorded as notes.

  The three loops that follow parent links are given \<open>walk_fuel\<close> steps, more than there are 64-bit heights.
\<close>

section \<open>Definitions\<close>

subsection \<open>Logs\<close>

record LogFilter =
  lfFromHeight :: u64
  lfToHeight :: u64
  lfAddress :: "Address option"
  lfTopic :: "bytes option"

record Log =
  lgHeight :: u64
  lgTxHash :: bytes
  lgRunIndex :: nat
  lgLogIndex :: nat
  lgEvent :: Event

definition log_matches :: "LogFilter \<Rightarrow> Event \<Rightarrow> bool" where
  "log_matches f ev \<longleftrightarrow> (case lfAddress f of None \<Rightarrow> True | Some a \<Rightarrow> evContract ev = a) \<and>
     (case lfTopic f of None \<Rightarrow> True | Some t \<Rightarrow> evTopic ev = t)"

definition tx_logs :: "LogFilter \<Rightarrow> u64 \<Rightarrow> bytes \<Rightarrow> ContractRun list \<Rightarrow> Log list" where
  "tx_logs f h txHash runs =
     concat (map (\<lambda>(ri, run).
       map (\<lambda>(li, ev). \<lparr>lgHeight = h, lgTxHash = txHash, lgRunIndex = ri, lgLogIndex = li, lgEvent = ev\<rparr>)
         (filter (\<lambda>(li, ev). log_matches f ev) (enumerate 0 (crEvents run)))) (enumerate 0 runs))"

definition CollectLogsTxn :: "('i, 'p) nprims_scheme \<Rightarrow> DB \<Rightarrow> LogFilter \<Rightarrow> error + Log list" where
  "CollectLogsTxn P db f =
     foldM (\<lambda>out h. bind_result (GetBlockByHeight P (dbBlocks db) h) (\<lambda>block.
        foldM (\<lambda>out tx. bind_result (GetTxRuns P db (FullTx_GetHash P tx)) (\<lambda>runs.
          Inr (out @ tx_logs f h (FullTx_GetHash P tx) runs))) (bkTxs block) out))
       (heights (lfFromHeight f) (lfToHeight f)) []"

definition maxLogRange :: u64 where "maxLogRange = 10000"

definition GetLogs :: "('i, 'p) nprims_scheme \<Rightarrow> bool \<Rightarrow> DB \<Rightarrow> LogFilter \<Rightarrow> error + Log list" where
  "GetLogs P archive db f =
     bind_result (GetLatestHeight (dbBlocks db)) (\<lambda>tip.
       let f = (if lfToHeight f = 0 \<or> lfToHeight f > tip then f\<lparr>lfToHeight := tip\<rparr> else f)
       in if lfFromHeight f > lfToHeight f then Inr []
          else if lfToHeight f - lfFromHeight f \<ge> maxLogRange then Inl (ErrMsg ''log range'')
          else if \<not> archive \<and> tip > receiptRetention \<and> lfFromHeight f < tip - receiptRetention
          then Inl (ErrMsg ''logs are pruned'')
          else CollectLogsTxn P db f)"

definition ReceiptRetainedFloor :: "bool \<Rightarrow> DB \<Rightarrow> error + u64" where
  "ReceiptRetainedFloor archive db =
     (if archive then Inr 0
      else bind_result (GetLatestHeight (dbBlocks db)) (\<lambda>tip.
             Inr (if tip > receiptRetention then tip - receiptRetention else 0)))"

subsection \<open>Checking a block against its parent\<close>

definition checkBlockTarget :: "'p prims_scheme \<Rightarrow> FullBlock \<Rightarrow> FullBlock \<Rightarrow> error + unit" where
  "checkBlockTarget P block prevBlock =
     (let hd = bkHeader block; ph = bkHeader prevBlock in
      if hdTimestamp hd \<le> hdTimestamp ph then Inl ErrBlockTimeNotMonotonic
      else bind_result (GetNextDiff (hdHeight hd) (hdTimestamp hd) prevBlock) (\<lambda>correctDiff.
           bind_result (GetActualDiff P block) (\<lambda>actualDiff.
             if SetBytes (hdDifficulty hd) \<noteq> correctDiff then Inl ErrBlockDiffInvalid
             else if actualDiff < correctDiff then Inl ErrBlockDiffInvalid
             else if SetBytes (hdBaseFee hd) \<noteq>
                NextBaseFee (hdNetwork hd) (hdHeight ph) (Some (SetBytes (hdBaseFee ph))) (BlockUsedBytes P prevBlock)
             then Inl ErrBlockBaseFeeInvalid
             else Inr ())))"

subsection \<open>Uncles\<close>

definition walk_fuel :: nat where "walk_fuel = 2 ^ 64 + 1"

definition storeGetBlock :: "('i, 'p) nprims_scheme \<Rightarrow> bucket \<Rightarrow> bytes \<Rightarrow> error + FullBlock" where
  "storeGetBlock P blockBucket hash = GetBlockByHash P blockBucket hash"

definition branchGetBlock :: "('i, 'p) nprims_scheme \<Rightarrow> bucket \<Rightarrow> FullBlock list \<Rightarrow> bytes \<Rightarrow> error + FullBlock" where
  "branchGetBlock P blockBucket branch hash =
     (case find (\<lambda>b. Block_GetHash P b = hash) (rev branch) of
        Some b \<Rightarrow> Inr b | None \<Rightarrow> GetBlockByHash P blockBucket hash)"

text \<open>The walk over the ancestors: their blocks by height (a later entry replaces an earlier one) and the
  hashes of the uncles they reference.\<close>

fun ancestor_walk ::
  "nat \<Rightarrow> 'p prims_scheme \<Rightarrow> (bytes \<Rightarrow> error + FullBlock) \<Rightarrow> u64 \<Rightarrow> FullBlock \<Rightarrow> (u64 \<times> FullBlock) list \<Rightarrow> bytes list \<Rightarrow>
   error + (u64 \<times> FullBlock) list \<times> bytes list" where
  "ancestor_walk 0 P getBlock lowest cur ancestors referenced = Inl NestingExhausted"
| "ancestor_walk (Suc n) P getBlock lowest cur ancestors referenced =
     (if hdHeight (bkHeader cur) > lowest
      then bind_result (getBlock (hdPrevBlockHash (bkHeader cur))) (\<lambda>parent.
             ancestor_walk n P getBlock lowest parent ((hdHeight (bkHeader parent), parent) # ancestors)
               (map (Header_GetHash P) (bkUncles parent) @ referenced))
      else Inr (ancestors, referenced))"

fun check_uncle_slots ::
  "'p prims_scheme \<Rightarrow> u64 \<Rightarrow> (u64 \<times> FullBlock) list \<Rightarrow> bytes list \<Rightarrow> BlockHeader list \<Rightarrow> error + unit" where
  "check_uncle_slots P height ancestors referenced [] = Inr ()"
| "check_uncle_slots P height ancestors referenced (u # us) =
     (let depth = sint (height - hdHeight u); uh = Header_GetHash P u
      in if depth < 1 \<or> depth > uint UncleMaxDepth then Inl ErrUncleInvalid
         else case map_of ancestors (hdHeight u - 1) of
                None \<Rightarrow> Inl ErrUncleInvalid
              | Some uncleParent \<Rightarrow>
                  if Block_GetHash P uncleParent \<noteq> hdPrevBlockHash u then Inl ErrUncleInvalid
                  else if (case map_of ancestors (hdHeight u) of None \<Rightarrow> False | Some onChain \<Rightarrow> Block_GetHash P onChain = uh)
                  then Inl ErrUncleInvalid
                  else if uh \<in> set referenced then Inl ErrUncleInvalid
                  else if hdTimestamp u \<le> hdTimestamp (bkHeader uncleParent) then Inl ErrUncleInvalid
                  else bind_result (GetNextDiff (hdHeight u) (hdTimestamp u) uncleParent) (\<lambda>correct.
                         if SetBytes (hdDifficulty u) \<noteq> correct then Inl ErrUncleInvalid
                         else check_uncle_slots P height ancestors (uh # referenced) us))"

definition validateUncles :: "'p prims_scheme \<Rightarrow> (bytes \<Rightarrow> error + FullBlock) \<Rightarrow> FullBlock \<Rightarrow> error + unit" where
  "validateUncles P getBlock block =
     (if length (bkUncles block) = 0 then Inr ()
      else let height = hdHeight (bkHeader block);
               lowest = (if height > UncleMaxDepth + 1 then height - (UncleMaxDepth + 1) else 0)
           in bind_result (ancestor_walk walk_fuel P getBlock lowest block [] []) (\<lambda>(ancestors, referenced).
                check_uncle_slots P height ancestors referenced (bkUncles block)))"

definition checkBlockTxn :: "('i, 'p) nprims_scheme \<Rightarrow> u64 \<Rightarrow> DB \<Rightarrow> FullBlock \<Rightarrow> error + unit" where
  "checkBlockTxn P now db block =
     (let blockBucket = dbBlocks db; prevHash = hdPrevBlockHash (bkHeader block)
      in bind_result (IsGenesis P block) (\<lambda>gen.
         if gen then Inr ()
         else bind_result (Block_CheckError P now block) (\<lambda>_.
              bind_result (GetOriginHash blockBucket) (\<lambda>originHash.
              bind_result (if prevHash \<noteq> originHash
                           then bind_result (GetBlockByHash P blockBucket prevHash) (checkBlockTarget P block)
                           else Inr ()) (\<lambda>_.
              bind_result (validateUncles P (storeGetBlock P blockBucket) block) (\<lambda>_.
                CheckBlockTxs P db block))))))"

subsection \<open>Finality and work\<close>

definition finalityHeight :: "u64 \<Rightarrow> u64" where
  "finalityHeight tipHeight =
     (if tipHeight = 0 then 0 else (tipHeight - 1) div of_nat BlockCheckRound * of_nat BlockCheckRound)"

definition sideBlockPruneHeight :: "u64 \<Rightarrow> u64" where
  "sideBlockPruneHeight tipHeight =
     (let fh = finalityHeight tipHeight
      in if tipHeight \<le> UncleMaxDepth then 0
         else if tipHeight - UncleMaxDepth < fh then tipHeight - UncleMaxDepth else fh)"

definition workOf :: "FullBlock \<Rightarrow> int" where
  "workOf block = SetBytes (hdDifficulty (bkHeader block))"

text \<open>The downward loop: the memoized work it reaches and the blocks above it, lowest first.\<close>

fun work_walk :: "nat \<Rightarrow> ('i, 'p) nprims_scheme \<Rightarrow> bucket \<Rightarrow> FullBlock \<Rightarrow> FullBlock list \<Rightarrow> error + int \<times> FullBlock list" where
  "work_walk 0 P blockBucket cur pending = Inl NestingExhausted"
| "work_walk (Suc n) P blockBucket cur pending =
     (case GetBlockWork blockBucket (Block_GetHash P cur) of
        Inr work \<Rightarrow> Inr (work, pending)
      | Inl _ \<Rightarrow>
          bind_result (GetOriginHash blockBucket) (\<lambda>originHash.
            if Block_GetHash P cur = originHash then Inr (0, cur # pending)
            else bind_result (GetBlockByHash P blockBucket (hdPrevBlockHash (bkHeader cur))) (\<lambda>prev.
                 work_walk n P blockBucket prev (cur # pending))))"

definition cumulativeWork :: "('i, 'p) nprims_scheme \<Rightarrow> bucket \<Rightarrow> FullBlock \<Rightarrow> error + bucket \<times> int" where
  "cumulativeWork P blockBucket block =
     bind_result (work_walk walk_fuel P blockBucket block []) (\<lambda>(base, pending).
       Inr (foldl (\<lambda>(b, work) x. (PutBlockWork b (Block_GetHash P x) (work + workOf x), work + workOf x))
              (blockBucket, base) pending))"

definition isCanonical :: "'p prims_scheme \<Rightarrow> bucket \<Rightarrow> FullBlock \<Rightarrow> bool" where
  "isCanonical P blockBucket block \<longleftrightarrow>
     bget blockBucket (PackUint64LE (hdHeight (bkHeader block))) = Some (Block_GetHash P block)"

fun branch_walk ::
  "nat \<Rightarrow> ('i, 'p) nprims_scheme \<Rightarrow> bucket \<Rightarrow> u64 \<Rightarrow> FullBlock \<Rightarrow> FullBlock list \<Rightarrow> error + FullBlock list" where
  "branch_walk 0 P blockBucket originHeight cur branch = Inl NestingExhausted"
| "branch_walk (Suc n) P blockBucket originHeight cur branch =
     (if isCanonical P blockBucket cur then Inr branch
      else let prevHash = hdPrevBlockHash (bkHeader cur)
           in if hdHeight (bkHeader cur) \<le> originHeight + 1
              then bind_result (GetOriginHash blockBucket) (\<lambda>originHash.
                     if prevHash \<noteq> originHash then Inl ErrReorgBelowOrigin else Inr (cur # branch))
              else bind_result (GetBlockByHash P blockBucket prevHash) (\<lambda>prev.
                     branch_walk n P blockBucket originHeight prev (cur # branch)))"

definition collectBranch :: "('i, 'p) nprims_scheme \<Rightarrow> bucket \<Rightarrow> FullBlock \<Rightarrow> error + FullBlock list" where
  "collectBranch P blockBucket tip =
     bind_result (GetOriginHeight blockBucket) (\<lambda>originHeight. branch_walk walk_fuel P blockBucket originHeight tip [])"

text \<open>\<^verbatim>\<open>sort.Slice\<close> with the height as key; candidates of one height keep their order.\<close>

definition eligible_uncle :: "('i, 'p) nprims_scheme \<Rightarrow> bucket \<Rightarrow> FullBlock \<Rightarrow> bool" where
  "eligible_uncle P blockBucket c \<longleftrightarrow>
     (case GetBlockByHeight P blockBucket (hdHeight (bkHeader c) - 1) of
        Inl _ \<Rightarrow> False | Inr canonParent \<Rightarrow> Block_GetHash P canonParent = hdPrevBlockHash (bkHeader c)) \<and>
     (case GetBlockByHeight P blockBucket (hdHeight (bkHeader c)) of
        Inl _ \<Rightarrow> True | Inr canonHere \<Rightarrow> Block_GetHash P canonHere \<noteq> Block_GetHash P c)"

fun pick_uncles :: "('i, 'p) nprims_scheme \<Rightarrow> bucket \<Rightarrow> bytes list \<Rightarrow> BlockHeader list \<Rightarrow> FullBlock list \<Rightarrow> BlockHeader list" where
  "pick_uncles P blockBucket referenced uncles [] = uncles"
| "pick_uncles P blockBucket referenced uncles (c # cs) =
     (if length uncles \<ge> MaxUncles then uncles
      else if eligible_uncle P blockBucket c \<and> Block_GetHash P c \<notin> set referenced
      then pick_uncles P blockBucket (Block_GetHash P c # referenced) (uncles @ [bkHeader c]) cs
      else pick_uncles P blockBucket referenced uncles cs)"

definition CollectUncles :: "('i, 'p) nprims_scheme \<Rightarrow> bucket \<Rightarrow> error + BlockHeader list" where
  "CollectUncles P blockBucket =
     bind_result (GetLatestHeight blockBucket) (\<lambda>tipHeight.
       let nextHeight = tipHeight + 1
       in if nextHeight < 2 then Inr []
          else let minH = (if nextHeight > UncleMaxDepth then nextHeight - UncleMaxDepth else 1);
                   lowest = (if nextHeight > UncleMaxDepth + 1 then nextHeight - (UncleMaxDepth + 1) else 0)
               in bind_result (foldM (\<lambda>referenced h. bind_result (GetBlockByHeight P blockBucket h) (\<lambda>anc.
                     Inr (map (Header_GetHash P) (bkUncles anc) @ referenced))) (rev (heights (lowest + 1) tipHeight)) [])
                    (\<lambda>referenced.
                  bind_result (ListSideBlocksInRange P blockBucket minH tipHeight) (\<lambda>candidates.
                    Inr (pick_uncles P blockBucket referenced [] (sort_key (\<lambda>c. hdHeight (bkHeader c)) candidates)))))"

definition checkBranchBlock ::
  "('i, 'p) nprims_scheme \<Rightarrow> u64 \<Rightarrow> (bytes \<Rightarrow> error + FullBlock) \<Rightarrow> FullBlock \<Rightarrow> FullBlock \<Rightarrow> error + unit" where
  "checkBranchBlock P now getBlock block prev =
     bind_result (Block_CheckError P now block) (\<lambda>_.
       if hdHeight (bkHeader block) \<noteq> hdHeight (bkHeader prev) + 1 \<or>
          hdPrevBlockHash (bkHeader block) \<noteq> Block_GetHash P prev
       then Inl ErrBranchDisconnected
       else bind_result (checkBlockTarget P block prev) (\<lambda>_. validateUncles P getBlock block))"

definition check_branch ::
  "('i, 'p) nprims_scheme \<Rightarrow> u64 \<Rightarrow> (bytes \<Rightarrow> error + FullBlock) \<Rightarrow> FullBlock \<Rightarrow> FullBlock list \<Rightarrow> error + FullBlock" where
  "check_branch P now getBlock prev branch =
     foldM (\<lambda>prev block. bind_result (checkBranchBlock P now getBlock block prev) (\<lambda>_. Inr block)) branch prev"

subsection \<open>The node and its transactions\<close>

datatype (plugins only: code) notification =
    Reorged "Log list" "Log list"
  | TipChanged

record Chain =
  chDB :: DB
  chSnapshots :: SnapshotManager
  chNetwork :: Network
  chArchive :: bool
  chOnTipChanged :: bool
  chOnReorg :: bool
  chRemoved :: "Log list"
  chAdded :: "Log list"
  chNotes :: "notification list"

text \<open>Sequencing inside a transaction: what was written in memory is kept by an error.\<close>

type_synonym 'a txn = "Chain \<Rightarrow> Chain \<times> (error + 'a)"

definition txn_bind :: "'a txn \<Rightarrow> ('a \<Rightarrow> 'b txn) \<Rightarrow> 'b txn" where
  "txn_bind m f ch = (case m ch of (ch, Inl e) \<Rightarrow> (ch, Inl e) | (ch, Inr x) \<Rightarrow> f x ch)"

definition txn_ret :: "'a \<Rightarrow> 'a txn" where
  "txn_ret x ch = (ch, Inr x)"

definition txn_read :: "(DB \<Rightarrow> error + 'a) \<Rightarrow> 'a txn" where
  "txn_read f ch = (ch, f (chDB ch))"

definition txn_write :: "(DB \<Rightarrow> error + DB \<times> 'a) \<Rightarrow> 'a txn" where
  "txn_write f ch = (case f (chDB ch) of Inl e \<Rightarrow> (ch, Inl e) | Inr (db, x) \<Rightarrow> (ch\<lparr>chDB := db\<rparr>, Inr x))"

definition chain_update :: "'a txn \<Rightarrow> 'a txn" where
  "chain_update f ch = (case f ch of (ch', Inl e) \<Rightarrow> (ch'\<lparr>chDB := chDB ch\<rparr>, Inl e) | r \<Rightarrow> r)"

text \<open>The block and work buckets inside the database.\<close>

definition db_work :: "('i, 'p) nprims_scheme \<Rightarrow> FullBlock \<Rightarrow> DB \<Rightarrow> error + DB \<times> int" where
  "db_work P block db = bind_result (cumulativeWork P (dbBlocks db) block) (\<lambda>(b, w). Inr (db\<lparr>dbBlocks := b\<rparr>, w))"

definition db_store :: "(bucket \<Rightarrow> bucket \<Rightarrow> error + bucket \<times> bucket) \<Rightarrow> DB \<Rightarrow> error + DB \<times> unit" where
  "db_store f db = bind_result (f (dbBlocks db) (dbTxs db)) (\<lambda>(b, t). Inr (db\<lparr>dbBlocks := b, dbTxs := t\<rparr>, ()))"

definition db_state :: "(DB \<Rightarrow> error + DB) \<Rightarrow> DB \<Rightarrow> error + DB \<times> unit" where
  "db_state f db = bind_result (f db) (\<lambda>db. Inr (db, ()))"

definition chain_snapshot :: "('i, 'p) pprims_scheme \<Rightarrow> unit txn" where
  "chain_snapshot P ch =
     (case GenerateSnapshotTxn P (chNetwork ch) (chSnapshots ch) (chDB ch) of
        Inl e \<Rightarrow> (ch, Inl e) | Inr (sm, db) \<Rightarrow> (ch\<lparr>chSnapshots := sm, chDB := db\<rparr>, Inr ()))"

definition notifyTipChanged :: "Chain \<Rightarrow> Chain" where
  "notifyTipChanged ch = (if chOnTipChanged ch then ch\<lparr>chNotes := chNotes ch @ [TipChanged]\<rparr> else ch)"

definition notifyReorg :: "Chain \<Rightarrow> Chain" where
  "notifyReorg ch =
     (let ch = (if chOnReorg ch \<and> (chRemoved ch \<noteq> [] \<or> chAdded ch \<noteq> [])
                then ch\<lparr>chNotes := chNotes ch @ [Reorged (chRemoved ch) (chAdded ch)]\<rparr> else ch)
      in ch\<lparr>chRemoved := [], chAdded := []\<rparr>)"

definition Chain_Init :: "DB \<Rightarrow> Network \<Rightarrow> SnapshotManager \<Rightarrow> bool \<Rightarrow> Chain" where
  "Chain_Init db network sm archive =
     \<lparr>chDB = db, chSnapshots = sm, chNetwork = network, chArchive = archive, chOnTipChanged = False, chOnReorg = False,
      chRemoved = [], chAdded = [], chNotes = []\<rparr>"

subsection \<open>Importing blocks\<close>

text \<open>The upkeep at a checkpoint tip, which \<^verbatim>\<open>ApplyBlock\<close> and \<^verbatim>\<open>switchToBranchTxn\<close> share.\<close>

definition checkpoint_upkeep :: "('i, 'p) pprims_scheme \<Rightarrow> FullBlock \<Rightarrow> unit txn" where
  "checkpoint_upkeep P block ch =
     (if \<not> IsHead block then (ch, Inr ())
      else let height = hdHeight (bkHeader block)
           in txn_bind (chain_snapshot P) (\<lambda>_.
              txn_bind (txn_write (db_state (\<lambda>db. Inr (if chArchive ch then db
                  else (PruneReceiptsTxn P db height)\<lparr>dbTxs := PruneAddrTxIndexTxn (dbTxs db) (ReceiptFloor height)\<rparr>)))) (\<lambda>_.
              txn_write (db_state (\<lambda>db. bind_result (PruneSideBlocks (dbBlocks db) (sideBlockPruneHeight height))
                 (\<lambda>(b, _). Inr (db\<lparr>dbBlocks := b\<rparr>)))))) ch)"

definition collect_removed :: "('i, 'p) nprims_scheme \<Rightarrow> u64 \<Rightarrow> unit txn" where
  "collect_removed P forkHeight ch =
     (case bind_result (GetLatestHeight (dbBlocks (chDB ch))) (\<lambda>oldTip.
             if oldTip > forkHeight
             then bind_result (CollectLogsTxn P (chDB ch)
                    \<lparr>lfFromHeight = forkHeight + 1, lfToHeight = oldTip, lfAddress = None, lfTopic = None\<rparr>)
                    (\<lambda>removed. Inr (ch\<lparr>chRemoved := removed\<rparr>))
             else Inr ch) of
        Inl e \<Rightarrow> (ch, Inl e) | Inr ch \<Rightarrow> (ch, Inr ()))"

definition collect_added :: "('i, 'p) nprims_scheme \<Rightarrow> u64 \<Rightarrow> u64 \<Rightarrow> unit txn" where
  "collect_added P forkHeight newHeight ch =
     (if newHeight > forkHeight + 1
      then case CollectLogsTxn P (chDB ch)
                  \<lparr>lfFromHeight = forkHeight + 1, lfToHeight = newHeight - 1, lfAddress = None, lfTopic = None\<rparr> of
             Inl e \<Rightarrow> (ch, Inl e) | Inr added \<Rightarrow> (ch\<lparr>chAdded := added\<rparr>, Inr ())
      else (ch, Inr ()))"

definition switchToBranchTxn :: "('i, 'p) pprims_scheme \<Rightarrow> FullBlock list \<Rightarrow> unit txn" where
  "switchToBranchTxn P branch ch =
     (if branch = [] then (ch, Inl Panic)
      else let forkHeight = hdHeight (bkHeader (hd branch)) - 1; newTip = last branch
           in txn_bind (collect_removed P forkHeight) (\<lambda>_.
              txn_bind (txn_write (\<lambda>db. UnwindToTxn P (chArchive ch) db forkHeight)) (\<lambda>unwound.
              txn_bind (txn_write (db_store (\<lambda>b t. Blocks.SwitchToBranch P b t branch))) (\<lambda>_.
              txn_bind (txn_write (db_state (\<lambda>db.
                 if unwound then ApplyBlocksTxn P (chNetwork ch) (chArchive ch) db branch
                 else RebuildFromBlockStoreTxn P (chNetwork ch) (chArchive ch) db))) (\<lambda>_.
              txn_bind (checkpoint_upkeep P newTip) (\<lambda>_.
                collect_added P forkHeight (hdHeight (bkHeader newTip))))))) ch)"

text \<open>The fork choice both entry points use: more work, or as much work and a smaller hash.\<close>

definition loses :: "int \<Rightarrow> bytes \<Rightarrow> int \<Rightarrow> bytes \<Rightarrow> bool" where
  "loses work hash tipWork tipHash \<longleftrightarrow> work < tipWork \<or> work = tipWork \<and> \<not> hash < tipHash"

definition extend_tip :: "('i, 'p) pprims_scheme \<Rightarrow> u64 \<Rightarrow> FullBlock \<Rightarrow> bool txn" where
  "extend_tip P now block ch =
     txn_bind (txn_read (\<lambda>db. checkBlockTxn P now db block)) (\<lambda>_.
     txn_bind (txn_write (db_store (\<lambda>b t. PutNewBlock P b t block))) (\<lambda>_.
     txn_bind (txn_write (db_work P block)) (\<lambda>_.
     txn_bind (txn_write (db_state (\<lambda>db. Upgrade P (chNetwork ch) (chArchive ch) db block))) (\<lambda>_.
     txn_bind (txn_read (\<lambda>db. CheckStateRoot P db (hdStateRoot (bkHeader block)))) (\<lambda>_.
     txn_bind (checkpoint_upkeep P block) (\<lambda>_. txn_ret True)))))) ch"

definition side_block :: "('i, 'p) pprims_scheme \<Rightarrow> u64 \<Rightarrow> FullBlock \<Rightarrow> bool txn" where
  "side_block P now block =
     txn_bind (txn_read (\<lambda>db. case GetBlockByHash P (dbBlocks db) (hdPrevBlockHash (bkHeader block)) of
         Inl _ \<Rightarrow> Inl ErrPrevBlockNotExist | Inr prev \<Rightarrow> Inr prev)) (\<lambda>prev.
     txn_bind (txn_read (\<lambda>db. checkBranchBlock P now (storeGetBlock P (dbBlocks db)) block prev)) (\<lambda>_.
     txn_bind (txn_write (db_state (\<lambda>db. Inr (db\<lparr>dbBlocks := PutSideBlock P (dbBlocks db) block\<rparr>)))) (\<lambda>_.
     txn_bind (txn_write (db_work P block)) (\<lambda>blockWork.
     txn_bind (txn_read (\<lambda>db. GetLatestBlock P (dbBlocks db))) (\<lambda>tip.
     txn_bind (txn_write (db_work P tip)) (\<lambda>tipWork.
       if loses blockWork (Block_GetHash P block) tipWork (Block_GetHash P tip) then txn_ret False
       else txn_bind (txn_read (\<lambda>db. collectBranch P (dbBlocks db) block)) (\<lambda>branch.
            if branch = [] then (\<lambda>ch. (ch, Inl Panic))
            else if hdHeight (bkHeader (hd branch)) - 1 < finalityHeight (hdHeight (bkHeader tip))
            then (\<lambda>ch. (ch, Inl ErrReorgBeyondFinality))
            else txn_bind (switchToBranchTxn P branch) (\<lambda>_. txn_ret True))))))))"

definition ApplyBlock :: "('i, 'p) pprims_scheme \<Rightarrow> u64 \<Rightarrow> FullBlock \<Rightarrow> Chain \<Rightarrow> Chain \<times> (error + unit)" where
  "ApplyBlock P now block ch =
     (case chain_update
             (txn_bind (txn_read (\<lambda>db. GetLatestHash (dbBlocks db))) (\<lambda>latestHash.
                if hdPrevBlockHash (bkHeader block) = latestHash then extend_tip P now block else side_block P now block))
             (ch\<lparr>chRemoved := [], chAdded := []\<rparr>) of
        (ch, Inl e) \<Rightarrow> (ch, Inl e)
      | (ch, Inr tipMoved) \<Rightarrow> ((if tipMoved then notifyTipChanged (notifyReorg ch) else ch), Inr ()))"

text \<open>The work of a branch that is not stored yet, and the switch of the converging path.\<close>

definition converge :: "('i, 'p) pprims_scheme \<Rightarrow> u64 \<Rightarrow> FullBlock list \<Rightarrow> unit txn" where
  "converge P now branch =
     txn_bind (txn_read (\<lambda>db. GetBlockByHash P (dbBlocks db) (hdPrevBlockHash (bkHeader (hd branch))))) (\<lambda>forkParent.
     txn_bind (txn_read (\<lambda>db. check_branch P now (branchGetBlock P (dbBlocks db) branch) forkParent branch)) (\<lambda>_.
     txn_bind (txn_write (db_work P forkParent)) (\<lambda>base.
     txn_bind (txn_read (\<lambda>db. GetLatestBlock P (dbBlocks db))) (\<lambda>tip.
     txn_bind (txn_write (db_work P tip)) (\<lambda>tipWork.
       if loses (foldl (\<lambda>w b. w + workOf b) base branch) (Block_GetHash P (last branch)) tipWork (Block_GetHash P tip)
       then (\<lambda>ch. (ch, Inl ErrBranchNotHeavier))
       else switchToBranchTxn P branch)))))"

definition Chain_SwitchToBranch ::
  "('i, 'p) pprims_scheme \<Rightarrow> u64 \<Rightarrow> FullBlock list \<Rightarrow> Chain \<Rightarrow> Chain \<times> (error + unit)" where
  "Chain_SwitchToBranch P now branch ch =
     (if branch = [] then (ch, Inl ErrBranchEmpty)
      else case chain_update (converge P now branch) (ch\<lparr>chRemoved := [], chAdded := []\<rparr>) of
             (ch, Inl e) \<Rightarrow> (ch, Inl e)
           | (ch, Inr _) \<Rightarrow> (notifyTipChanged (notifyReorg ch), Inr ()))"

definition ForceApplyBlocks ::
  "('i, 'p) pprims_scheme \<Rightarrow> u64 \<Rightarrow> FullBlock list \<Rightarrow> Chain \<Rightarrow> Chain \<times> (error + unit)" where
  "ForceApplyBlocks P now blocks =
     chain_update (txn_write (db_store (\<lambda>b t. foldM (\<lambda>(b, t) block.
       bind_result (Block_CheckError P now block) (\<lambda>_. ForcePutNewBlock P b t block)) blocks (b, t))))"

definition apply_snapshot :: "('i, 'p) pprims_scheme \<Rightarrow> u64 \<Rightarrow> FullBlock list \<Rightarrow> Sheet \<Rightarrow> unit txn" where
  "apply_snapshot P now blocks sheet =
     txn_bind (txn_read (\<lambda>db. GetBlockByHash P (dbBlocks db) (hdPrevBlockHash (bkHeader (hd blocks))))) (\<lambda>prev.
     txn_bind (txn_read (\<lambda>db. check_branch P now (branchGetBlock P (dbBlocks db) blocks) prev blocks)) (\<lambda>_.
     txn_bind (txn_write (db_store (\<lambda>b t. Blocks.SwitchToBranch P b t blocks))) (\<lambda>_.
     txn_bind (txn_write (db_work P (last blocks))) (\<lambda>_.
     txn_bind (txn_write (db_state (\<lambda>db. RebuildFromSheetTxn P db sheet))) (\<lambda>_ ch.
       case PutSnapshotTxn P (chSnapshots ch) (chDB ch) sheet of
         (sm, db) \<Rightarrow> (ch\<lparr>chSnapshots := sm, chDB := db\<rparr>, Inr ()))))))"

definition ApplySnapshot ::
  "('i, 'p) pprims_scheme \<Rightarrow> u64 \<Rightarrow> FullBlock list \<Rightarrow> Sheet \<Rightarrow> Chain \<Rightarrow> Chain \<times> (error + unit)" where
  "ApplySnapshot P now blocks sheet ch =
     (if blocks = [] then (ch, Inl ErrBranchEmpty)
      else let tip = last blocks
           in if shNetwork sheet \<noteq> chNetwork ch \<or> shHeight sheet \<noteq> hdHeight (bkHeader tip) \<or>
                 shBlockHash sheet \<noteq> Block_GetHash P tip
              then (ch, Inl ErrSheetMismatch)
              else case chain_update (apply_snapshot P now blocks sheet) ch of
                     (ch, Inl e) \<Rightarrow> (ch, Inl e)
                   | (ch, Inr _) \<Rightarrow> (notifyTipChanged ch, Inr ()))"

subsection \<open>Reading the chain\<close>

definition GetLatestBlockHeight :: "Chain \<Rightarrow> u64" where
  "GetLatestBlockHeight ch = (case GetLatestHeight (dbBlocks (chDB ch)) of Inl _ \<Rightarrow> 0 | Inr h \<Rightarrow> h)"

definition GetLatestBlockHash :: "Chain \<Rightarrow> bytes" where
  "GetLatestBlockHash ch = (case GetLatestHash (dbBlocks (chDB ch)) of Inl _ \<Rightarrow> [] | Inr h \<Rightarrow> h)"

definition getBlockByHeight :: "('i, 'p) nprims_scheme \<Rightarrow> Chain \<Rightarrow> u64 \<Rightarrow> error + FullBlock" where
  "getBlockByHeight P ch height =
     (if height = 0 then GetGenesisBlock P (chNetwork ch) else GetBlockByHeight P (dbBlocks (chDB ch)) height)"

definition getBlockByHash :: "('i, 'p) nprims_scheme \<Rightarrow> Chain \<Rightarrow> bytes \<Rightarrow> error + FullBlock" where
  "getBlockByHash P ch hash =
     bind_result (GetGenesisBlock P (chNetwork ch)) (\<lambda>genesis.
       if hash = Block_GetHash P genesis then Inr genesis
       else if length hash \<noteq> 32 then Inl ErrHashSize
       else GetBlockByHash P (dbBlocks (chDB ch)) hash)"

definition getLatestBlock :: "('i, 'p) nprims_scheme \<Rightarrow> Chain \<Rightarrow> error + FullBlock" where
  "getLatestBlock P ch =
     (case getBlockByHeight P ch (GetLatestBlockHeight ch) of
        Inl e \<Rightarrow> if e = Panic then Inl Panic else GetGenesisBlock P (chNetwork ch) | Inr block \<Rightarrow> Inr block)"

definition GetLatestCheckpoint :: "('i, 'p) nprims_scheme \<Rightarrow> Chain \<Rightarrow> error + FullBlock" where
  "GetLatestCheckpoint P ch =
     bind_result (getLatestBlock P ch) (\<lambda>b.
     bind_result (IsGenesis P b) (\<lambda>gen.
       if gen \<or> IsHead b then Inr b
       else getBlockByHeight P ch (hdHeight (bkHeader b) - hdHeight (bkHeader b) mod of_nat BlockCheckRound)))"

definition Chain_GetOriginBlock :: "('i, 'p) nprims_scheme \<Rightarrow> Chain \<Rightarrow> error + FullBlock" where
  "Chain_GetOriginBlock P ch =
     (case GetOriginBlock P (dbBlocks (chDB ch)) of Inl _ \<Rightarrow> GetGenesisBlock P (chNetwork ch) | Inr origin \<Rightarrow> Inr origin)"

definition GetTxLocation :: "('i, 'p) nprims_scheme \<Rightarrow> Chain \<Rightarrow> bytes \<Rightarrow> error + bytes \<times> u64" where
  "GetTxLocation P ch txHash =
     bind_result (GetTxBlockHash (dbTxs (chDB ch)) txHash) (\<lambda>blockHash.
     bind_result (GetBlockByHash P (dbBlocks (chDB ch)) blockHash) (\<lambda>block.
       Inr (blockHash, hdHeight (bkHeader block))))"

text \<open>A broken link is a panic, and so is a missing block.\<close>

definition CheckHealth :: "('i, 'p) nprims_scheme \<Rightarrow> Chain \<Rightarrow> error + unit" where
  "CheckHealth P ch =
     bind_result (Chain_GetOriginBlock P ch) (\<lambda>origin.
     bind_result (foldM (\<lambda>prevBlockHash h.
         case getBlockByHeight P ch h of
           Inl _ \<Rightarrow> Inl Panic
         | Inr b \<Rightarrow> if hdPrevBlockHash (bkHeader b) \<noteq> prevBlockHash then Inl Panic else Inr (Block_GetHash P b))
        (heights (hdHeight (bkHeader origin) + 1) (GetLatestBlockHeight ch)) (Block_GetHash P origin)) (\<lambda>_. Inr ()))"

end
