(* ===== verification/Canonical.thy ===== *)
theory Canonical
  imports Chain
begin

text \<open>
  The block store as a chain.  \<open>store_inv P blk B bs\<close> says that the bucket \<open>B\<close> represents the canonical
  chain \<open>bs\<close>, origin first: the height index, the tags, the bodies, the marks of side blocks and the
  memoized work agree with it.  The function \<open>blk\<close> names the block of every hash; that the blocks at hand
  are the ones it names is the absence of hash collisions.  The operations of \<^verbatim>\<open>ngblocks\<close> refine appending a block and
  replacing a suffix of the list.
\<close>

section \<open>Definitions\<close>

abbreviation height :: "FullBlock \<Rightarrow> u64" where
  "height b \<equiv> hdHeight (bkHeader b)"

abbreviation prev_hash :: "FullBlock \<Rightarrow> bytes" where
  "prev_hash b \<equiv> hdPrevBlockHash (bkHeader b)"

text \<open>What is asked of a block that enters the store: the wire format reads back what was written, its hash
  names it alone and starts with no key prefix of the bucket, and its height is below \<open>2 ^ 37\<close>.\<close>

definition admissible :: "('i, 'p) nprims_scheme \<Rightarrow> (bytes \<Rightarrow> FullBlock) \<Rightarrow> FullBlock \<Rightarrow> bool" where
  "admissible P blk b \<longleftrightarrow> rlpBlockDec P (rlpBlock P b) = Some b \<and> blk (Block_GetHash P b) = b \<and>
     \<not> has_prefix (Block_GetHash P b) sideBlockPrefix \<and> height b < 2 ^ 37"

definition has_parent :: "'p prims_scheme \<Rightarrow> (bytes \<Rightarrow> FullBlock) \<Rightarrow> FullBlock \<Rightarrow> bool" where
  "has_parent P blk b \<longleftrightarrow> Block_GetHash P (blk (prev_hash b)) = prev_hash b \<and> height b = height (blk (prev_hash b)) + 1"

text \<open>The total work of a block whose ancestors end \<open>n\<close> generations below.\<close>

primrec total_work :: "(bytes \<Rightarrow> FullBlock) \<Rightarrow> nat \<Rightarrow> FullBlock \<Rightarrow> int" where
  "total_work blk 0 b = workOf b"
| "total_work blk (Suc n) b = total_work blk n (blk (prev_hash b)) + workOf b"

definition chain_work :: "(bytes \<Rightarrow> FullBlock) \<Rightarrow> FullBlock \<Rightarrow> FullBlock \<Rightarrow> int" where
  "chain_work blk origin b = total_work blk (unat (height b) - unat (height origin)) b"

definition body_ok :: "('i, 'p) nprims_scheme \<Rightarrow> (bytes \<Rightarrow> FullBlock) \<Rightarrow> FullBlock \<Rightarrow> FullBlock \<Rightarrow> bool" where
  "body_ok P blk origin b \<longleftrightarrow> admissible P blk b \<and> (b = origin \<or> has_parent P blk b \<and> height origin < height b)"

definition tags_ok :: "'p prims_scheme \<Rightarrow> bucket \<Rightarrow> FullBlock list \<Rightarrow> bool" where
  "tags_ok P B bs \<longleftrightarrow> bget B LatestHeightTag = Some (PackUint64LE (height (last bs))) \<and>
     bget B LatestHashTag = Some (Block_GetHash P (last bs)) \<and>
     bget B OriginHeightTag = Some (PackUint64LE (height (hd bs))) \<and>
     bget B OriginHashTag = Some (Block_GetHash P (hd bs))"

definition bodies_ok :: "('i, 'p) nprims_scheme \<Rightarrow> (bytes \<Rightarrow> FullBlock) \<Rightarrow> bucket \<Rightarrow> FullBlock list \<Rightarrow> bool" where
  "bodies_ok P blk B bs \<longleftrightarrow> (\<forall>b \<in> set bs. bget B (Block_GetHash P b) = Some (rlpBlock P b) \<and> body_ok P blk (hd bs) b) \<and>
     (\<forall>k v. bget B k = Some v \<longrightarrow> length k = 32 \<longrightarrow>
        (\<exists>b. v = rlpBlock P b \<and> k = Block_GetHash P b \<and> body_ok P blk (hd bs) b))"

definition index_ok :: "'p prims_scheme \<Rightarrow> bucket \<Rightarrow> FullBlock list \<Rightarrow> bool" where
  "index_ok P B bs \<longleftrightarrow> (\<forall>h v. bget B (PackUint64LE h) = Some v \<longleftrightarrow> (\<exists>b \<in> set bs. height b = h \<and> Block_GetHash P b = v))"

definition marks_ok :: "'p prims_scheme \<Rightarrow> bucket \<Rightarrow> (bytes \<Rightarrow> FullBlock) \<Rightarrow> bool" where
  "marks_ok P B blk \<longleftrightarrow> (\<forall>k v. bget B k = Some v \<longrightarrow> has_prefix k sideBlockPrefix \<longrightarrow>
     (\<exists>h. k = sideBlockKey h \<and> length h = 32 \<and> bget B h \<noteq> None \<and> v = PackUint64LE (height (blk h))))"

definition works_ok :: "bucket \<Rightarrow> (bytes \<Rightarrow> FullBlock) \<Rightarrow> FullBlock \<Rightarrow> bool" where
  "works_ok B blk origin \<longleftrightarrow> (\<forall>h w. length h = 32 \<longrightarrow> GetBlockWork B h = Inr w \<longrightarrow> w = chain_work blk origin (blk h))"

definition store_inv :: "('i, 'p) nprims_scheme \<Rightarrow> (bytes \<Rightarrow> FullBlock) \<Rightarrow> bucket \<Rightarrow> FullBlock list \<Rightarrow> bool" where
  "store_inv P blk B bs \<longleftrightarrow> bucket_ok B \<and> bs \<noteq> [] \<and> branch_connected P bs \<and> tags_ok P B bs \<and> bodies_ok P blk B bs \<and>
     index_ok P B bs \<and> marks_ok P B blk \<and> works_ok B blk (hd bs)"

section \<open>Keys\<close>

lemma hash_length: "hash32 (Hash256 P) \<Longrightarrow> length (Block_GetHash P b) = 32"
  by (simp add: Block_GetHash_def hash32_def HashSize_def)

lemma work_key_length [simp]: "length (blockWorkKey h) = 5 + length h"
  by (simp add: blockWorkKey_def str_def)

lemma side_key_length [simp]: "length (sideBlockKey h) = 5 + length h"
  by (simp add: sideBlockKey_def sideBlockPrefix_def str_def)

lemma tag_lengths [simp]: "length LatestHeightTag = 13" "length LatestHashTag = 11" "length OriginHeightTag = 13"
    "length OriginHashTag = 11"
  by (simp_all add: LatestHeightTag_def LatestHashTag_def OriginHeightTag_def OriginHashTag_def str_def)

lemma key_injects [simp]: "blockWorkKey h = blockWorkKey h' \<longleftrightarrow> h = h'" "sideBlockKey h = sideBlockKey h' \<longleftrightarrow> h = h'"
  by (simp_all add: blockWorkKey_def sideBlockKey_def)

lemma tags_differ [simp]: "LatestHeightTag \<noteq> OriginHeightTag" "OriginHeightTag \<noteq> LatestHeightTag"
    "LatestHashTag \<noteq> OriginHashTag" "OriginHashTag \<noteq> LatestHashTag" "LatestHeightTag \<noteq> LatestHashTag"
    "OriginHeightTag \<noteq> LatestHashTag" "OriginHashTag \<noteq> LatestHeightTag" "LatestHashTag \<noteq> LatestHeightTag"
    "LatestHashTag \<noteq> OriginHeightTag" "LatestHeightTag \<noteq> OriginHashTag" "OriginHeightTag \<noteq> OriginHashTag"
    "OriginHashTag \<noteq> OriginHeightTag"
  by (simp_all add: LatestHeightTag_def LatestHashTag_def OriginHeightTag_def OriginHashTag_def str_def)

lemma work_side_differ [simp]: "blockWorkKey h \<noteq> sideBlockKey h'" "sideBlockKey h' \<noteq> blockWorkKey h"
  by (simp_all add: blockWorkKey_def sideBlockKey_def sideBlockPrefix_def str_def)

lemma side_prefixes [simp]: "has_prefix (sideBlockKey h) sideBlockPrefix" "\<not> has_prefix (blockWorkKey h) sideBlockPrefix"
    "\<not> has_prefix LatestHeightTag sideBlockPrefix" "\<not> has_prefix LatestHashTag sideBlockPrefix"
    "\<not> has_prefix OriginHeightTag sideBlockPrefix" "\<not> has_prefix OriginHashTag sideBlockPrefix"
  by (simp_all add: has_prefix_def sideBlockKey_def sideBlockPrefix_def blockWorkKey_def LatestHeightTag_def
      LatestHashTag_def OriginHeightTag_def OriginHashTag_def str_def)

lemma unat_bound: "unat (x :: u64) < 2 ^ 64"
  by (rule order_less_le_trans [OF unsigned_less]) simp

lemma keys_apart: "length k \<noteq> length k' \<Longrightarrow> k \<noteq> (k' :: bytes)"
  by auto

text \<open>No height in use has the prefix of the marks: its low bytes would make it at least \<open>2 ^ 37\<close>.\<close>

lemma height_no_mark:
  assumes "h < 2 ^ 37"
  shows "\<not> has_prefix (PackUint64LE h) sideBlockPrefix"
proof
  assume "has_prefix (PackUint64LE h) sideBlockPrefix"
  then have "map (\<lambda>i. ucast (drop_bit (8 * i) h) :: byte) [0..<5] = str ''side:''"
    by (simp add: has_prefix_def sideBlockPrefix_def PackUint64LE_def str_def take_map upt_conv_Cons)
  then have e: "ucast (drop_bit 32 h) = (58 :: byte)" by (simp add: str_def upt_conv_Cons)
  have "drop_bit 32 h < 32"
    using assms by (simp add: word_less_nat_alt drop_bit_eq_div unat_div)
  then have "unat (drop_bit 32 h) < 32" by (simp add: word_less_nat_alt)
  moreover have "unat (ucast (drop_bit 32 h) :: byte) = unat (drop_bit 32 h) mod 256"
    by (simp add: unat_ucast_byte)
  ultimately show False using e by simp
qed

section \<open>Writes\<close>

text \<open>Each part of the invariant depends on the keys of one kind.\<close>

lemma get_put_length: "length k' \<noteq> length k \<Longrightarrow> bget (bput B k v) k' = bget B k'"
  and get_del_length: "length k' \<noteq> length k \<Longrightarrow> bget (bdel B k) k' = bget B k'"
  by (auto simp: bucket_simps)

lemma tags_put: "length k \<noteq> 11 \<Longrightarrow> length k \<noteq> 13 \<Longrightarrow> tags_ok P (bput B k v) bs = tags_ok P B bs"
  and tags_del: "length k \<noteq> 11 \<Longrightarrow> length k \<noteq> 13 \<Longrightarrow> tags_ok P (bdel B k) bs = tags_ok P B bs"
  by (simp_all add: tags_ok_def get_put_length get_del_length)

lemma bodies_put: "hash32 (Hash256 P) \<Longrightarrow> length k \<noteq> 32 \<Longrightarrow> bodies_ok P blk (bput B k v) bs = bodies_ok P blk B bs"
  and bodies_del: "hash32 (Hash256 P) \<Longrightarrow> length k \<noteq> 32 \<Longrightarrow> bodies_ok P blk (bdel B k) bs = bodies_ok P blk B bs"
proof -
  assume k: "hash32 (Hash256 P)" "length k \<noteq> 32"
  have n: "Block_GetHash P b \<noteq> k" for b using k hash_length [of P b] by auto
  show "bodies_ok P blk (bput B k v) bs = bodies_ok P blk B bs" using k(2) by (auto simp: bodies_ok_def bucket_simps n)
  show "bodies_ok P blk (bdel B k) bs = bodies_ok P blk B bs" using k(2) by (auto simp: bodies_ok_def bucket_simps n)
qed

lemma index_put: "length k \<noteq> 8 \<Longrightarrow> index_ok P (bput B k v) bs = index_ok P B bs"
  and index_del: "length k \<noteq> 8 \<Longrightarrow> index_ok P (bdel B k) bs = index_ok P B bs"
  by (simp_all add: index_ok_def get_put_length get_del_length)

lemma marks_put: "\<not> has_prefix k sideBlockPrefix \<Longrightarrow> marks_ok P B blk \<Longrightarrow> marks_ok P (bput B k v) blk"
  unfolding marks_ok_def bucket_simps by (metis option.distinct(1))

lemma marks_del: "length k \<noteq> 32 \<Longrightarrow> marks_ok P B blk \<Longrightarrow> marks_ok P (bdel B k) blk"
  unfolding marks_ok_def bucket_simps by (metis option.distinct(1))

lemma works_put: "length k \<noteq> 37 \<Longrightarrow> works_ok (bput B k v) blk o' = works_ok B blk o'"
  by (simp add: works_ok_def GetBlockWork_def get_put_length cong: conj_cong imp_cong)

lemma works_del: "works_ok B blk o' \<Longrightarrow> works_ok (bdel B k) blk o'"
  by (auto simp: works_ok_def GetBlockWork_def bucket_simps split: option.splits if_splits)

text \<open>Writing a body, a mark and a work record.\<close>

lemma body_named: "body_ok P blk o' b \<Longrightarrow> blk (Block_GetHash P b) = b"
  by (simp add: body_ok_def admissible_def)

lemma same_hash: "body_ok P blk o' b \<Longrightarrow> body_ok P blk o' c \<Longrightarrow> Block_GetHash P b = Block_GetHash P c \<Longrightarrow> b = c"
  using body_named by metis

lemma bodies_put_body:
  assumes B: "bodies_ok P blk B bs" and b: "body_ok P blk (hd bs) b" and cs: "set cs \<subseteq> insert b (set bs)" "hd cs = hd bs"
  shows "bodies_ok P blk (bput B (Block_GetHash P b) (rlpBlock P b)) cs"
  unfolding bodies_ok_def cs(2)
proof (intro conjI ballI allI impI)
  fix c assume "c \<in> set cs"
  then have c: "c = b \<or> c \<in> set bs" using cs(1) by blast
  then show ok: "body_ok P blk (hd bs) c" using B b by (auto simp: bodies_ok_def)
  show "bget (bput B (Block_GetHash P b) (rlpBlock P b)) (Block_GetHash P c) = Some (rlpBlock P c)"
    using c B body_named [OF b] body_named [OF ok] by (auto simp: bodies_ok_def bucket_simps)
next
  fix k v assume "bget (bput B (Block_GetHash P b) (rlpBlock P b)) k = Some v" "length k = 32"
  then show "\<exists>c. v = rlpBlock P c \<and> k = Block_GetHash P c \<and> body_ok P blk (hd bs) c"
    using B b by (auto simp: bodies_ok_def bucket_simps split: if_splits)
qed

lemma marks_put_mark:
  assumes "marks_ok P B blk" "hash32 (Hash256 P)" "bget B (Block_GetHash P b) \<noteq> None" "blk (Block_GetHash P b) = b"
  shows "marks_ok P (bput B (sideBlockKey (Block_GetHash P b)) (PackUint64LE (height b))) blk"
  using assms hash_length [OF assms(2), of b] unfolding marks_ok_def bucket_simps
  by (metis option.inject option.distinct(1))

lemma works_put_work:
  assumes "works_ok B blk o'" "w = chain_work blk o' (blk h)" "0 \<le> w"
  shows "works_ok (PutBlockWork B h w) blk o'"
  using assms by (auto simp: works_ok_def GetBlockWork_def PutBlockWork_def bucket_simps split: option.splits if_splits)

lemma works_put_side: "works_ok B blk o' \<Longrightarrow> works_ok (bput B (sideBlockKey h) v) blk o'"
  by (auto simp: works_ok_def GetBlockWork_def bucket_simps)

section \<open>Reading\<close>

lemma inv_parts:
  assumes "store_inv P blk B bs"
  shows "bucket_ok B" "bs \<noteq> []" "branch_connected P bs" "tags_ok P B bs" "bodies_ok P blk B bs" "index_ok P B bs"
    "marks_ok P B blk" "works_ok B blk (hd bs)"
  using assms by (simp_all add: store_inv_def)

lemma GetBlockByHash_Inr:
  assumes "store_inv P blk B bs" "length h = 32" "GetBlockByHash P B h = Inr b"
  shows "Block_GetHash P b = h" "body_ok P blk (hd bs) b" "bget B h = Some (rlpBlock P b)"
proof -
  obtain raw where raw: "bget B h = Some raw" "rlpBlockDec P raw = Some b"
    using assms(3) by (auto simp: GetBlockByHash_def split: option.splits)
  then obtain c where c: "raw = rlpBlock P c" "h = Block_GetHash P c" "body_ok P blk (hd bs) c"
    using inv_parts(5) [OF assms(1)] assms(2) unfolding bodies_ok_def by blast
  moreover have "c = b" using raw(2) c by (simp add: body_ok_def admissible_def)
  ultimately show "Block_GetHash P b = h" "body_ok P blk (hd bs) b" "bget B h = Some (rlpBlock P b)" using raw(1) by simp_all
qed

lemma chain_body:
  assumes "store_inv P blk B bs" "b \<in> set bs"
  shows "body_ok P blk (hd bs) b" "blk (Block_GetHash P b) = b" "GetBlockByHash P B (Block_GetHash P b) = Inr b"
proof -
  have b: "bget B (Block_GetHash P b) = Some (rlpBlock P b)" "body_ok P blk (hd bs) b"
    using inv_parts(5) [OF assms(1)] assms(2) by (simp_all add: bodies_ok_def)
  then show "body_ok P blk (hd bs) b" "blk (Block_GetHash P b) = b" "GetBlockByHash P B (Block_GetHash P b) = Inr b"
    by (simp_all add: GetBlockByHash_def body_ok_def admissible_def)
qed

lemma unpack_pack [simp]: "UnpackUint64LE (PackUint64LE h) = Some h"
  using UnpackUint64LE_Pack [of h "[]"] by simp

lemma GetTags:
  assumes "store_inv P blk B bs"
  shows "GetLatestHeight B = Inr (height (last bs))" "GetLatestHash B = Inr (Block_GetHash P (last bs))"
    "GetOriginHeight B = Inr (height (hd bs))" "GetOriginHash B = Inr (Block_GetHash P (hd bs))"
    "GetLatestBlock P B = Inr (last bs)" "GetOriginBlock P B = Inr (hd bs)"
  using inv_parts(2,4) [OF assms] chain_body(3) [OF assms, of "last bs"] chain_body(3) [OF assms, of "hd bs"]
  by (simp_all add: tags_ok_def GetLatestHeight_def GetLatestHash_def GetOriginHeight_def GetOriginHash_def
      GetLatestBlock_def GetOriginBlock_def)

lemma chain_index: "store_inv P blk B bs \<Longrightarrow> b \<in> set bs \<Longrightarrow> bget B (PackUint64LE (height b)) = Some (Block_GetHash P b)"
  by (drule inv_parts(6)) (auto simp: index_ok_def)

lemma GetBlockByHeight_chain:
  assumes "store_inv P blk B bs"
  shows "GetBlockByHeight P B h = Inr b \<longleftrightarrow> b \<in> set bs \<and> height b = h"
    and "GetBlockByHeight P B h \<noteq> Inl ErrKeyNotFound \<longleftrightarrow> (\<exists>b \<in> set bs. height b = h)"
proof -
  have idx: "bget B (PackUint64LE h) = Some v \<longleftrightarrow> (\<exists>b \<in> set bs. height b = h \<and> Block_GetHash P b = v)" for v
    using inv_parts(6) [OF assms] by (simp add: index_ok_def)
  have body: "GetBlockByHeight P B h = Inr c" if "c \<in> set bs" "height c = h" for c
  proof -
    have "bget B (PackUint64LE h) = Some (Block_GetHash P c)" using idx that by blast
    then show ?thesis using chain_body(3) [OF assms that(1)] by (auto simp: GetBlockByHeight_def GetBlockByHash_def split: option.splits)
  qed
  show "GetBlockByHeight P B h = Inr b \<longleftrightarrow> b \<in> set bs \<and> height b = h" (is "?l \<longleftrightarrow> ?r")
  proof
    assume ?l
    then obtain v where "bget B (PackUint64LE h) = Some v" by (auto simp: GetBlockByHeight_def split: option.splits)
    then obtain c where "c \<in> set bs" "height c = h" using idx by blast
    then show ?r using body [of c] \<open>?l\<close> by simp
  next
    assume ?r then show ?l using body by blast
  qed
  show "GetBlockByHeight P B h \<noteq> Inl ErrKeyNotFound \<longleftrightarrow> (\<exists>b \<in> set bs. height b = h)"
  proof (cases "\<exists>b \<in> set bs. height b = h")
    case True
    then obtain b where b: "b \<in> set bs" "height b = h" by blast
    then show ?thesis using body [OF b] True by simp
  next
    case False
    then have "bget B (PackUint64LE h) = None" using idx by (metis option.exhaust)
    then show ?thesis using False by (simp add: GetBlockByHeight_def)
  qed
qed

section \<open>Connected lists\<close>

lemma connected_append:
  "branch_connected P (xs @ ys) \<longleftrightarrow> branch_connected P xs \<and> branch_connected P ys \<and>
     (xs \<noteq> [] \<longrightarrow> ys \<noteq> [] \<longrightarrow> height (hd ys) = height (last xs) + 1 \<and> prev_hash (hd ys) = Block_GetHash P (last xs))"
proof (induction xs)
  case (Cons a xs) then show ?case by (cases xs; cases ys) auto
qed simp

text \<open>No height of an admissible chain wraps around, so heights are positions.\<close>

lemma connected_heights:
  assumes "branch_connected P bs" "\<forall>b \<in> set bs. height b < 2 ^ 37" "i < length bs"
  shows "unat (height (bs ! i)) = unat (height (hd bs)) + i"
  using assms(3)
proof (induction i)
  case 0 then show ?case by (simp add: hd_conv_nth)
next
  case (Suc i)
  have "height (bs ! Suc i) = height (bs ! i) + 1"
  proof -
    have "branch_connected P (take (Suc i) bs @ drop (Suc i) bs)" using assms(1) by simp
    then have "height (hd (drop (Suc i) bs)) = height (last (take (Suc i) bs)) + 1"
      using Suc.prems unfolding connected_append by auto
    moreover have "last (take (Suc i) bs) = bs ! i" using Suc.prems by (simp add: take_Suc_conv_app_nth)
    ultimately show ?thesis using Suc.prems by (simp add: hd_drop_conv_nth)
  qed
  moreover have "height (bs ! i) < 2 ^ 37" using assms(2) Suc.prems by simp
  then have "unat (height (bs ! i) + 1) = unat (height (bs ! i)) + 1"
    by (simp add: word_less_nat_alt unat_word_ariths)
  ultimately show ?case using Suc by simp
qed

lemma connected_list:
  assumes "branch_connected P bs" and low: "\<forall>b \<in> set bs. height b < 2 ^ 37" and ne: "bs \<noteq> []"
  shows "b \<in> set bs \<Longrightarrow> height (hd bs) \<le> height b \<and> height b \<le> height (last bs)"
    and "b \<in> set bs \<Longrightarrow> c \<in> set bs \<Longrightarrow> height b = height c \<Longrightarrow> b = c"
    and "height (hd bs) \<le> h \<Longrightarrow> h \<le> height (last bs) \<Longrightarrow> \<exists>b \<in> set bs. height b = h"
proof -
  note at = connected_heights [OF assms(1) low]
  have lst: "unat (height (last bs)) = unat (height (hd bs)) + (length bs - 1)"
    using at [of "length bs - 1"] ne by (simp add: last_conv_nth)
  show "height (hd bs) \<le> height b \<and> height b \<le> height (last bs)" if "b \<in> set bs"
  proof -
    obtain i where i: "i < length bs" "b = bs ! i" using \<open>b \<in> set bs\<close> by (metis in_set_conv_nth)
    then show ?thesis using at [OF i(1)] lst by (simp add: word_le_nat_alt)
  qed
  show "b = c" if "b \<in> set bs" "c \<in> set bs" "height b = height c"
  proof -
    obtain i j where i: "i < length bs" "b = bs ! i" and j: "j < length bs" "c = bs ! j"
      using \<open>b \<in> set bs\<close> \<open>c \<in> set bs\<close> by (metis in_set_conv_nth)
    have "unat (height b) = unat (height (hd bs)) + i" "unat (height c) = unat (height (hd bs)) + j"
      unfolding i(2) j(2) by (rule at [OF i(1)], rule at [OF j(1)])
    then have "i = j" using that(3) by simp
    then show ?thesis using i(2) j(2) by simp
  qed
  show "\<exists>b \<in> set bs. height b = h" if "height (hd bs) \<le> h" "h \<le> height (last bs)"
  proof -
    let ?i = "unat h - unat (height (hd bs))"
    have "unat h \<le> unat (height (hd bs)) + (length bs - 1)" "0 < length bs" using that(2) lst ne by (simp_all add: word_le_nat_alt)
    then have i: "?i < length bs" by arith
    then have "unat (height (bs ! ?i)) = unat h" using at [OF i] that by (simp add: word_le_nat_alt)
    then show ?thesis using i nth_mem word_unat_eq_iff by blast
  qed
qed

lemma chain_low: "store_inv P blk B bs \<Longrightarrow> \<forall>b \<in> set bs. height b < 2 ^ 37"
  using chain_body(1) by (fastforce simp: body_ok_def admissible_def)

lemmas chain_list = connected_list [OF inv_parts(3) chain_low inv_parts(2)]

section \<open>The operations keep the store\<close>

lemma inv_side:
  assumes inv: "store_inv P blk B bs" and H: "hash32 (Hash256 P)" and b: "body_ok P blk (hd bs) b"
  shows "store_inv P blk (PutSideBlock P B b) bs"
proof -
  have m: "\<not> has_prefix (Block_GetHash P b) sideBlockPrefix" using b by (simp add: body_ok_def admissible_def)
  show ?thesis
    using inv_parts [OF inv] bodies_put_body [OF inv_parts(5) [OF inv] b subset_insertI refl] body_named [OF b] m
    unfolding store_inv_def PutSideBlock_def
    by (intro conjI) (simp_all add: hash_length [OF H] tags_put bodies_put [OF H] index_put works_put works_put_side bucket_simps
        marks_put marks_put_mark [OF marks_put H])
qed

lemma putBlock_parts:
  assumes H: "hash32 (Hash256 P)" and B: "bucket_ok B" "bodies_ok P blk B bs" "marks_ok P B blk" "works_ok B blk (hd bs)"
    and b: "body_ok P blk (hd bs) b" and cs: "set cs \<subseteq> insert b (set bs)" "hd cs = hd bs"
  shows "bucket_ok (putBlock P B (Block_GetHash P b) b)" "bodies_ok P blk (putBlock P B (Block_GetHash P b) b) cs"
    "marks_ok P (putBlock P B (Block_GetHash P b) b) blk" "works_ok (putBlock P B (Block_GetHash P b) b) blk (hd cs)"
    "tags_ok P (putBlock P B (Block_GetHash P b) b) ds = tags_ok P B ds"
    "bget (putBlock P B (Block_GetHash P b) b) (PackUint64LE h) =
       (if h = height b then Some (Block_GetHash P b) else bget B (PackUint64LE h))"
proof -
  have m: "\<not> has_prefix (Block_GetHash P b) sideBlockPrefix" "\<not> has_prefix (PackUint64LE (height b)) sideBlockPrefix"
    using b height_no_mark by (simp_all add: body_ok_def admissible_def)
  note l = hash_length [OF H]
  show "bucket_ok (putBlock P B (Block_GetHash P b) b)" using B(1) by (simp add: putBlock_def Let_def bucket_simps)
  show "bodies_ok P blk (putBlock P B (Block_GetHash P b) b) cs"
    using bodies_put_body [OF B(2) b cs] by (simp add: putBlock_def Let_def bodies_put [OF H] bodies_del [OF H] l)
  show "marks_ok P (putBlock P B (Block_GetHash P b) b) blk"
    using B(3) m by (simp add: putBlock_def Let_def marks_put marks_del l)
  show "works_ok (putBlock P B (Block_GetHash P b) b) blk (hd cs)"
    using B(4) cs(2) by (simp add: putBlock_def Let_def works_put works_del l)
  show "tags_ok P (putBlock P B (Block_GetHash P b) b) ds = tags_ok P B ds"
    by (simp add: putBlock_def Let_def tags_put tags_del l)
  show "bget (putBlock P B (Block_GetHash P b) b) (PackUint64LE h) =
       (if h = height b then Some (Block_GetHash P b) else bget B (PackUint64LE h))"
    using keys_apart [of "PackUint64LE h" "Block_GetHash P b"] by (simp add: putBlock_def Let_def bget_bput get_del_length l)
qed

lemma tags_latest:
  assumes "tags_ok P B bs" "hd cs = hd bs"
  shows "tags_ok P (putLatestTags B (height (last cs)) (Block_GetHash P (last cs))) cs"
  using assms by (simp add: tags_ok_def putLatestTags_def bget_bput get_put_length)

lemma latest_parts:
  assumes "hash32 (Hash256 P)"
  shows "bodies_ok P blk (putLatestTags B h v) cs = bodies_ok P blk B cs" "index_ok P (putLatestTags B h v) cs = index_ok P B cs"
    "marks_ok P B blk \<Longrightarrow> marks_ok P (putLatestTags B h v) blk" "works_ok (putLatestTags B h v) blk o' = works_ok B blk o'"
    "bucket_ok B \<Longrightarrow> bucket_ok (putLatestTags B h v)"
  by (simp_all add: putLatestTags_def bodies_put [OF assms] index_put marks_put works_put bucket_simps)

text \<open>A block on the tip extends the canonical chain.\<close>

lemma inv_append:
  assumes inv: "store_inv P blk B bs" and H: "hash32 (Hash256 P)" and b: "admissible P blk b"
    and put: "PutNewBlock P B T b = Inr (B', T')" and prev: "prev_hash b = Block_GetHash P (last bs)"
  shows "store_inv P blk B' (bs @ [b])" "height b = height (last bs) + 1"
proof -
  note ne = inv_parts(2) [OF inv]
  have chk: "\<not> blockHeightExists P B (height b)" "blockPrevHashExists P B (height b) (prev_hash b)"
    and B': "B' = putLatestTags (putBlock P B (Block_GetHash P b) b) (height b) (Block_GetHash P b)"
    using put by (auto simp: PutNewBlock_def Let_def checkBlock_def bind_result_Inr_iff split: if_splits)
  have h0: "height b \<noteq> 0" and none: "\<forall>c \<in> set bs. height c \<noteq> height b"
    using chk(1) GetBlockByHeight_chain(2) [OF inv, of "height b"] by (auto simp: blockHeightExists_def split: if_splits sum.splits)
  have last: "last bs \<in> set bs" "GetBlockByHash P B (prev_hash b) = Inr (last bs)"
    using ne chain_body(3) [OF inv, of "last bs"] prev by simp_all
  have "height (last bs) = height b - 1" using chk(2) h0 last(2) by (simp add: blockPrevHashExists_def)
  then show h: "height b = height (last bs) + 1" by simp
  have lt: "height (hd bs) < height b"
    using chain_list(1) [OF inv inv inv last(1)] chain_low [OF inv] last(1) h by (auto simp: word_le_nat_alt word_less_nat_alt unat_word_ariths)
  have body: "body_ok P blk (hd bs) b"
    using b h lt chain_body(2) [OF inv last(1)] prev by (simp add: body_ok_def has_parent_def)
  have hd: "hd (bs @ [b]) = hd bs" "set (bs @ [b]) \<subseteq> insert b (set bs)" using ne by auto
  note parts = putBlock_parts [OF H inv_parts(1,5,7,8) [OF inv] body hd(2,1)]
  have idx: "index_ok P (putBlock P B (Block_GetHash P b) b) (bs @ [b])"
    using inv_parts(6) [OF inv] none unfolding index_ok_def parts(6) by auto
  have tags: "tags_ok P B' (bs @ [b])"
    using tags_latest [of P "putBlock P B (Block_GetHash P b) b" bs "bs @ [b]"] inv_parts(4) [OF inv] hd(1) by (simp add: B' parts(5))
  have conn: "branch_connected P (bs @ [b])" using inv_parts(3) [OF inv] h prev by (simp add: connected_append)
  show "store_inv P blk B' (bs @ [b])"
    using parts(1-4) idx tags conn unfolding store_inv_def B' by (simp add: latest_parts [OF H])
qed

subsection \<open>Memoized work\<close>

text \<open>A run of blocks above a known work, each the total of its own chain.\<close>

primrec rises :: "('i, 'p) nprims_scheme \<Rightarrow> (bytes \<Rightarrow> FullBlock) \<Rightarrow> FullBlock \<Rightarrow> int \<Rightarrow> FullBlock list \<Rightarrow> bool" where
  "rises P blk o' w [] \<longleftrightarrow> True"
| "rises P blk o' w (x # xs) \<longleftrightarrow> body_ok P blk o' x \<and> w + workOf x = chain_work blk o' x \<and> rises P blk o' (w + workOf x) xs"

lemma workOf_nonneg [simp]: "0 \<le> workOf b"
  by (simp add: workOf_def)

lemma total_work_nonneg [simp]: "0 \<le> total_work blk n b"
  by (induction n arbitrary: b) simp_all

lemma chain_work_nonneg [simp]: "0 \<le> chain_work blk o' b"
  by (simp add: chain_work_def)

lemma chain_work_origin: "chain_work blk b b = workOf b"
  by (simp add: chain_work_def)

lemma parent_height:
  assumes "has_parent P blk b" "height o' < height b"
  shows "unat (height b) = Suc (unat (height (blk (prev_hash b))))"
proof -
  have hb: "height b = height (blk (prev_hash b)) + 1" using assms(1) by (simp add: has_parent_def)
  have "height b \<noteq> 0" using assms(2) by auto
  then show ?thesis unfolding hb using unatSuc [of "height (blk (prev_hash b))"] by (simp add: add.commute)
qed

lemma chain_work_step:
  assumes "has_parent P blk b" "height o' < height b"
  shows "chain_work blk o' b = chain_work blk o' (blk (prev_hash b)) + workOf b"
proof -
  let ?p = "blk (prev_hash b)"
  have up: "unat (height b) = Suc (unat (height ?p))" by (rule parent_height [OF assms])
  moreover have "unat (height o') \<le> unat (height ?p)" using assms(2) up by (simp add: word_less_nat_alt)
  ultimately have "unat (height b) - unat (height o') = Suc (unat (height ?p) - unat (height o'))" by arith
  then show ?thesis by (simp add: chain_work_def)
qed

lemma parent_length: "hash32 (Hash256 P) \<Longrightarrow> has_parent P blk b \<Longrightarrow> length (prev_hash b) = 32"
  using hash_length [of P "blk (prev_hash b)"] by (simp add: has_parent_def)

lemma work_walk_total:
  assumes "store_inv P blk B bs" "hash32 (Hash256 P)"
  shows "work_walk n P B cur pending = Inr (base, out) \<Longrightarrow> body_ok P blk (hd bs) cur \<Longrightarrow>
    rises P blk (hd bs) (chain_work blk (hd bs) cur) pending \<Longrightarrow>
    rises P blk (hd bs) base out \<and>
    base + sum_list (map workOf out) = chain_work blk (hd bs) cur + sum_list (map workOf pending)"
proof (induction n arbitrary: cur pending)
  case (Suc n)
  have cur: "blk (Block_GetHash P cur) = cur" by (rule body_named [OF Suc.prems(2)])
  show ?case
  proof (cases "GetBlockWork B (Block_GetHash P cur)")
    case (Inr w)
    then have "w = chain_work blk (hd bs) cur"
      using inv_parts(8) [OF assms(1), unfolded works_ok_def, rule_format, OF hash_length [OF assms(2)] Inr] cur by simp
    then show ?thesis using Suc.prems Inr by simp
  next
    case (Inl e)
    show ?thesis
    proof (cases "Block_GetHash P cur = Block_GetHash P (hd bs)")
      case True
      have "hd bs \<in> set bs" using inv_parts(2) [OF assms(1)] by simp
      then have "cur = hd bs" by (rule same_hash [OF Suc.prems(2) chain_body(1) [OF assms(1)] True])
      then show ?thesis using Suc.prems Inl GetTags(4) [OF assms(1)] chain_work_origin [of blk cur] by auto
    next
      case False
      then have hp: "has_parent P blk cur" "height (hd bs) < height cur" using Suc.prems(2) by (auto simp: body_ok_def)
      obtain p where p: "GetBlockByHash P B (prev_hash cur) = Inr p" "work_walk n P B p (cur # pending) = Inr (base, out)"
        using Suc.prems(1) Inl False GetTags(4) [OF assms(1)] by (auto simp: bind_result_Inr_iff)
      note pb = GetBlockByHash_Inr [OF assms(1) parent_length [OF assms(2) hp(1)] p(1)]
      have "p = blk (prev_hash cur)" using body_named [OF pb(2)] pb(1) by simp
      then show ?thesis using Suc.IH [OF p(2) pb(2)] Suc.prems(2,3) chain_work_step [OF hp] by simp
    qed
  qed
qed simp

lemma put_works:
  assumes H: "hash32 (Hash256 P)"
  shows "store_inv P blk B bs \<Longrightarrow> rises P blk (hd bs) w xs \<Longrightarrow>
    foldl (\<lambda>(b, work) x. (PutBlockWork b (Block_GetHash P x) (work + workOf x), work + workOf x)) (B, w) xs = (B', w') \<Longrightarrow>
    store_inv P blk B' bs \<and> w' = w + sum_list (map workOf xs) \<and> (\<forall>k. (\<forall>h. k \<noteq> blockWorkKey h) \<longrightarrow> bget B' k = bget B k)"
proof (induction xs arbitrary: B w)
  case (Cons x xs)
  let ?B = "PutBlockWork B (Block_GetHash P x) (w + workOf x)"
  have x: "body_ok P blk (hd bs) x" "w + workOf x = chain_work blk (hd bs) x" using Cons.prems(2) by simp_all
  have keep: "bget ?B k = bget B k" if "\<forall>h. k \<noteq> blockWorkKey h" for k using that by (simp add: PutBlockWork_def bget_bput)
  have "works_ok ?B blk (hd bs)"
    using works_put_work [OF inv_parts(8) [OF Cons.prems(1)]] x body_named [OF x(1)] by (metis chain_work_nonneg)
  then have "store_inv P blk ?B bs"
    using inv_parts [OF Cons.prems(1)] unfolding store_inv_def
    by (simp add: PutBlockWork_def hash_length [OF H] tags_put bodies_put [OF H] index_put marks_put bucket_simps)
  from Cons.IH [OF this, of "w + workOf x"] show ?case using Cons.prems keep by (auto simp: algebra_simps)
qed simp

text \<open>The work the node computes is the total work of the block's chain.\<close>

lemma inv_work:
  assumes inv: "store_inv P blk B bs" and H: "hash32 (Hash256 P)" and b: "body_ok P blk (hd bs) b"
    and w: "cumulativeWork P B b = Inr (B', w)"
  shows "store_inv P blk B' bs" "w = chain_work blk (hd bs) b" "\<forall>k. (\<forall>h. k \<noteq> blockWorkKey h) \<longrightarrow> bget B' k = bget B k"
proof -
  obtain base out where walk: "work_walk walk_fuel P B b [] = Inr (base, out)"
    and fold: "foldl (\<lambda>(b, work) x. (PutBlockWork b (Block_GetHash P x) (work + workOf x), work + workOf x)) (B, base) out = (B', w)"
    using w by (auto simp: cumulativeWork_def bind_result_Inr_iff)
  have r: "rises P blk (hd bs) base out" "base + sum_list (map workOf out) = chain_work blk (hd bs) b"
    using work_walk_total [OF inv H walk b] by simp_all
  from put_works [OF H inv r(1) fold] r(2)
  show "store_inv P blk B' bs" "w = chain_work blk (hd bs) b" "\<forall>k. (\<forall>h. k \<noteq> blockWorkKey h) \<longrightarrow> bget B' k = bget B k" by simp_all
qed

text \<open>The walk ends: within the fuel it finds a memo, the origin or a missing parent, and on the canonical chain it succeeds.\<close>

lemma chain_parent:
  assumes inv: "store_inv P blk B bs" and b: "b \<in> set bs" "b \<noteq> hd bs"
  shows "blk (prev_hash b) \<in> set bs" "Block_GetHash P (blk (prev_hash b)) = prev_hash b" "has_parent P blk b"
    "height (hd bs) < height b"
proof -
  show hp: "has_parent P blk b" "height (hd bs) < height b" using chain_body(1) [OF inv b(1)] b(2) by (auto simp: body_ok_def)
  then show "Block_GetHash P (blk (prev_hash b)) = prev_hash b" by (simp add: has_parent_def)
  obtain xs ys where bs: "bs = xs @ b # ys" using b(1) by (meson split_list)
  then have "xs \<noteq> []" using b(2) by auto
  then have "prev_hash b = Block_GetHash P (last xs)" "last xs \<in> set bs"
    using inv_parts(3) [OF inv] bs by (simp_all add: connected_append)
  then show "blk (prev_hash b) \<in> set bs" using chain_body(2) [OF inv, of "last xs"] by simp
qed

lemma work_walk_returns:
  assumes inv: "store_inv P blk B bs"
  shows "cur \<in> set bs \<Longrightarrow> unat (height cur) < n \<Longrightarrow> \<exists>r. work_walk n P B cur pending = Inr r"
proof (induction n arbitrary: cur pending)
  case (Suc n)
  show ?case
  proof (cases "GetBlockWork B (Block_GetHash P cur)")
    case (Inl e)
    show ?thesis
    proof (cases "cur = hd bs")
      case False
      note p = chain_parent [OF inv Suc.prems(1) False]
      have "unat (height (blk (prev_hash cur))) < n"
        using Suc.prems(2) parent_height [OF p(3,4)] by simp
      from Suc.IH [OF p(1) this, of "cur # pending"] show ?thesis
        using Inl chain_body(3) [OF inv p(1)] p(2) GetTags(4) [OF inv] by auto
    qed (use Inl GetTags(4) [OF inv] in simp)
  qed simp
qed simp

lemma cumulativeWork_returns:
  assumes "store_inv P blk B bs" "b \<in> set bs"
  shows "\<exists>B' w. cumulativeWork P B b = Inr (B', w)"
proof -
  have "unat (height b) < walk_fuel" using unat_bound [of "height b"] by (simp add: walk_fuel_def)
  then obtain base out where "work_walk walk_fuel P B b [] = Inr (base, out)"
    using work_walk_returns [OF assms, of walk_fuel "[]"] by auto
  then show ?thesis by (simp add: cumulativeWork_def case_prod_beta)
qed

subsection \<open>Pruning\<close>

lemma side_victims_ok:
  assumes inv: "store_inv P blk B bs" and v: "side_victims B low = Inr victims" and h: "h \<in> set victims"
  shows "length h = 32 \<and> (\<forall>b \<in> set bs. Block_GetHash P b \<noteq> h)"
proof -
  let ?Q = "\<lambda>vs. \<forall>h \<in> set vs. length h = 32 \<and> (\<forall>b \<in> set bs. Block_GetHash P b \<noteq> h)"
  let ?f = "\<lambda>victims (k, v). case UnpackUint64LE v of None \<Rightarrow> Inl Panic
        | Some n \<Rightarrow> let hash = drop (length sideBlockPrefix) k
            in if n \<ge> low then Inr victims
               else if bget B (PackUint64LE n) = Some hash then Inr victims
               else Inr (victims @ [hash])"
  have step: "?Q vs'" if "(k, v) \<in> set (seek_prefix B sideBlockPrefix)" "?Q vs" "?f vs (k, v) = Inr vs'" for vs k v vs'
  proof -
    have "bget B k = Some v" "has_prefix k sideBlockPrefix"
      using that(1) by (simp_all add: seek_prefix_filter [OF inv_parts(1) [OF inv]] bget_Some_iff [OF inv_parts(1) [OF inv]])
    then obtain h where h: "k = sideBlockKey h" "length h = 32" "v = PackUint64LE (height (blk h))"
      using inv_parts(7) [OF inv] unfolding marks_ok_def by blast
    have "drop (length sideBlockPrefix) k = h" by (simp add: h(1) sideBlockKey_def)
    moreover have off: "Block_GetHash P b \<noteq> h" if b: "b \<in> set bs" and n: "bget B (PackUint64LE (height (blk h))) \<noteq> Some h" for b
    proof
      assume e: "Block_GetHash P b = h"
      then have "blk h = b" using chain_body(2) [OF inv b] by simp
      then show False using chain_index [OF inv b] n e by simp
    qed
    ultimately have "vs' = vs \<or> vs' = vs @ [h] \<and> bget B (PackUint64LE (height (blk h))) \<noteq> Some h"
      using that(3) h(3) by (auto simp: Let_def split: if_splits)
    then show ?thesis using that(2) h(2) off by auto
  qed
  have "?Q victims"
  proof (rule foldM_invariant [of ?f])
    show "foldM ?f (seek_prefix B sideBlockPrefix) [] = Inr victims" using v by (simp add: side_victims_def)
    fix x vs vs' assume "x \<in> set (seek_prefix B sideBlockPrefix)" "?Q vs" "?f vs x = Inr vs'"
    then show "?Q vs'" using step [of "fst x" "snd x" vs vs'] by (cases x) auto
  qed simp
  then show ?thesis using h by blast
qed

lemma inv_delete:
  assumes inv: "store_inv P blk B bs" and H: "hash32 (Hash256 P)" and h: "length h = 32" "\<forall>b \<in> set bs. Block_GetHash P b \<noteq> h"
  shows "store_inv P blk (bdel (bdel (bdel B h) (blockWorkKey h)) (sideBlockKey h)) bs"
proof -
  let ?B = "bdel (bdel (bdel B h) (blockWorkKey h)) (sideBlockKey h)"
  have "bodies_ok P blk (bdel B h) bs" using inv_parts(5) [OF inv] h by (auto simp: bodies_ok_def bucket_simps split: if_splits)
  moreover have "marks_ok P ?B blk"
    unfolding marks_ok_def
  proof (intro allI impI)
    fix k v assume k: "bget ?B k = Some v" "has_prefix k sideBlockPrefix"
    then have "bget B k = Some v" "k \<noteq> sideBlockKey h" by (auto simp: bget_bdel split: if_splits)
    then obtain g where g: "k = sideBlockKey g" "length g = 32" "bget B g \<noteq> None" "v = PackUint64LE (height (blk g))"
      using inv_parts(7) [OF inv] k(2) unfolding marks_ok_def by blast
    moreover have "g \<noteq> h" using g(1) \<open>k \<noteq> sideBlockKey h\<close> by blast
    ultimately show "\<exists>g. k = sideBlockKey g \<and> length g = 32 \<and> bget ?B g \<noteq> None \<and> v = PackUint64LE (height (blk g))"
      using h(1) by (auto simp: bget_bdel dest: arg_cong [of _ _ length])
  qed
  ultimately show ?thesis
    using inv_parts [OF inv] h(1) unfolding store_inv_def by (simp add: tags_del bodies_del [OF H] index_del works_del bucket_simps)
qed

lemma inv_prune:
  assumes inv: "store_inv P blk B bs" and H: "hash32 (Hash256 P)" and p: "PruneSideBlocks B low = Inr (B', n)"
  shows "store_inv P blk B' bs"
proof -
  obtain victims where v: "side_victims B low = Inr victims"
    and B': "B' = foldl (\<lambda>b hash. bdel (bdel (bdel b hash) (blockWorkKey hash)) (sideBlockKey hash)) B victims"
    using p by (auto simp: PruneSideBlocks_def bind_result_Inr_iff)
  have "\<forall>h \<in> set hs. length h = 32 \<and> (\<forall>b \<in> set bs. Block_GetHash P b \<noteq> h) \<Longrightarrow> store_inv P blk B bs \<Longrightarrow>
     store_inv P blk (foldl (\<lambda>b hash. bdel (bdel (bdel b hash) (blockWorkKey hash)) (sideBlockKey hash)) B hs) bs" for hs B
    by (induction hs arbitrary: B) (simp_all add: inv_delete [OF _ H])
  then show ?thesis using side_victims_ok [OF inv v] inv unfolding B' by blast
qed

subsection \<open>Switching to a branch\<close>

lemma heights_set: "x \<in> set (heights a b) \<longleftrightarrow> a \<le> x \<and> x \<le> b"
proof -
  have "x \<in> set (heights a b) \<longleftrightarrow> (\<exists>n. unat a \<le> n \<and> n \<le> unat b \<and> x = of_nat n)" by (auto simp: heights_def)
  also have "\<dots> \<longleftrightarrow> unat a \<le> unat x \<and> unat x \<le> unat b"
  proof safe
    fix n assume n: "unat a \<le> n" "n \<le> unat b"
    then have "unat (of_nat n :: u64) = n" using unat_bound [of b] by (simp add: unat_of_nat)
    then show "unat a \<le> unat (of_nat n :: u64)" "unat (of_nat n :: u64) \<le> unat b" using n by simp_all
  qed (rule exI [of _ "unat x"], simp)
  finally show ?thesis by (simp add: word_le_nat_alt)
qed

text \<open>The replaced blocks are all found and marked as side blocks.\<close>

lemma inv_unlink:
  assumes H: "hash32 (Hash256 P)"
  shows "store_inv P blk B bs \<Longrightarrow> \<forall>h \<in> set hs. height (hd bs) \<le> h \<and> h \<le> height (last bs) \<Longrightarrow>
    \<exists>B' T'. foldM (unlink_old P) hs (B, T) = Inr (B', T') \<and> store_inv P blk B' bs"
proof (induction hs arbitrary: B T)
  case (Cons h hs)
  obtain c where c: "c \<in> set bs" "height c = h" using chain_list(3) [OF Cons.prems(1,1,1), of h] Cons.prems(2) by auto
  let ?B = "bput B (sideBlockKey (Block_GetHash P c)) (PackUint64LE (height c))"
  have "GetBlockByHeight P B h = Inr c" using GetBlockByHeight_chain(1) [OF Cons.prems(1)] c by blast
  then have u: "unlink_old P (B, T) h = Inr (?B, delTxs P T (bkTxs c))" by (simp add: unlink_old_def)
  have "bget B (Block_GetHash P c) \<noteq> None" using inv_parts(5) [OF Cons.prems(1)] c(1) by (simp add: bodies_ok_def)
  then have "marks_ok P ?B blk" by (rule marks_put_mark [OF inv_parts(7) [OF Cons.prems(1)] H _ chain_body(2) [OF Cons.prems(1) c(1)]])
  then have "store_inv P blk ?B bs"
    using inv_parts [OF Cons.prems(1)] unfolding store_inv_def
    by (simp add: hash_length [OF H] tags_put bodies_put [OF H] index_put works_put_side bucket_simps)
  from Cons.IH [OF this, of "delTxs P T (bkTxs c)"] show ?case using Cons.prems(2) u by simp
qed simp

lemma bodies_mono: "bodies_ok P blk B bs \<Longrightarrow> set cs \<subseteq> set bs \<Longrightarrow> hd cs = hd bs \<Longrightarrow> bodies_ok P blk B cs"
  by (auto simp: bodies_ok_def)

lemma connect_parts:
  assumes H: "hash32 (Hash256 P)"
  shows "bucket_ok B \<Longrightarrow> bodies_ok P blk B bs \<Longrightarrow> marks_ok P B blk \<Longrightarrow> works_ok B blk (hd bs) \<Longrightarrow> bs \<noteq> [] \<Longrightarrow>
    \<forall>b \<in> set branch. body_ok P blk (hd bs) b \<Longrightarrow> \<forall>b \<in> set branch. \<forall>c \<in> set branch. height b = height c \<longrightarrow> b = c \<Longrightarrow>
    foldl (connect_block P) (B, T) branch = (B', T') \<Longrightarrow>
    bucket_ok B' \<and> bodies_ok P blk B' (bs @ branch) \<and> marks_ok P B' blk \<and> works_ok B' blk (hd bs) \<and>
    tags_ok P B' ds = tags_ok P B ds \<and> (\<forall>b \<in> set branch. bget B' (PackUint64LE (height b)) = Some (Block_GetHash P b)) \<and>
    (\<forall>h. (\<forall>b \<in> set branch. height b \<noteq> h) \<longrightarrow> bget B' (PackUint64LE h) = bget B (PackUint64LE h))"
proof (induction branch arbitrary: B T bs)
  case (Cons x xs)
  let ?B = "bdel (putBlock P B (Block_GetHash P x) x) (sideBlockKey (Block_GetHash P x))"
  have x: "body_ok P blk (hd bs) x" using Cons.prems(6) by simp
  have cs: "set (bs @ [x]) \<subseteq> insert x (set bs)" "hd (bs @ [x]) = hd bs" using Cons.prems(5) by auto
  note put = putBlock_parts [OF H Cons.prems(1-4) x cs]
  have B: "bucket_ok ?B" "bodies_ok P blk ?B (bs @ [x])" "marks_ok P ?B blk" "works_ok ?B blk (hd (bs @ [x]))"
    "tags_ok P ?B ds = tags_ok P B ds"
    "bget ?B (PackUint64LE h) = (if h = height x then Some (Block_GetHash P x) else bget B (PackUint64LE h))" for h
    using put by (simp_all add: bucket_ok_bdel bodies_del [OF H] marks_del works_del tags_del hash_length [OF H] get_del_length)
  have step: "foldl (connect_block P) (?B, putTxs P T x) xs = (B', T')" using Cons.prems(8) by (simp add: connect_block_def [of P "(B, T)" x])
  have ih: "bucket_ok B' \<and> bodies_ok P blk B' ((bs @ [x]) @ xs) \<and> marks_ok P B' blk \<and> works_ok B' blk (hd (bs @ [x])) \<and>
    tags_ok P B' ds = tags_ok P ?B ds \<and> (\<forall>b \<in> set xs. bget B' (PackUint64LE (height b)) = Some (Block_GetHash P b)) \<and>
    (\<forall>h. (\<forall>b \<in> set xs. height b \<noteq> h) \<longrightarrow> bget B' (PackUint64LE h) = bget ?B (PackUint64LE h))"
    using Cons.IH [OF B(1-4) _ _ _ step] Cons.prems(6,7) cs(2) by simp
  have "bget B' (PackUint64LE (height x)) = Some (Block_GetHash P x)"
  proof (cases "\<exists>b \<in> set xs. height b = height x")
    case True
    then obtain b where b: "b \<in> set xs" "height b = height x" by blast
    then have "b = x" using Cons.prems(7) by auto
    then show ?thesis using ih b(1) by auto
  next
    case False then show ?thesis using ih B(6) [of "height x"] by simp
  qed
  then show ?case using ih B(5,6) cs(2) by auto
qed simp

lemma branch_bodies:
  assumes conn: "branch_connected P (pre @ branch)" and pre: "pre \<noteq> []" "\<forall>b \<in> set pre. admissible P blk b"
    and adm: "\<forall>b \<in> set branch. admissible P blk b" and b: "b \<in> set branch"
  shows "body_ok P blk (hd pre) b"
proof -
  have low: "\<forall>b \<in> set (pre @ branch). height b < 2 ^ 37" using pre(2) adm by (auto simp: admissible_def)
  obtain us vs where br: "branch = us @ b # vs" using b by (meson split_list)
  have conn': "branch_connected P ((pre @ us) @ b # vs)" using conn br by simp
  have p: "height b = height (last (pre @ us)) + 1" "prev_hash b = Block_GetHash P (last (pre @ us))"
    using conn' pre(1) unfolding connected_append by simp_all
  have "last (pre @ us) \<in> set (pre @ us)" using pre(1) by (intro last_in_set) simp
  then have "admissible P blk (last (pre @ us))" using pre(2) adm br by auto
  then have "blk (prev_hash b) = last (pre @ us)" using p(2) by (simp add: admissible_def)
  then have hp: "has_parent P blk b" using p by (simp add: has_parent_def)
  have "unat (height b) = unat (height (hd (pre @ branch))) + length (pre @ us)"
    using connected_heights [OF conn low, of "length (pre @ us)"] br by (simp add: nth_append)
  then have "height (hd pre) < height b" using pre(1) by (simp add: word_less_nat_alt)
  then show ?thesis using hp adm b by (simp add: body_ok_def)
qed

lemma delete_heights:
  assumes H: "hash32 (Hash256 P)"
  shows "bucket_ok B \<Longrightarrow> bucket_ok (foldl (\<lambda>b h. bdel b (PackUint64LE h)) B hs)"
    and "bodies_ok P blk (foldl (\<lambda>b h. bdel b (PackUint64LE h)) B hs) bs = bodies_ok P blk B bs"
    and "marks_ok P B blk \<Longrightarrow> marks_ok P (foldl (\<lambda>b h. bdel b (PackUint64LE h)) B hs) blk"
    and "works_ok B blk o' \<Longrightarrow> works_ok (foldl (\<lambda>b h. bdel b (PackUint64LE h)) B hs) blk o'"
    and "tags_ok P (foldl (\<lambda>b h. bdel b (PackUint64LE h)) B hs) bs = tags_ok P B bs"
    and "bget (foldl (\<lambda>b h. bdel b (PackUint64LE h)) B hs) (PackUint64LE g) = (if g \<in> set hs then None else bget B (PackUint64LE g))"
  by (induction hs arbitrary: B) (simp_all add: bucket_ok_bdel bodies_del [OF H] marks_del works_del tags_del bget_bdel)

text \<open>A switch replaces what lies above the fork point by the branch.\<close>

lemma inv_switch:
  assumes inv: "store_inv P blk B bs" and H: "hash32 (Hash256 P)" and adm: "\<forall>b \<in> set branch. admissible P blk b"
    and sw: "Blocks.SwitchToBranch P B T branch = Inr (B', T')"
  shows "\<exists>pre post. bs = pre @ post \<and> pre \<noteq> [] \<and> prev_hash (hd branch) = Block_GetHash P (last pre) \<and>
    height (hd branch) = height (last pre) + 1 \<and> store_inv P blk B' (pre @ branch)"
proof -
  obtain first rest where br: "branch = first # rest" using sw by (cases branch) (simp_all add: Blocks.SwitchToBranch_def)
  let ?old = "height (last bs)" and ?new = "height (last branch)"
  have conn: "branch_connected P branch" and anc: "bget B (PackUint64LE (height first - 1)) = Some (prev_hash first)"
    using sw by (auto simp: br Blocks.SwitchToBranch_def split: if_splits)
  obtain a where a: "a \<in> set bs" "height a = height first - 1" "Block_GetHash P a = prev_hash first"
    using anc inv_parts(6) [OF inv] unfolding index_ok_def by blast
  obtain us post where bs: "bs = us @ a # post" using a(1) by (meson split_list)
  define pre where "pre = us @ [a]"
  have pre: "pre \<noteq> []" "hd pre = hd bs" "last pre = a" "bs = pre @ post" "set pre \<subseteq> set bs"
    using bs by (auto simp: pre_def hd_append)
  have fh: "height first = height a + 1" using a(2) by simp
  let ?cs = "pre @ branch"
  have connc: "branch_connected P ?cs"
    using inv_parts(3) [OF inv] conn fh a(3) pre unfolding pre(4) connected_append by (simp add: br)
  have admp: "\<forall>b \<in> set pre. admissible P blk b" using chain_body(1) [OF inv] pre(5) by (auto simp: body_ok_def)
  have lowc: "\<forall>b \<in> set ?cs. height b < 2 ^ 37" using admp adm by (auto simp: admissible_def)
  have nec: "?cs \<noteq> []" using pre(1) by simp
  note cl = connected_list [OF connc lowc nec]
  have bodies: "\<forall>b \<in> set branch. body_ok P blk (hd bs) b" using branch_bodies [OF connc pre(1) admp adm] pre(2) by simp
  have "\<forall>h \<in> set (heights (height first) ?old). height (hd bs) \<le> h \<and> h \<le> ?old"
    using cl(1) [of first] pre(2) by (auto simp: heights_set br hd_append pre(1))
  then obtain B1 T1 where B1: "foldM (unlink_old P) (heights (height first) ?old) (B, T) = Inr (B1, T1)" "store_inv P blk B1 bs"
    using inv_unlink [OF H inv] by blast
  obtain B2 T2 where B2: "foldl (connect_block P) (B1, T1) branch = (B2, T2)" by fastforce
  define B3 where "B3 = foldl (\<lambda>b h. bdel b (PackUint64LE h)) B2 (heights (?new + 1) ?old)"
  have B': "B' = putLatestTags B3 (height (last ?cs)) (Block_GetHash P (last ?cs))"
    using sw GetTags(1) [OF inv] B1(1) B2 unfolding B3_def
    by (simp add: br Blocks.SwitchToBranch_def Let_def split: if_splits)
  have uniq: "\<forall>b \<in> set branch. \<forall>c \<in> set branch. height b = height c \<longrightarrow> b = c" using cl(2) by auto
  note B2p = connect_parts [OF H inv_parts(1,5,7,8,2) [OF B1(2)] bodies uniq B2, of bs]
  have newc: "height (last ?cs) = ?new" by (simp add: br)
  have idx: "index_ok P B3 ?cs"
  proof -
    have at: "bget B3 (PackUint64LE h) = (if ?new + 1 \<le> h \<and> h \<le> ?old then None else bget B2 (PackUint64LE h))" for h
      using delete_heights(6) [OF H] by (simp add: B3_def heights_set)
    have "?new < 2 ^ 37" using lowc by (simp add: br)
    then have up: "\<not> ?new + 1 \<le> h \<longleftrightarrow> h \<le> ?new" for h by (auto simp: word_le_nat_alt word_less_nat_alt unat_word_ariths)
    have below: "\<not> ?new + 1 \<le> height b" if "b \<in> set ?cs" for b using cl(1) [OF that] newc unfolding up by simp
    have hit: "bget B3 (PackUint64LE (height b)) = Some (Block_GetHash P b)" if b: "b \<in> set ?cs" for b
    proof (cases "b \<in> set branch")
      case True then show ?thesis using at [of "height b"] below [OF b] B2p by simp
    next
      case False
      then have bs': "b \<in> set bs" "\<forall>c \<in> set branch. height c \<noteq> height b" using b pre(5) cl(2) by auto
      then show ?thesis using at [of "height b"] below [OF b] B2p chain_index [OF B1(2) bs'(1)] by simp
    qed
    have miss: "\<exists>b \<in> set ?cs. height b = h" if v: "bget B3 (PackUint64LE h) = Some v" for h v
    proof (cases "\<exists>b \<in> set branch. height b = h")
      case False
      then have "bget B1 (PackUint64LE h) = Some v" "\<not> (?new + 1 \<le> h \<and> h \<le> ?old)" using v at [of h] B2p by (auto split: if_splits)
      then obtain c where c: "c \<in> set bs" "height c = h" using inv_parts(6) [OF B1(2)] unfolding index_ok_def by blast
      have "height (hd bs) \<le> h" "h \<le> ?old" using chain_list(1) [OF inv inv inv c(1)] c(2) by auto
      then show ?thesis using \<open>\<not> (?new + 1 \<le> h \<and> h \<le> ?old)\<close> up [of h] cl(3) [of h] pre(1,2) newc by simp
    qed auto
    show ?thesis unfolding index_ok_def using hit miss by (metis option.inject)
  qed
  have "tags_ok P B3 bs" using B2p inv_parts(4) [OF B1(2)] delete_heights(5) [OF H] by (simp add: B3_def)
  then have tags: "tags_ok P B' ?cs" unfolding B' by (rule tags_latest) (simp add: pre(1,2))
  have hdc: "hd ?cs = hd (bs @ branch)" using pre(1,2) inv_parts(2) [OF inv] by simp
  have sub: "set ?cs \<subseteq> set (bs @ branch)" unfolding set_append by (rule Un_mono [OF pre(5) order_refl])
  have "bodies_ok P blk B2 (bs @ branch)" using B2p by blast
  then have bod: "bodies_ok P blk B3 ?cs" unfolding B3_def delete_heights(2) [OF H] by (rule bodies_mono [OF _ sub hdc])
  have "bucket_ok B3" "marks_ok P B3 blk" "works_ok B3 blk (hd ?cs)"
    using B2p pre(1,2) unfolding B3_def by (simp_all add: delete_heights(1,3,4) [OF H])
  then have "store_inv P blk B' ?cs"
    using bod idx tags connc nec unfolding store_inv_def B' by (simp add: latest_parts [OF H])
  then show ?thesis using pre a(3) fh by (intro exI [of _ pre] exI [of _ post]) (simp add: br)
qed

end
