(* ===== verification/Frames.thy ===== *)
theory Frames
  imports Transition
begin

text \<open>
  What the handlers leave alone, without any hypothesis on the state: a contract run, a transfer and a
  deployment touch neither the commit store nor the buckets of the chain, so the commit store of a block
  application changes only where the block records, reveals and prunes.
\<close>

section \<open>Definitions\<close>

definition chain_frame :: "DB \<Rightarrow> DB \<Rightarrow> bool" where
  "chain_frame db db' \<longleftrightarrow> dbBlocks db' = dbBlocks db \<and> dbTxs db' = dbTxs db \<and> dbSnapshot db' = dbSnapshot db"

definition store_frame :: "DB \<Rightarrow> DB \<Rightarrow> bool" where
  "store_frame db db' \<longleftrightarrow> chain_frame db db' \<and> dbCommit db' = dbCommit db \<and> dbSpent db' = dbSpent db"

section \<open>The choke points\<close>

lemma frame_refl [simp]: "store_frame db db" "chain_frame db db"
  by (simp_all add: store_frame_def chain_frame_def)

lemma store_frame_trans: "store_frame a b \<Longrightarrow> store_frame b c \<Longrightarrow> store_frame a c"
  by (simp add: store_frame_def chain_frame_def)

lemma chain_frame_trans: "chain_frame a b \<Longrightarrow> chain_frame b c \<Longrightarrow> chain_frame a c"
  by (simp add: chain_frame_def)

lemma store_chain_frame: "store_frame a b \<Longrightarrow> chain_frame a b"
  by (simp add: store_frame_def)

lemma frame_ops [simp]:
  "store_frame db (setBalance P r db a x)" "store_frame db (delContract P r db a)"
  "store_frame db (registerPubKey P r db tx)" "store_frame db (db\<lparr>dbReceipt := b\<rparr>)" "store_frame db (setBeacon P r db s)"
  by (simp_all add: store_frame_def chain_frame_def)

lemma frame_setContract: "setContract P r db ct = Inr db' \<Longrightarrow> store_frame db db'"
  by (frule setContract_effect) (simp add: store_frame_def chain_frame_def setContract_effect)

lemma frame_recordRun [simp]: "store_frame db (recordRun P db tx run)"
  using recordRun_receipt [of P db tx run] by auto

lemma frame_foldM:
  assumes "foldM f xs db = Inr db'" "\<And>x db db'. f db x = Inr db' \<Longrightarrow> store_frame db db'"
  shows "store_frame db db'"
  by (rule foldM_invariant [OF assms(1), of "store_frame db"]) (auto intro: store_frame_trans assms(2))

lemma frame_flush: "flush P r db j = Inr db' \<Longrightarrow> store_frame db db'"
  by (auto simp: flush_def result_simps elim!: frame_foldM [THEN store_frame_trans] frame_foldM intro: frame_setContract)

section \<open>The handlers\<close>

lemma frame_Run: "Run n P db entry vm = (vm', Inr db') \<Longrightarrow> store_frame db db'"
  by (auto simp: Run_def split: prod.splits sum.splits intro: frame_flush)

lemma frame_runContract:
  assumes "runContract P cs db addr tx entry bt gas = (db', gas', ok)"
  shows "store_frame db db'"
proof (cases "getContract P db addr")
  case (Inr account)
  show ?thesis
  proof (cases "NewVM vm_nesting P db account tx bt")
    case (Inl e)
    then show ?thesis using assms Inr by (auto simp: runContract_def Let_def split: if_splits)
  next
    case (Inr vm)
    note acc = \<open>getContract P db addr = Inr account\<close>
    obtain vm1 entry1 where e: "EntryFor P entry (vm\<lparr>vmCs := cs\<rparr>) = (vm1, entry1)" by (cases "EntryFor P entry (vm\<lparr>vmCs := cs\<rparr>)")
    define vm2 where "vm2 = (case gas of None \<Rightarrow> vm1 | Some remaining \<Rightarrow> if remaining < vmMaxToll then LimitToll P remaining vm1 else vm1)"
    obtain vm3 r where r: "Run vm_nesting P db entry1 vm2 = (vm3, r)" by (cases "Run vm_nesting P db entry1 vm2")
    show ?thesis
    proof (cases r)
      case Inl
      then show ?thesis using assms acc Inr e r
        by (auto simp: runContract_def Let_def vm2_def [symmetric] split: if_splits)
    next
      case (Inr db1)
      have "\<exists>run. db' = db \<or> db' = recordRun P db tx run \<or> db' = recordRun P db1 tx run"
        using assms acc \<open>NewVM vm_nesting P db account tx bt = Inr vm\<close> e r Inr
        by (auto simp: runContract_def Let_def vm2_def [symmetric] split: if_splits)
      then show ?thesis using store_frame_trans [OF frame_Run frame_recordRun] r Inr by auto
    qed
  qed
qed (use assms in \<open>simp add: runContract_def\<close>)

lemma frame_chargeFrom: "chargeFrom P cs db tx expense = Inr (db', sender) \<Longrightarrow> store_frame db db'"
  by (auto simp: chargeFrom_def Let_def result_simps store_frame_def chain_frame_def split: if_splits)

lemma frame_handleGenerate: "handleGenerate P cs db tx = Inr db' \<Longrightarrow> store_frame db db'"
  by (auto simp: handleGenerate_def result_simps store_frame_def chain_frame_def split: if_splits)

lemma frame_runValidate:
  assumes "runValidate P cs db tx bt gas = Inr (db', gas')"
  shows "store_frame db db'"
proof -
  obtain sender where f: "FullTx_From P tx = Inr sender"
    using assms by (auto simp: runValidate_def result_simps)
  obtain d g ok where r: "runContract P cs db sender tx EntryOnValidate bt gas = (d, g, ok)" by (metis prod_cases3)
  have "db' = db \<or> db' = d"
    using assms f r by (cases "getContract P db sender") (auto simp: runValidate_def split: if_splits)
  then show ?thesis using frame_runContract [OF r] by auto
qed

lemma frame_handleTransaction:
  assumes "handleTransaction P cs db tx bt gas = Inr (db', gas')"
  shows "store_frame db db'"
proof -
  obtain db1 sender where c: "chargeFrom P cs db tx (TotalExpenditure tx) = Inr (db1, sender)"
    using assms by (auto simp: handleTransaction_def result_simps)
  define db2 where "db2 = setBalance P cs db1 (txTo tx) (getBalance db1 (txTo tx) + txValue tx)"
  have 1: "store_frame db db2" unfolding db2_def by (rule store_frame_trans [OF frame_chargeFrom [OF c] frame_ops(1)])
  have "db' = db2 \<or> (\<exists>ok. runContract P cs db2 (txTo tx) tx EntryOnTx bt gas = (db', gas', ok))"
    using assms c by (auto simp: handleTransaction_def db2_def result_simps Let_def split: if_splits prod.splits)
  then show ?thesis using 1 store_frame_trans [OF 1 frame_runContract] by blast
qed

lemma frame_pinDeps: "pinDeps P cs db deps = Inr db' \<Longrightarrow> store_frame db db'"
  unfolding pinDeps_def by (erule frame_foldM) (auto simp: result_simps intro: frame_setContract)

lemma frame_releaseContractDeps: "releaseContractDeps P cs db slot = Inr db' \<Longrightarrow> store_frame db db'"
  unfolding releaseContractDeps_def
  by (auto simp: result_simps Let_def split: if_splits elim!: frame_foldM intro: frame_setContract)

lemma frame_refund [simp]: "store_frame db (refundContractDeposit P cs db a ctx)"
  by (simp add: refundContractDeposit_def Let_def store_frame_def chain_frame_def)

lemma frame_install_code:
  assumes "install_code P cs db tx sender slot src deps bt gas = Inr (db', gas')"
  shows "store_frame db db'"
proof -
  obtain db1 db2 ct where 1: "pinDeps P cs db deps = Inr db1" "setContract P cs db1 ct = Inr db2"
    "(case runContract P cs db2 sender tx EntryOnActivate bt gas of (db, gas, _) \<Rightarrow> (Inr (db, gas) :: error + DB \<times> u64 option)) = Inr (db', gas')"
    using assms by (auto simp: install_code_def result_simps Let_def)
  obtain d g ok where r: "runContract P cs db2 sender tx EntryOnActivate bt gas = (d, g, ok)" by (metis prod_cases3)
  show ?thesis
    using store_frame_trans [OF frame_pinDeps [OF 1(1)] store_frame_trans [OF frame_setContract [OF 1(2)] frame_runContract [OF r]]]
      1(3) r by simp
qed

lemma frame_handle_destroy:
  assumes "handle_destroy P network cs db tx sender slot bt gas = Inr (db', gas')"
  shows "store_frame db db'"
proof -
  obtain db1 gas1 ok where r: "runContract P cs db sender tx EntryOnUpgrade bt gas = (db1, gas1, ok)" by (metis prod_cases3)
  note 1 = frame_runContract [OF r]
  from assms r consider "db' = db1"
    | db2 where "releaseContractDeps P cs db1 slot = Inr db2" "db' = delContract P cs db2 sender \<or>
        db' = delContract P cs (refundContractDeposit P cs db2 sender (ctContext slot)) sender"
    by (auto simp: handle_destroy_def result_simps Let_def split: if_splits)
  then show ?thesis
  proof cases
    case (2 db2)
    note 12 = store_frame_trans [OF 1 frame_releaseContractDeps [OF 2(1)]]
    from 2(2) show ?thesis
      using store_frame_trans [OF 12 frame_ops(2)] store_frame_trans [OF store_frame_trans [OF 12 frame_refund] frame_ops(2)] by auto
  qed (use 1 in simp)
qed

lemma frame_handleDeploy:
  assumes "handleDeploy P network cs db tx bt gas = Inr (db', gas')"
  shows "store_frame db db'"
proof -
  obtain db1 sender where c: "chargeFrom P cs db tx (TotalExpenditure tx) = Inr (db1, sender)"
    using assms by (auto simp: handleDeploy_def result_simps)
  obtain db2 gas2 ok where r: "runContract P cs db1 sender tx EntryOnUpgrade bt gas = (db2, gas2, ok)" by (metis prod_cases3)
  note 1 = frame_chargeFrom [OF c] and 2 = store_frame_trans [OF frame_chargeFrom [OF c] frame_runContract [OF r]]
  from assms c r consider slot where "handle_destroy P network cs db1 tx sender slot bt gas = Inr (db', gas')"
    | slot src deps where "install_code P cs db1 tx sender slot src deps bt gas = Inr (db', gas')"
    | "db' = db2"
    | slot db3 src deps where "releaseContractDeps P cs db2 slot = Inr db3" "install_code P cs db3 tx sender slot src deps bt gas2 = Inr (db', gas')"
    by (auto simp: handleDeploy_def Let_def result_simps split: if_splits option.splits)
  then show ?thesis
  proof cases
    case (4 slot db3)
    show ?thesis by (rule store_frame_trans [OF 2 store_frame_trans [OF frame_releaseContractDeps [OF 4(1)] frame_install_code [OF 4(2)]]])
  qed (use 1 2 store_frame_trans [OF 1 frame_handle_destroy] store_frame_trans [OF 1 frame_install_code] in auto)
qed

text \<open>A transaction changes the commit store by its reveal only.\<close>

lemma frame_handle_tx:
  assumes "handle_tx P network cs bt st tx = Inr st'"
  shows "txType tx = GenerateTx \<and> store_frame (fst st) (fst st') \<or>
    txType tx \<noteq> GenerateTx \<and> (\<exists>db1. consumeReveal P (fst st) tx = Inr db1 \<and> store_frame db1 (fst st'))"
proof -
  obtain db gas where st: "st = (db, gas)" by (cases st)
  obtain db' gas' where st': "st' = (db', gas')" by (cases st')
  from assms consider "txType tx = GenerateTx" "handleGenerate P cs db tx = Inr db'"
    | db1 db2 gas2 where "txType tx \<noteq> GenerateTx" "consumeReveal P db tx = Inr db1" "runValidate P cs db1 tx bt gas = Inr (db2, gas2)"
        "handleTransaction P cs db2 tx bt gas2 = Inr (db', gas') \<or> handleDeploy P network cs db2 tx bt gas2 = Inr (db', gas')"
    by (auto simp: handle_tx_def st st' result_simps split: if_splits)
  then show ?thesis
  proof cases
    case (2 db1 db2 gas2)
    from 2(4) have "store_frame db2 db'" using frame_handleTransaction frame_handleDeploy by blast
    from store_frame_trans [OF frame_runValidate [OF 2(3)] this] 2(1,2) show ?thesis by (simp add: st st')
  qed (simp add: st st' frame_handleGenerate)
qed

end
