(* ===== verification/Restore.thy ===== *)
theory Restore
  imports Unwind Ledger Frames
begin

text \<open>
  Unwinding an applied block restores the state.  The changeset of a domain is treated once, for a pair of
  buckets (state and changeset): \<open>cs_inv\<close> says that the changeset holds, for every address written since
  the start of the block, the value of that moment, and that every other address is unchanged.  Every
  write choke point keeps it, and reverting a height turns it back into the old pair.
\<close>

section \<open>Keys of the changeset\<close>

lemma splitPreimage_tagged [simp]: "splitPreimage (taggedPreimage v) = v"
  by (cases v) (simp_all add: splitPreimage_def taggedPreimage_def copy_at_def zeros_def)

lemma csKeyOf_append: "length a = AddressSize \<Longrightarrow> csKeyOf h a = PackUint64LE h @ a"
  by (simp add: csKeyOf_def copy_at_def AddressSize_def)

lemma csKeyOf_inject: "length a = AddressSize \<Longrightarrow> length b = AddressSize \<Longrightarrow> csKeyOf h a = csKeyOf g b \<longleftrightarrow> h = g \<and> a = b"
  by (simp add: csKeyOf_append)

definition at_height :: "u64 \<Rightarrow> bytes \<Rightarrow> bool" where
  "at_height h k \<longleftrightarrow> (\<exists>a. length a = AddressSize \<and> k = csKeyOf h a)"

lemma at_height_iff: "at_height h k \<longleftrightarrow> length k = 8 + AddressSize \<and> has_prefix k (PackUint64LE h)"
proof
  assume "length k = 8 + AddressSize \<and> has_prefix k (PackUint64LE h)"
  then have "length (drop 8 k) = AddressSize" "k = PackUint64LE h @ drop 8 k"
    by (simp_all add: has_prefix_def) (metis append_take_drop_id)
  then show "at_height h k" unfolding at_height_def by (intro exI [of _ "drop 8 k"]) (simp add: csKeyOf_append)
qed (auto simp: at_height_def csKeyOf_append has_prefix_def)

section \<open>The changeset of one domain\<close>

definition cs_inv :: "u64 \<Rightarrow> bucket \<Rightarrow> bucket \<Rightarrow> bucket \<Rightarrow> bucket \<Rightarrow> bool" where
  "cs_inv h S0 C0 S C \<longleftrightarrow> bucket_ok S \<and> bucket_ok C \<and>
     (\<forall>a. length a = AddressSize \<longrightarrow> (case bget C (csKeyOf h a) of
        None \<Rightarrow> bget S a = bget S0 a | Some t \<Rightarrow> t = taggedPreimage (bget S0 a))) \<and>
     (\<forall>a. length a \<noteq> AddressSize \<longrightarrow> bget S a = bget S0 a) \<and>
     (\<forall>k. \<not> at_height h k \<longrightarrow> bget C k = bget C0 k)"

text \<open>No row of the height is in a changeset.\<close>

definition fresh :: "u64 \<Rightarrow> bucket \<Rightarrow> bool" where
  "fresh h C \<longleftrightarrow> (\<forall>k. at_height h k \<longrightarrow> bget C k = None)"

definition rec_cs :: "u64 \<Rightarrow> bucket \<Rightarrow> bucket \<Rightarrow> Address \<Rightarrow> bucket" where
  "rec_cs h S C a = (if bget C (csKeyOf h a) \<noteq> None then C else bput C (csKeyOf h a) (taggedPreimage (bget S a)))"

lemma cs_inv_at:
  "cs_inv h S0 C0 S C \<Longrightarrow> length a = AddressSize \<Longrightarrow>
   bget C (csKeyOf h a) = None \<and> bget S a = bget S0 a \<or> bget C (csKeyOf h a) = Some (taggedPreimage (bget S0 a))"
  unfolding cs_inv_def by (elim conjE allE [of _ a]) (simp split: option.splits)

lemma cs_inv_start: "bucket_ok S \<Longrightarrow> bucket_ok C \<Longrightarrow> fresh h C \<Longrightarrow> cs_inv h S C S C"
  by (auto simp: cs_inv_def fresh_def at_height_def)

lemma cs_inv_write:
  assumes "cs_inv h S0 C0 S C" "length a = AddressSize" "bucket_ok S'" "\<And>x. x \<noteq> a \<Longrightarrow> bget S' x = bget S x"
  shows "cs_inv h S0 C0 S' (rec_cs h S C a)"
proof -
  have at: "at_height h (csKeyOf h a)" using assms(2) by (auto simp: at_height_def)
  have "case bget (rec_cs h S C a) (csKeyOf h b) of None \<Rightarrow> bget S' b = bget S0 b | Some t \<Rightarrow> t = taggedPreimage (bget S0 b)"
    if b: "length b = AddressSize" for b
  proof (cases "b = a")
    case True
    with cs_inv_at [OF assms(1,2)] show ?thesis by (auto simp: rec_cs_def bucket_simps)
  next
    case False
    then have "bget (rec_cs h S C a) (csKeyOf h b) = bget C (csKeyOf h b)"
      using csKeyOf_inject [OF b assms(2), of h h] by (simp add: rec_cs_def bucket_simps)
    moreover have "bget S' b = bget S b" by (rule assms(4) [OF False])
    ultimately show ?thesis using cs_inv_at [OF assms(1) b] by auto
  qed
  moreover have "bget S' b = bget S0 b" if "length b \<noteq> AddressSize" for b
  proof -
    have "b \<noteq> a" using that assms(2) by auto
    then show ?thesis using assms(1) that assms(4) [of b] by (simp add: cs_inv_def)
  qed
  moreover have "bget (rec_cs h S C a) k = bget C0 k" if "\<not> at_height h k" for k
    using assms(1) that at by (auto simp: cs_inv_def rec_cs_def bucket_simps)
  ultimately show ?thesis using assms(1,3) by (simp add: cs_inv_def rec_cs_def bucket_simps)
qed

section \<open>Reverting one domain\<close>

definition undo :: "bucket \<Rightarrow> Address \<times> bytes \<Rightarrow> bucket" where
  "undo S e = (case splitPreimage (snd e) of Some v \<Rightarrow> bput S (fst e) v | None \<Rightarrow> bdel S (fst e))"

lemma undo_get: "bget (undo S e) x = (if x = fst e then splitPreimage (snd e) else bget S x)"
  by (simp add: undo_def bucket_simps split: option.splits)

lemma undo_ok: "bucket_ok S \<Longrightarrow> bucket_ok (undo S e)"
  by (simp add: undo_def bucket_simps split: option.splits)

lemma foldl_undo:
  assumes "distinct (map fst es)"
  shows "bget (foldl undo S es) x = (case map_of es x of None \<Rightarrow> bget S x | Some t \<Rightarrow> splitPreimage t)"
  using assms
proof (induction es arbitrary: S)
  case (Cons e es)
  then have "map_of es (fst e) = None" by (auto simp: map_of_eq_None_iff)
  with Cons show ?case by (cases e) (simp add: undo_get split: option.splits)
qed simp

lemma foldl_undo_ok: "bucket_ok S \<Longrightarrow> bucket_ok (foldl undo S es)"
  by (induction es arbitrary: S) (simp_all add: undo_ok)

lemma revert_entries_eq:
  assumes "bucket_ok C"
  shows "revert_entries C h = map (\<lambda>(k, v). (drop 8 k, v)) (filter (\<lambda>(k, _). at_height h k) C)"
proof -
  have "filter (\<lambda>(k, _). length k = 8 + AddressSize) (filter (\<lambda>kv. has_prefix (fst kv) (PackUint64LE h)) C)
      = filter (\<lambda>(k, _). at_height h k) C"
    by (simp add: at_height_iff case_prod_beta' conj_commute)
  then show ?thesis unfolding revert_entries_def seek_prefix_filter [OF assms]
    by (auto simp: at_height_iff copy_at_all)
qed

lemma revert_entries_length:
  "bucket_ok C \<Longrightarrow> e \<in> set (revert_entries C h) \<Longrightarrow> length (fst e) = AddressSize"
  by (auto simp: revert_entries_eq at_height_iff)

lemma revert_entries_map:
  assumes "bucket_ok C"
  shows "distinct (map fst (revert_entries C h))"
    "map_of (revert_entries C h) a = (if length a = AddressSize then bget C (csKeyOf h a) else None)"
proof -
  let ?D = "filter (\<lambda>(k, _). at_height h k) C"
  have d: "distinct (map fst ?D)" using bucket_ok_distinct [OF bucket_ok_filter [OF assms]] .
  have inj: "inj_on (drop 8) (fst ` set ?D)"
    by (rule inj_onI) (auto simp: at_height_def csKeyOf_append)
  have fst: "map fst (revert_entries C h) = map (drop 8) (map fst ?D)"
    by (simp add: revert_entries_eq [OF assms] case_prod_beta')
  show dist: "distinct (map fst (revert_entries C h))"
    unfolding fst using d inj by (subst distinct_map) (simp only: set_map simp_thms)
  show "map_of (revert_entries C h) a = (if length a = AddressSize then bget C (csKeyOf h a) else None)"
  proof (cases "length a = AddressSize")
    case True
    have "(a, t) \<in> set (revert_entries C h) \<longleftrightarrow> bget C (csKeyOf h a) = Some t" for t
      using True by (force simp: revert_entries_eq [OF assms] bget_Some_iff [OF assms] at_height_def csKeyOf_append)
    then show ?thesis using True map_of_eq_Some_iff [OF dist] by (metis option.exhaust)
  next
    case False
    then have "a \<notin> fst ` set (revert_entries C h)"
      by (auto simp: revert_entries_eq [OF assms] at_height_iff)
    with False show ?thesis by (simp add: map_of_eq_None_iff)
  qed
qed

lemma revert_state:
  assumes "cs_inv h S0 C0 S C" "bucket_ok S0"
  shows "foldl undo S (revert_entries C h) = S0"
proof (rule bget_ext)
  have ok: "bucket_ok S" "bucket_ok C" using assms(1) by (simp_all add: cs_inv_def)
  show "bucket_ok (foldl undo S (revert_entries C h))" by (rule foldl_undo_ok [OF ok(1)])
  show "bucket_ok S0" by (rule assms(2))
  fix x
  have "bget S x = bget S0 x" if "length x \<noteq> AddressSize" using assms(1) that by (simp add: cs_inv_def)
  then show "bget (foldl undo S (revert_entries C h)) x = bget S0 x"
    using foldl_undo [OF revert_entries_map(1) [OF ok(2)], of S h x] revert_entries_map(2) [OF ok(2), of h x]
      cs_inv_at [OF assms(1), of x]
    by (cases "length x = AddressSize") auto
qed

lemma revert_rows:
  assumes "cs_inv h S0 C0 S C" "bucket_ok C0" "fresh h C0"
  shows "foldl (\<lambda>C e. bdel C (csKeyOf h (fst e))) C (revert_entries C h) = C0"
proof (rule bget_ext)
  have ok: "bucket_ok C" using assms(1) by (simp add: cs_inv_def)
  let ?ks = "map (\<lambda>e. csKeyOf h (fst e)) (revert_entries C h)"
  have fold: "foldl (\<lambda>C e. bdel C (csKeyOf h (fst e))) C (revert_entries C h) = foldl bdel C ?ks"
    by (simp add: foldl_map)
  show "bucket_ok (foldl (\<lambda>C e. bdel C (csKeyOf h (fst e))) C (revert_entries C h))"
    unfolding fold by (rule foldl_bdel(2) [OF ok])
  show "bucket_ok C0" by (rule assms(2))
  fix k
  show "bget (foldl (\<lambda>C e. bdel C (csKeyOf h (fst e))) C (revert_entries C h)) k = bget C0 k"
  proof (cases "at_height h k")
    case False
    then have "k \<notin> set ?ks" by (auto simp: revert_entries_eq [OF ok] at_height_def csKeyOf_append)
    with False assms(1) show ?thesis unfolding fold by (simp add: foldl_bdel cs_inv_def)
  next
    case True
    then obtain a where a: "length a = AddressSize" "k = csKeyOf h a" by (auto simp: at_height_def)
    have "k \<in> set ?ks" if "bget C k = Some t" for t
    proof -
      have "(a, t) \<in> set (revert_entries C h)"
        using that a map_of_SomeD revert_entries_map(2) [OF ok, of h a] by (metis (no_types))
      then show ?thesis using a(2) by force
    qed
    then have "bget (foldl bdel C ?ks) k = None" by (cases "bget C k") (auto simp: foldl_bdel)
    with True assms(3) show ?thesis unfolding fold by (simp add: fresh_def)
  qed
qed

section \<open>The history index of one domain\<close>

definition hist_at :: "u64 \<Rightarrow> bytes \<Rightarrow> bool" where
  "hist_at h k \<longleftrightarrow> (\<exists>a. length a = AddressSize \<and> k = histKey a h)"

definition hist_inv :: "u64 \<Rightarrow> bucket \<Rightarrow> bucket \<Rightarrow> bucket \<Rightarrow> bool" where
  "hist_inv h H0 H C \<longleftrightarrow> bucket_ok H \<and>
     (\<forall>a. length a = AddressSize \<longrightarrow> bget H (histKey a h) = (if bget C (csKeyOf h a) = None then None else Some [])) \<and>
     (\<forall>k. \<not> hist_at h k \<longrightarrow> bget H k = bget H0 k)"

definition hist_fresh :: "u64 \<Rightarrow> bucket \<Rightarrow> bool" where
  "hist_fresh h H \<longleftrightarrow> (\<forall>k. hist_at h k \<longrightarrow> bget H k = None)"

lemma histKey_append: "length a = AddressSize \<Longrightarrow> histKey a h = a @ PutUint64BE h"
  by (simp add: histKey_def copy_at_def AddressSize_def PutUint64BE_def)

lemma hist_inv_start: "bucket_ok H \<Longrightarrow> hist_fresh h H \<Longrightarrow> fresh h C \<Longrightarrow> hist_inv h H H C"
  by (auto simp: hist_inv_def hist_fresh_def hist_at_def fresh_def at_height_def)

lemma hist_inv_record:
  assumes "hist_inv h H0 H C" "length a = AddressSize" "bget C (csKeyOf h a) = None"
  shows "hist_inv h H0 (bput H (histKey a h) []) (bput C (csKeyOf h a) t)"
proof -
  have "hist_at h (histKey a h)" using assms(2) by (auto simp: hist_at_def)
  moreover have "bget (bput H (histKey a h) []) (histKey b h)
      = (if bget (bput C (csKeyOf h a) t) (csKeyOf h b) = None then None else Some [])"
    if "length b = AddressSize" for b
    using assms that by (auto simp: hist_inv_def bucket_simps csKeyOf_inject histKey_append)
  ultimately show ?thesis using assms(1) by (auto simp: hist_inv_def bucket_simps)
qed

lemma revert_hist:
  assumes "hist_inv h H0 H C" "bucket_ok H0" "hist_fresh h H0" "bucket_ok C"
  shows "foldl (\<lambda>H e. bdel H (histKey (fst e) h)) H (revert_entries C h) = H0"
proof (rule bget_ext)
  let ?ks = "map (\<lambda>e. histKey (fst e) h) (revert_entries C h)"
  have fold: "foldl (\<lambda>H e. bdel H (histKey (fst e) h)) H (revert_entries C h) = foldl bdel H ?ks"
    by (simp add: foldl_map)
  show "bucket_ok (foldl (\<lambda>H e. bdel H (histKey (fst e) h)) H (revert_entries C h))"
    unfolding fold using assms(1) by (intro foldl_bdel(2)) (simp add: hist_inv_def)
  show "bucket_ok H0" by (rule assms(2))
  fix k
  show "bget (foldl (\<lambda>H e. bdel H (histKey (fst e) h)) H (revert_entries C h)) k = bget H0 k"
  proof (cases "hist_at h k")
    case False
    then have "k \<notin> set ?ks" using revert_entries_length [OF assms(4)] unfolding hist_at_def by force
    with False assms(1) show ?thesis unfolding fold by (simp add: foldl_bdel hist_inv_def)
  next
    case True
    then obtain a where a: "length a = AddressSize" "k = histKey a h" by (auto simp: hist_at_def)
    have "k \<in> set ?ks" if "bget C (csKeyOf h a) = Some t" for t
    proof -
      have "(a, t) \<in> set (revert_entries C h)"
        using that a map_of_SomeD revert_entries_map(2) [OF assms(4), of h a] by (metis (no_types))
      then show ?thesis using a(2) by force
    qed
    then have "bget (foldl bdel H ?ks) k = None"
      using assms(1) a by (cases "bget C (csKeyOf h a)") (auto simp: foldl_bdel hist_inv_def)
    with True assms(3) show ?thesis unfolding fold by (simp add: hist_fresh_def)
  qed
qed

section \<open>What a block application records\<close>

definition beacon_inv :: "u64 \<Rightarrow> bucket \<Rightarrow> bucket \<Rightarrow> bucket \<Rightarrow> bucket \<Rightarrow> bool" where
  "beacon_inv h B0 C0 B C \<longleftrightarrow> bucket_ok B \<and> bucket_ok C \<and>
     (bget C (PackUint64LE h) = None \<and> bget B BeaconStateKey = bget B0 BeaconStateKey \<or>
      bget C (PackUint64LE h) = Some (taggedPreimage (bget B0 BeaconStateKey))) \<and>
     (\<forall>k. k \<noteq> BeaconStateKey \<longrightarrow> bget B k = bget B0 k) \<and>
     (\<forall>k. k \<noteq> PackUint64LE h \<longrightarrow> bget C k = bget C0 k)"

definition tracked :: "u64 \<Rightarrow> DB \<Rightarrow> DB \<Rightarrow> bool" where
  "tracked h db0 db \<longleftrightarrow>
     cs_inv h (dbBal db0) (csBal db0) (dbBal db) (csBal db) \<and>
     cs_inv h (dbContract db0) (csContract db0) (dbContract db) (csContract db) \<and>
     cs_inv h (dbKey db0) (csKey db0) (dbKey db) (csKey db) \<and>
     hist_inv h (histBal db0) (histBal db) (csBal db) \<and> hist_inv h (histContract db0) (histContract db) (csContract db) \<and>
     beacon_inv h (dbBeacon db0) (csBeacon db0) (dbBeacon db) (csBeacon db)"

text \<open>The height has not been recorded yet.\<close>

definition unrecorded :: "u64 \<Rightarrow> DB \<Rightarrow> bool" where
  "unrecorded h db \<longleftrightarrow> fresh h (csBal db) \<and> fresh h (csContract db) \<and> fresh h (csKey db) \<and>
     hist_fresh h (histBal db) \<and> hist_fresh h (histContract db) \<and> bget (csBeacon db) (PackUint64LE h) = None"

lemma tracked_start: "db_ok db \<Longrightarrow> unrecorded h db \<Longrightarrow> tracked h db db"
  by (simp add: tracked_def unrecorded_def db_ok_def cs_inv_start hist_inv_start beacon_inv_def)

lemma tracked_cong:
  assumes "tracked h db0 db" "dbBal db' = dbBal db" "csBal db' = csBal db" "dbContract db' = dbContract db"
    "csContract db' = csContract db" "dbKey db' = dbKey db" "csKey db' = csKey db" "histBal db' = histBal db"
    "histContract db' = histContract db" "dbBeacon db' = dbBeacon db" "csBeacon db' = csBeacon db"
  shows "tracked h db0 db'"
  using assms by (simp add: tracked_def)

lemma record_cs:
  "csBal (recordBal (Some h) db a) = rec_cs h (dbBal db) (csBal db) a"
  "csContract (recordContract (Some h) db a) = rec_cs h (dbContract db) (csContract db) a"
  "bget (dbKey db) a = None \<Longrightarrow> csKey (recordKey (Some h) db a) = rec_cs h (dbKey db) (csKey db) a"
  by (simp_all add: recordBal_def recordContract_def recordKey_def rec_cs_def Let_def taggedPreimage_def)

lemma record_hist:
  "length a = AddressSize \<Longrightarrow> hist_inv h H0 (histBal db) (csBal db) \<Longrightarrow>
   hist_inv h H0 (histBal (recordBal (Some h) db a)) (rec_cs h (dbBal db) (csBal db) a)"
  "length a = AddressSize \<Longrightarrow> hist_inv h H0 (histContract db) (csContract db) \<Longrightarrow>
   hist_inv h H0 (histContract (recordContract (Some h) db a)) (rec_cs h (dbContract db) (csContract db) a)"
  by (simp_all add: recordBal_def recordContract_def rec_cs_def Let_def hist_inv_record)

lemma cs_inv_put:
  assumes "cs_inv h S0 C0 S C" "length a = AddressSize"
  shows "cs_inv h S0 C0 (bput S a v) (rec_cs h S C a)" "cs_inv h S0 C0 (bdel S a) (rec_cs h S C a)"
proof -
  have "bucket_ok S" using assms(1) by (simp add: cs_inv_def)
  then show "cs_inv h S0 C0 (bput S a v) (rec_cs h S C a)" "cs_inv h S0 C0 (bdel S a) (rec_cs h S C a)"
    by (auto intro!: cs_inv_write [OF assms] simp: bucket_simps)
qed

lemma tracked_step:
  assumes "state_step P (Some h) db db'" "hash32 (Hash256 P)" "tracked h db0 db"
  shows "tracked h db0 db'"
  using assms(1)
proof cases
  case (step_balance a x)
  then show ?thesis using assms(3) by (simp add: tracked_def record_cs cs_inv_put record_hist)
next
  case (step_setContract ct)
  note e = setContract_effect [OF step_setContract(2)]
  show ?thesis using assms(3) step_setContract(1) by (simp add: tracked_def e record_cs cs_inv_put record_hist)
next
  case (step_delContract a)
  then show ?thesis using assms(3) by (simp add: tracked_def record_cs cs_inv_put record_hist)
next
  case (step_key tx)
  show ?thesis
  proof (cases "db' = db")
    case False
    define a where "a = AddressOfPubKey P (EnvelopeScheme tx) (take (PubKeySize P (EnvelopeScheme tx)) (drop 2 (txSign tx)))"
    have "length a = AddressSize" using assms(2) by (simp add: a_def)
    moreover have "bget (dbKey db) a = None" "\<exists>e. dbKey db' = bput (dbKey db) a e" "csKey db' = csKey (recordKey (Some h) db a)"
      using False step_key by (auto simp: registerPubKey_def Let_def trie_wrappers a_def split: if_splits)
    ultimately have "cs_inv h (dbKey db0) (csKey db0) (dbKey db') (csKey db')"
      using assms(3) by (auto simp: tracked_def record_cs cs_inv_put)
    with assms(3) show ?thesis unfolding step_key by (simp add: tracked_def)
  qed (use assms(3) in simp)
next
  case (step_beacon seed)
  then show ?thesis using assms(3)
    by (auto simp: tracked_def beacon_inv_def recordBeacon_def Let_def bucket_simps split: option.splits)
next
  case (step_commit "from" h hash)
  show ?thesis unfolding step_commit
    by (rule tracked_cong [OF assms(3)]) (simp_all add: commits_only_frame [OF commits_only_ops(1)])
next
  case (step_reveal r h hash "from")
  show ?thesis unfolding step_reveal
    by (rule tracked_cong [OF assms(3)])
      (simp_all add: commits_only_frame [OF commits_only_ops(2)] commits_only_frame [OF commits_only_ops(3)])
next
  case (step_prune tip)
  show ?thesis unfolding step_prune
    by (rule tracked_cong [OF assms(3)]) (simp_all add: commits_only_frame [OF commits_only_ops(4)])
next
  case (step_receipt b)
  show ?thesis unfolding step_receipt by (rule tracked_cong [OF assms(3)]) simp_all
qed

lemma tracked_steps:
  "state_steps P (Some h) db db' \<Longrightarrow> hash32 (Hash256 P) \<Longrightarrow> tracked h db0 db \<Longrightarrow> tracked h db0 db'"
  unfolding state_steps_def by (induction rule: rtranclp_induct) (auto dest: tracked_step)

section \<open>Reverting a domain of the database\<close>

locale state_domain =
  fixes st :: "DB \<Rightarrow> bucket" and cs :: "DB \<Rightarrow> bucket" and hist :: "DB \<Rightarrow> bucket"
    and stU :: "(bucket \<Rightarrow> bucket) \<Rightarrow> DB \<Rightarrow> DB" and csU :: "(bucket \<Rightarrow> bucket) \<Rightarrow> DB \<Rightarrow> DB"
    and histU :: "(bucket \<Rightarrow> bucket) \<Rightarrow> DB \<Rightarrow> DB" and mirror :: "DB \<Rightarrow> Address \<Rightarrow> bytes option \<Rightarrow> DB"
  assumes st_laws: "st (stU f db) = f (st db)" "st (csU f db) = st db" "st (histU f db) = st db" "st (mirror db a v) = st db"
    and cs_laws: "cs (stU f db) = cs db" "cs (csU f db) = f (cs db)" "cs (histU f db) = cs db" "cs (mirror db a v) = cs db"
    and hist_laws: "hist (stU f db) = hist db" "hist (csU f db) = hist db"
      "hist (histU (\<lambda>b. bdel b k) db) = bdel (hist db) k" "hist (mirror db a v) = hist db"
begin

lemmas laws = st_laws cs_laws hist_laws

lemma revert_entry_effect:
  "st (revert_entry csU stU (Some histU) h mirror db e) = undo (st db) e"
  "cs (revert_entry csU stU (Some histU) h mirror db e) = bdel (cs db) (csKeyOf h (fst e))"
  "hist (revert_entry csU stU (Some histU) h mirror db e) = bdel (hist db) (histKey (fst e) h)"
proof -
  obtain a t where e: "e = (a, t)" by (cases e)
  show "st (revert_entry csU stU (Some histU) h mirror db e) = undo (st db) e"
    unfolding e revert_entry_def by (simp only: Let_def prod.case option.case laws undo_def fst_conv snd_conv)
  show "cs (revert_entry csU stU (Some histU) h mirror db e) = bdel (cs db) (csKeyOf h (fst e))"
  "hist (revert_entry csU stU (Some histU) h mirror db e) = bdel (hist db) (histKey (fst e) h)"
    unfolding e revert_entry_def by (simp_all only: Let_def prod.case option.case laws fst_conv snd_conv)
qed

lemma revert_fold_effect:
  "st (foldl (revert_entry csU stU (Some histU) h mirror) db es) = foldl undo (st db) es"
  "cs (foldl (revert_entry csU stU (Some histU) h mirror) db es) = foldl (\<lambda>C e. bdel C (csKeyOf h (fst e))) (cs db) es"
  "hist (foldl (revert_entry csU stU (Some histU) h mirror) db es) = foldl (\<lambda>H e. bdel H (histKey (fst e) h)) (hist db) es"
  by (induction es arbitrary: db) (simp_all add: revert_entry_effect)

lemma revert_restores:
  assumes "cs_inv h S0 C0 (st db) (cs db)" "hist_inv h H0 (hist db) (cs db)" "bucket_ok S0" "bucket_ok C0" "bucket_ok H0"
    "fresh h C0" "hist_fresh h H0"
  shows "st (revertDomain cs csU stU (Some histU) h mirror db) = S0"
    "cs (revertDomain cs csU stU (Some histU) h mirror db) = C0"
    "hist (revertDomain cs csU stU (Some histU) h mirror db) = H0"
proof -
  have "bucket_ok (cs db)" using assms(1) by (simp add: cs_inv_def)
  then show "st (revertDomain cs csU stU (Some histU) h mirror db) = S0"
    "cs (revertDomain cs csU stU (Some histU) h mirror db) = C0"
    "hist (revertDomain cs csU stU (Some histU) h mirror db) = H0"
    unfolding revertDomain_def revert_fold_effect
    by (simp_all add: revert_state [OF assms(1,3)] revert_rows [OF assms(1,4,6)] revert_hist [OF assms(2,5,7)])
qed

lemma revert_state_only:
  assumes "cs_inv h S0 C0 (st db) (cs db)" "bucket_ok S0" "bucket_ok C0" "fresh h C0"
  shows "st (revertDomain cs csU stU (Some histU) h mirror db) = S0"
    "cs (revertDomain cs csU stU (Some histU) h mirror db) = C0"
  unfolding revertDomain_def revert_fold_effect
  by (simp_all add: revert_state [OF assms(1,2)] revert_rows [OF assms(1,3,4)])

lemma revert_frame:
  assumes "\<And>f db. g (stU f db) = g db" "\<And>f db. g (csU f db) = g db" "\<And>f db. g (histU f db) = g db"
    "\<And>db a v. g (mirror db a v) = g db"
  shows "g (revertDomain cs csU stU (Some histU) h mirror db) = g db"
proof -
  have "g (foldl (revert_entry csU stU (Some histU) h mirror) db es) = g db" for es
    by (induction es arbitrary: db) (simp_all add: revert_entry_def Let_def assms split: prod.split)
  then show ?thesis unfolding revertDomain_def by this
qed

lemma revert_invariant:
  assumes "Q db" "\<And>db e. Q db \<Longrightarrow> e \<in> set (revert_entries C h) \<Longrightarrow> Q (revert_entry csU stU (Some histU) h mirror db e)" "C = cs db"
  shows "Q (revertDomain cs csU stU (Some histU) h mirror db)"
proof -
  have "Q (foldl (revert_entry csU stU (Some histU) h mirror) db es)" if "set es \<subseteq> set (revert_entries C h)" "Q db" for es db
    using that by (induction es arbitrary: db) (simp_all add: assms(2))
  then show ?thesis unfolding revertDomain_def assms(3) [symmetric] using assms(1) by blast
qed

end

interpretation bal: state_domain dbBal csBal histBal dbBal_update csBal_update histBal_update
  "\<lambda>db addr val. trieSetBalance P db addr (map_option SetBytes val)" for P :: "'p prims_scheme"
  by unfold_locales (simp_all add: trie_wrappers)

interpretation slt: state_domain dbContract csContract histContract dbContract_update csContract_update histContract_update
  "\<lambda>db addr val. trieSetContract P db addr (case val of None \<Rightarrow> [] | Some v \<Rightarrow> v)" for P :: "'p prims_scheme"
  by unfold_locales (simp_all add: trie_wrappers)

text \<open>The key registry has no history index.\<close>

interpretation reg: state_domain dbKey csKey "\<lambda>_. bempty" dbKey_update csKey_update "\<lambda>_ db. db"
  "\<lambda>db addr val. trieSetKey P db addr (case val of None \<Rightarrow> [] | Some v \<Rightarrow> v)" for P :: "'p prims_scheme"
  by unfold_locales (simp_all add: trie_wrappers bdel_def bempty_def)

lemma revertKeys_alt:
  "revertKeys P db h = revertDomain csKey csKey_update dbKey_update (Some (\<lambda>_ db. db)) h
     (\<lambda>db addr val. trieSetKey P db addr (case val of None \<Rightarrow> [] | Some v \<Rightarrow> v)) db"
proof -
  have "revert_entry c s None h m = revert_entry c s (Some (\<lambda>_ db. db)) h m" for c s m
    by (simp add: fun_eq_iff revert_entry_def Let_def)
  then show ?thesis by (simp add: revertKeys_def revertDomain_def)
qed

lemma revertBalances_frame [simp]:
  "dbContract (revertBalances P db h) = dbContract db" "csContract (revertBalances P db h) = csContract db"
  "histContract (revertBalances P db h) = histContract db" "dbKey (revertBalances P db h) = dbKey db"
  "csKey (revertBalances P db h) = csKey db" "dbBeacon (revertBalances P db h) = dbBeacon db"
  "csBeacon (revertBalances P db h) = csBeacon db" "dbCode (revertBalances P db h) = dbCode db"
  "dbCommit (revertBalances P db h) = dbCommit db" "dbSpent (revertBalances P db h) = dbSpent db"
  "dbBlocks (revertBalances P db h) = dbBlocks db"
  unfolding revertBalances_def by (rule bal.revert_frame; simp add: trie_wrappers)+

lemma revertContracts_frame [simp]:
  "dbBal (revertContracts P db h) = dbBal db" "csBal (revertContracts P db h) = csBal db"
  "histBal (revertContracts P db h) = histBal db" "dbKey (revertContracts P db h) = dbKey db"
  "csKey (revertContracts P db h) = csKey db" "dbBeacon (revertContracts P db h) = dbBeacon db"
  "csBeacon (revertContracts P db h) = csBeacon db" "dbCode (revertContracts P db h) = dbCode db"
  "dbCommit (revertContracts P db h) = dbCommit db" "dbSpent (revertContracts P db h) = dbSpent db"
  "dbBlocks (revertContracts P db h) = dbBlocks db"
  unfolding revertContracts_def by (rule slt.revert_frame; simp add: trie_wrappers)+

lemma revertKeys_frame [simp]:
  "dbBal (revertKeys P db h) = dbBal db" "csBal (revertKeys P db h) = csBal db"
  "histBal (revertKeys P db h) = histBal db" "dbContract (revertKeys P db h) = dbContract db"
  "csContract (revertKeys P db h) = csContract db" "histContract (revertKeys P db h) = histContract db"
  "dbBeacon (revertKeys P db h) = dbBeacon db"
  "csBeacon (revertKeys P db h) = csBeacon db" "dbCode (revertKeys P db h) = dbCode db"
  "dbCommit (revertKeys P db h) = dbCommit db" "dbSpent (revertKeys P db h) = dbSpent db"
  "dbBlocks (revertKeys P db h) = dbBlocks db"
  unfolding revertKeys_alt by (rule reg.revert_frame; simp add: trie_wrappers)+

section \<open>Unwinding a height restores the recorded state\<close>

definition same_state :: "DB \<Rightarrow> DB \<Rightarrow> bool" where
  "same_state db db' \<longleftrightarrow> dbBal db' = dbBal db \<and> dbContract db' = dbContract db \<and> dbKey db' = dbKey db \<and>
     dbBeacon db' = dbBeacon db \<and> csBal db' = csBal db \<and> csContract db' = csContract db \<and> csKey db' = csKey db \<and>
     csBeacon db' = csBeacon db \<and> histBal db' = histBal db \<and> histContract db' = histContract db"

lemma entries_preimage:
  assumes "cs_inv h S0 C0 S C" "e \<in> set (revert_entries C h)"
  shows "length (fst e) = AddressSize" "splitPreimage (snd e) = bget S0 (fst e)"
proof -
  have ok: "bucket_ok C" using assms(1) by (simp add: cs_inv_def)
  show len: "length (fst e) = AddressSize" by (rule revert_entries_length [OF ok assms(2)])
  have "map_of (revert_entries C h) (fst e) = Some (snd e)"
    using assms(2) map_of_eq_Some_iff [OF revert_entries_map(1) [OF ok]] by (metis prod.collapse)
  then show "splitPreimage (snd e) = bget S0 (fst e)"
    using revert_entries_map(2) [OF ok, of h "fst e"] len cs_inv_at [OF assms(1) len] by auto
qed

lemma db_inv_rows:
  assumes "db_inv P db"
  shows "db_inv P (db\<lparr>histBal := bdel (histBal db) k', csBal := bdel (csBal db) k\<rparr>)"
    "db_inv P (db\<lparr>histContract := bdel (histContract db) k', csContract := bdel (csContract db) k\<rparr>)"
    "db_inv P (db\<lparr>csKey := bdel (csKey db) k\<rparr>)" "db_inv P (db\<lparr>csBeacon := bdel (csBeacon db) k\<rparr>)"
  using db_inv_ok [OF assms] by (auto intro!: db_inv_cong [OF assms] simp: db_ok_def bucket_simps)

lemma restore_mirror_inv:
  assumes "hash32 (Hash256 P)" "db_inv P db" "length a = AddressSize"
  shows "bigBytes (SetBytes v) = v \<Longrightarrow>
      db_inv P (trieSetBalance P (db\<lparr>dbBal := bput (dbBal db) a v\<rparr>) a (Some (SetBytes v)))"
    and "db_inv P (trieSetBalance P (db\<lparr>dbBal := bdel (dbBal db) a\<rparr>) a None)"
    and "v \<noteq> [] \<Longrightarrow> db_inv P (trieSetContract P (db\<lparr>dbContract := bput (dbContract db) a v\<rparr>) a v)"
    and "db_inv P (trieSetContract P (db\<lparr>dbContract := bdel (dbContract db) a\<rparr>) a [])"
    and "v \<noteq> [] \<Longrightarrow> db_inv P (trieSetKey P (db\<lparr>dbKey := bput (dbKey db) a v\<rparr>) a v)"
    and "db_inv P (trieSetKey P (db\<lparr>dbKey := bdel (dbKey db) a\<rparr>) a [])"
  using setBalance_inv [OF assms, of None "SetBytes v"] put_mirror_inv(1,2) [OF assms(1,2) _ assms(3)] del_mirror_inv [OF assms(1,2)]
  by (simp_all add: trie_wrappers setBalance_def recordBal_def Let_def)

text \<open>An update by a function, as the update by its value.\<close>

lemma upd_value:
  "dbBal_update f d = d\<lparr>dbBal := f (dbBal d)\<rparr>" "dbContract_update f d = d\<lparr>dbContract := f (dbContract d)\<rparr>"
  "dbKey_update f d = d\<lparr>dbKey := f (dbKey d)\<rparr>" "csBal_update f d = d\<lparr>csBal := f (csBal d)\<rparr>"
  "csContract_update f d = d\<lparr>csContract := f (csContract d)\<rparr>" "csKey_update f d = d\<lparr>csKey := f (csKey d)\<rparr>"
  "histBal_update f d = d\<lparr>histBal := f (histBal d)\<rparr>" "histContract_update f d = d\<lparr>histContract := f (histContract d)\<rparr>"
  by (cases d; simp)+

lemma revertBalances_inv:
  assumes "hash32 (Hash256 P)" "db_inv P db" "cs_inv h S0 C0 (dbBal db) (csBal db)"
    "\<And>k v. bget S0 k = Some v \<Longrightarrow> entry_ok DomainBalance k v"
  shows "db_inv P (revertBalances P db h)"
  unfolding revertBalances_def
proof (rule bal.revert_invariant [of "db_inv P", OF assms(2) _ refl])
  fix d e assume d: "db_inv P d" "e \<in> set (revert_entries (csBal db) h)"
  note e = entries_preimage [OF assms(3) d(2)]
  have b: "bigBytes (SetBytes v) = v" if "splitPreimage (snd e) = Some v" for v
    using assms(4) [of "fst e" v] e(2) that by (simp add: entry_ok_def)
  let ?d = "trieSetBalance P (d\<lparr>dbBal := (case splitPreimage (snd e) of Some v \<Rightarrow> bput (dbBal d) (fst e) v
    | None \<Rightarrow> bdel (dbBal d) (fst e))\<rparr>) (fst e) (map_option SetBytes (splitPreimage (snd e)))"
  have "db_inv P ?d"
    using restore_mirror_inv(1,2) [OF assms(1) d(1) e(1)] b by (simp split: option.splits)
  from db_inv_rows(1) [OF this, where k = "csKeyOf h (fst e)" and k' = "histKey (fst e) h"]
  show "db_inv P (revert_entry csBal_update dbBal_update (Some histBal_update) h
      (\<lambda>db addr val. trieSetBalance P db addr (map_option SetBytes val)) d e)"
    by (simp add: revert_entry_def Let_def trie_wrappers case_prod_beta
      upd_value(1) [of "\<lambda>b. case splitPreimage (snd e) of Some v \<Rightarrow> bput b (fst e) v | None \<Rightarrow> bdel b (fst e)"]
      upd_value(4) [of "\<lambda>b. bdel b (csKeyOf h (fst e))"] upd_value(7) [of "\<lambda>b. bdel b (histKey (fst e) h)"])
qed

lemma revertContracts_inv:
  assumes "hash32 (Hash256 P)" "db_inv P db" "cs_inv h S0 C0 (dbContract db) (csContract db)"
    "\<And>k v. bget S0 k = Some v \<Longrightarrow> entry_ok DomainContract k v"
  shows "db_inv P (revertContracts P db h)"
  unfolding revertContracts_def
proof (rule slt.revert_invariant [of "db_inv P", OF assms(2) _ refl])
  fix d e assume d: "db_inv P d" "e \<in> set (revert_entries (csContract db) h)"
  note e = entries_preimage [OF assms(3) d(2)]
  have b: "v \<noteq> []" if "splitPreimage (snd e) = Some v" for v
    using assms(4) [of "fst e" v] e(2) that by (simp add: entry_ok_def domain_defs)
  let ?d = "trieSetContract P (d\<lparr>dbContract := (case splitPreimage (snd e) of Some v \<Rightarrow> bput (dbContract d) (fst e) v
    | None \<Rightarrow> bdel (dbContract d) (fst e))\<rparr>) (fst e) (case splitPreimage (snd e) of None \<Rightarrow> [] | Some v \<Rightarrow> v)"
  have "db_inv P ?d"
    using restore_mirror_inv(3,4) [OF assms(1) d(1) e(1)] b by (simp split: option.splits)
  from db_inv_rows(2) [OF this, where k = "csKeyOf h (fst e)" and k' = "histKey (fst e) h"]
  show "db_inv P (revert_entry csContract_update dbContract_update (Some histContract_update) h
      (\<lambda>db addr val. trieSetContract P db addr (case val of None \<Rightarrow> [] | Some v \<Rightarrow> v)) d e)"
    by (simp add: revert_entry_def Let_def trie_wrappers case_prod_beta
      upd_value(2) [of "\<lambda>b. case splitPreimage (snd e) of Some v \<Rightarrow> bput b (fst e) v | None \<Rightarrow> bdel b (fst e)"]
      upd_value(5) [of "\<lambda>b. bdel b (csKeyOf h (fst e))"] upd_value(8) [of "\<lambda>b. bdel b (histKey (fst e) h)"])
qed

lemma revertKeys_inv:
  assumes "hash32 (Hash256 P)" "db_inv P db" "cs_inv h S0 C0 (dbKey db) (csKey db)"
    "\<And>k v. bget S0 k = Some v \<Longrightarrow> entry_ok DomainKey k v"
  shows "db_inv P (revertKeys P db h)"
  unfolding revertKeys_alt
proof (rule reg.revert_invariant [of "db_inv P", OF assms(2) _ refl])
  fix d e assume d: "db_inv P d" "e \<in> set (revert_entries (csKey db) h)"
  note e = entries_preimage [OF assms(3) d(2)]
  have b: "v \<noteq> []" if "splitPreimage (snd e) = Some v" for v
    using assms(4) [of "fst e" v] e(2) that by (simp add: entry_ok_def domain_defs)
  let ?d = "trieSetKey P (d\<lparr>dbKey := (case splitPreimage (snd e) of Some v \<Rightarrow> bput (dbKey d) (fst e) v
    | None \<Rightarrow> bdel (dbKey d) (fst e))\<rparr>) (fst e) (case splitPreimage (snd e) of None \<Rightarrow> [] | Some v \<Rightarrow> v)"
  have "db_inv P ?d"
    using restore_mirror_inv(5,6) [OF assms(1) d(1) e(1)] b by (simp split: option.splits)
  from db_inv_rows(3) [OF this, where k = "csKeyOf h (fst e)"]
  show "db_inv P (revert_entry csKey_update dbKey_update (Some (\<lambda>_ db. db)) h
      (\<lambda>db addr val. trieSetKey P db addr (case val of None \<Rightarrow> [] | Some v \<Rightarrow> v)) d e)"
    by (simp add: revert_entry_def Let_def trie_wrappers case_prod_beta
      upd_value(3) [of "\<lambda>b. case splitPreimage (snd e) of Some v \<Rightarrow> bput b (fst e) v | None \<Rightarrow> bdel b (fst e)"]
      upd_value(6) [of "\<lambda>b. bdel b (csKeyOf h (fst e))"])
qed

lemma revertBeacon_restores:
  assumes "beacon_inv h B0 C0 (dbBeacon db) (csBeacon db)" "bucket_ok B0" "bucket_ok C0" "bget C0 (PackUint64LE h) = None"
  shows "dbBeacon (revertBeacon P db h) = B0" "csBeacon (revertBeacon P db h) = C0"
proof -
  have ok: "bucket_ok (dbBeacon db)" "bucket_ok (csBeacon db)" using assms(1) by (simp_all add: beacon_inv_def)
  have B: "bget (dbBeacon (revertBeacon P db h)) k = bget B0 k" for k
    using assms(1) unfolding beacon_inv_def revertBeacon_def Let_def trie_wrappers
    by (cases "k = BeaconStateKey"; cases "bget B0 BeaconStateKey") (auto simp: bucket_simps)
  have C: "bget (csBeacon (revertBeacon P db h)) k = bget C0 k" for k
    using assms(1,4) unfolding beacon_inv_def revertBeacon_def Let_def trie_wrappers
    by (cases "k = PackUint64LE h"; cases "bget B0 BeaconStateKey") (auto simp: bucket_simps)
  have "bucket_ok (dbBeacon (revertBeacon P db h))" "bucket_ok (csBeacon (revertBeacon P db h))"
    using ok unfolding revertBeacon_def Let_def trie_wrappers by (simp_all add: bucket_simps split: option.split)
  then show "dbBeacon (revertBeacon P db h) = B0" "csBeacon (revertBeacon P db h) = C0"
    using bget_ext assms(2,3) B C by blast+
qed

lemma revertBeacon_inv:
  assumes "hash32 (Hash256 P)" "db_inv P db" "beacon_inv h B0 C0 (dbBeacon db) (csBeacon db)"
    "\<And>k v. bget B0 k = Some v \<Longrightarrow> v \<noteq> []"
  shows "db_inv P (revertBeacon P db h)"
proof (cases "bget (csBeacon db) (PackUint64LE h)")
  case (Some t)
  then have t: "t = taggedPreimage (bget B0 BeaconStateKey)" using assms(3) by (simp add: beacon_inv_def)
  show ?thesis
  proof (cases "bget B0 BeaconStateKey")
    case None
    then show ?thesis using db_inv_rows(4) [OF del_mirror_inv(5) [OF assms(1,2), of BeaconStateKey], of "PackUint64LE h"] Some t
      by (simp add: revertBeacon_def trie_wrappers)
  next
    case (Some v)
    then show ?thesis
      using db_inv_rows(4) [OF put_mirror_inv(4) [OF assms(1,2) assms(4) [OF Some]], of "PackUint64LE h"] t
        \<open>bget (csBeacon db) (PackUint64LE h) = Some t\<close>
      by (simp add: revertBeacon_def trie_wrappers)
  qed
qed (simp add: revertBeacon_def assms(2))

lemma revertBeacon_frame [simp]:
  "dbBal (revertBeacon P db h) = dbBal db" "dbContract (revertBeacon P db h) = dbContract db"
  "dbKey (revertBeacon P db h) = dbKey db" "dbCommit (revertBeacon P db h) = dbCommit db"
  "dbSpent (revertBeacon P db h) = dbSpent db" "csBal (revertBeacon P db h) = csBal db"
  "csContract (revertBeacon P db h) = csContract db" "csKey (revertBeacon P db h) = csKey db"
  "histBal (revertBeacon P db h) = histBal db" "histContract (revertBeacon P db h) = histContract db"
  "dbCode (revertBeacon P db h) = dbCode db" "dbBlocks (revertBeacon P db h) = dbBlocks db"
  by (simp_all add: revertBeacon_def Let_def trie_wrappers split: option.split)

lemma restoreConsumed_ok:
  assumes "restoreConsumedAtHeight P db h = Inr db'" "hash32 (Hash256 P)" "db_inv P db"
  shows "commits_only db db' \<and> db_inv P db'"
  unfolding atomize_conj
proof (rule foldM_invariant [OF assms(1) [unfolded restoreConsumedAtHeight_def], of "\<lambda>d. commits_only db d \<and> db_inv P d"])
  fix kv d d'
  assume d: "commits_only db d \<and> db_inv P d" and "(case kv of (k, v) \<Rightarrow> case UnpackUint64LE v of None \<Rightarrow> Inl Panic
        | Some r \<Rightarrow> let sender = copy_at 0 (drop 8 v) (zeros AddressSize); db = putCommit P d r (drop 8 k) sender
            in Inr (db\<lparr>dbSpent := bdel (dbSpent db) (spentKey h (drop 8 k))\<rparr>)) = Inr d'"
  then obtain k v r where d': "d' = (putCommit P d r (drop 8 k) (copy_at 0 (drop 8 v) (zeros AddressSize)))
      \<lparr>dbSpent := bdel (dbSpent (putCommit P d r (drop 8 k) (copy_at 0 (drop 8 v) (zeros AddressSize)))) (spentKey h (drop 8 k))\<rparr>"
    (is "d' = ?p\<lparr>dbSpent := bdel (dbSpent ?p) _\<rparr>")
    by (cases kv) (auto simp: Let_def split: option.splits)
  have "x \<noteq> []" if "length x = AddressSize" for x :: bytes using that by (auto simp: AddressSize_def)
  then have "copy_at 0 (drop 8 v) (zeros AddressSize) \<noteq> []" by simp
  then have "db_inv P ?p" using d by (intro putCommit_inv [OF assms(2)]) simp_all
  then have "db_inv P d'" unfolding d' using db_inv_ok [of P ?p] by (intro spent_inv) (simp_all add: db_ok_def bucket_simps)
  moreover have "commits_only db d'" unfolding d'
    using d commits_only_trans [OF _ commits_only_trans [OF commits_only_ops(1) commits_only_put(2)]] by blast
  ultimately show "commits_only db d' \<and> db_inv P d'" by simp
qed (use assms(3) in simp)

lemma deleteCommits_only: "commits_only db (deleteCommitsAtHeight P db h)"
  by (rule commits_only_ops)

lemma unwind_tracked:
  assumes "unwindHeightTxn P db h = Inr db'" "tracked h db0 db" "unrecorded h db0" "db_inv P db0" "db_inv P db"
    "hash32 (Hash256 P)"
  shows "same_state db0 db'" "db_inv P db'" "dbCode db' = dbCode db" "dbBlocks db' = dbBlocks db"
proof -
  define d1 where "d1 = revertBalances P db h"
  define d2 where "d2 = revertContracts P d1 h"
  define d3 where "d3 = revertKeys P d2 h"
  define d4 where "d4 = deleteCommitsAtHeight P d3 h"
  obtain d5 where d5: "restoreConsumedAtHeight P d4 h = Inr d5" "db' = revertBeacon P d5 h"
    using assms(1) by (auto simp: unwindHeightTxn_def Let_def d1_def d2_def d3_def d4_def result_simps)
  note ok = db_inv_ok [OF assms(4), unfolded db_ok_def] and wf = db_inv_wf [OF assms(4), unfolded db_wf_def]
  note tr = assms(2) [unfolded tracked_def] and un = assms(3) [unfolded unrecorded_def]
  have i1: "db_inv P d1" unfolding d1_def using tr wf by (intro revertBalances_inv [OF assms(6,5)]) auto
  have i2: "db_inv P d2" unfolding d2_def using tr wf
    by (intro revertContracts_inv [OF assms(6) i1]) (auto simp: d1_def)
  have i3: "db_inv P d3" unfolding d3_def using tr wf
    by (intro revertKeys_inv [OF assms(6) i2]) (auto simp: d1_def d2_def)
  have "db_inv P d4" unfolding d4_def by (rule deleteCommitsAtHeight_inv [OF assms(6) i3])
  note c5 = restoreConsumed_ok [OF d5(1) assms(6) this]
  have only: "commits_only d3 d5" using c5 commits_only_trans [OF deleteCommits_only] unfolding d4_def by blast
  note fr = commits_only_frame [OF only]
  have bc: "beacon_inv h (dbBeacon db0) (csBeacon db0) (dbBeacon d5) (csBeacon d5)"
    using tr by (simp add: fr d3_def d2_def d1_def)
  have bwf: "v \<noteq> []" if "bget (dbBeacon db0) k = Some v" for k v using wf that by (auto simp: entry_ok_def domain_defs)
  show "db_inv P db'" unfolding d5(2) using c5 bwf by (intro revertBeacon_inv [OF assms(6) _ bc]) auto
  show "dbCode db' = dbCode db" "dbBlocks db' = dbBlocks db" by (simp_all add: d5(2) fr d3_def d2_def d1_def)
  have b: "dbBal d1 = dbBal db0" "csBal d1 = csBal db0" "histBal d1 = histBal db0"
    unfolding d1_def revertBalances_def using tr ok un by (auto intro: bal.revert_restores)
  have c: "dbContract d2 = dbContract db0" "csContract d2 = csContract db0" "histContract d2 = histContract db0"
    unfolding d2_def revertContracts_def using tr ok un by (auto intro: slt.revert_restores simp: d1_def)
  have k: "dbKey d3 = dbKey db0" "csKey d3 = csKey db0"
    unfolding d3_def revertKeys_alt using tr ok un by (auto intro: reg.revert_state_only simp: d1_def d2_def)
  have r: "dbBeacon db' = dbBeacon db0" "csBeacon db' = csBeacon db0"
    unfolding d5(2) using ok un by (auto intro: revertBeacon_restores [OF bc])
  have "dbBal d3 = dbBal d1" "csBal d3 = csBal d1" "histBal d3 = histBal d1" by (simp_all add: d3_def d2_def)
  moreover have "dbContract d3 = dbContract d2" "csContract d3 = csContract d2" "histContract d3 = histContract d2"
    by (simp_all add: d3_def)
  ultimately show "same_state db0 db'" unfolding same_state_def using r by (simp add: d5(2) fr b c k)
qed

end
