(* ===== verification/Reorg.thy ===== *)
theory Reorg
  imports Restore
begin

text \<open>
  Reorganisations of the state.  A block application is undone from what it recorded: balances, contract
  slots, keys, the beacon and the commitments it recorded or consumed.  What is not recorded is the expiry
  of old commitments, and the theorems say exactly so: after any number of blocks is unwound the state is
  the one before them, up to the commitments that expired at the unwound tip.
\<close>

section \<open>Definitions\<close>

text \<open>The height below which \<^verbatim>\<open>pruneCommits\<close> drops commitments and journal rows.\<close>

definition expiry :: "u64 \<Rightarrow> u64" where
  "expiry tip = (if tip \<le> CommitWindow then 0 else tip - CommitWindow)"

text \<open>Equal but for entries below a cutoff, which may be missing.\<close>

definition same_above :: "u64 \<Rightarrow> bucket \<Rightarrow> bucket \<Rightarrow> bool" where
  "same_above c b b' \<longleftrightarrow> bucket_ok b' \<and> (\<forall>k. \<not> below_cutoff c k \<longrightarrow> bget b' k = bget b k) \<and>
     (\<forall>k. bget b' k = None \<or> bget b' k = bget b k)"

definition at_prefix :: "u64 \<Rightarrow> bytes \<Rightarrow> bool" where
  "at_prefix h k \<longleftrightarrow> has_prefix k (PackUint64LE h)"

text \<open>The commitments a block has consumed: recording height, hash and sender.\<close>

type_synonym consumed = "(u64 \<times> bytes \<times> Address) list"

definition consumed_keys :: "consumed \<Rightarrow> bytes set" where
  "consumed_keys R = (\<lambda>(r, hash, _). commitKey r hash) ` set R"

definition spent_rows :: "u64 \<Rightarrow> consumed \<Rightarrow> bucket" where
  "spent_rows h R = map (\<lambda>(r, hash, sender). (commitKey h hash, PackUint64LE r @ sender)) R"

definition consumed_ok :: "u64 \<Rightarrow> bucket \<Rightarrow> consumed \<Rightarrow> bool" where
  "consumed_ok h C0 R \<longleftrightarrow> distinct (map (fst \<circ> snd) R) \<and>
     (\<forall>(r, hash, sender) \<in> set R. length hash = HashSize \<and> length sender = AddressSize \<and> in_window h r \<and>
        bget C0 (commitKey r hash) = Some sender)"

definition commit_inv :: "u64 \<Rightarrow> bucket \<Rightarrow> bucket \<Rightarrow> consumed \<Rightarrow> bucket \<Rightarrow> bucket \<Rightarrow> bool" where
  "commit_inv h C0 J0 R C J \<longleftrightarrow> bucket_ok C \<and> bucket_ok J \<and> consumed_ok h C0 R \<and>
     (\<forall>k. \<not> at_prefix h k \<longrightarrow> bget C k = (if k \<in> consumed_keys R then None else bget C0 k)) \<and>
     (\<forall>k. bget J k = (if at_prefix h k then map_of (spent_rows h R) k else bget J0 k))"

definition commit_fresh :: "u64 \<Rightarrow> DB \<Rightarrow> bool" where
  "commit_fresh h db \<longleftrightarrow> (\<forall>k. at_prefix h k \<longrightarrow> bget (dbCommit db) k = None \<and> bget (dbSpent db) k = None)"

section \<open>Tracking the commit store\<close>

lemma at_prefix_commitKey [simp]: "at_prefix h (commitKey r hash) \<longleftrightarrow> h = r"
  by (subst commitKey_prefix) (auto simp: at_prefix_def has_prefix_def)

lemma below_cutoff_commitKey [simp]: "below_cutoff c (commitKey r hash) \<longleftrightarrow> r < c"
  by (simp add: below_cutoff_def commitKey_height)

lemma same_above_refl: "bucket_ok b \<Longrightarrow> same_above c b b"
  by (simp add: same_above_def)

lemma same_above_trans: "same_above c a b \<Longrightarrow> same_above c b d \<Longrightarrow> same_above c a d"
  unfolding same_above_def by metis

lemma below_mono: "c \<le> c' \<Longrightarrow> below_cutoff c k \<Longrightarrow> below_cutoff c' k"
  by (auto simp: below_cutoff_def split: option.splits)

lemma same_above_mono: "same_above c a b \<Longrightarrow> c \<le> c' \<Longrightarrow> same_above c' a b"
  unfolding same_above_def using below_mono by blast

lemma same_above_0: "same_above 0 a b \<Longrightarrow> bucket_ok a \<Longrightarrow> b = a"
  by (rule bget_ext) (auto simp: same_above_def below_cutoff_def split: option.splits)

lemma commit_inv_start:
  "bucket_ok (dbCommit db) \<Longrightarrow> bucket_ok (dbSpent db) \<Longrightarrow> commit_fresh h db \<Longrightarrow>
   commit_inv h (dbCommit db) (dbSpent db) [] (dbCommit db) (dbSpent db)"
  by (simp add: commit_inv_def consumed_ok_def consumed_keys_def spent_rows_def commit_fresh_def)

lemma commit_inv_record:
  "commit_inv h C0 J0 R C J \<Longrightarrow> commit_inv h C0 J0 R (bput C (commitKey h hash) v) J"
  by (auto simp: commit_inv_def bucket_simps)

lemma commit_inv_reveal:
  assumes "commit_inv h C0 J0 R C J" "bget C (commitKey r hash) = Some sender" "in_window h r"
    "length hash = HashSize" "length sender = AddressSize" "hash \<notin> (fst \<circ> snd) ` set R"
  shows "commit_inv h C0 J0 ((r, hash, sender) # R) (bdel C (commitKey r hash)) (bput J (commitKey h hash) (PackUint64LE r @ sender))"
proof -
  have "bget C0 (commitKey r hash) = Some sender"
    using assms(1-3) by (auto simp: commit_inv_def in_window_def split: if_splits)
  then have "consumed_ok h C0 ((r, hash, sender) # R)" using assms by (auto simp: commit_inv_def consumed_ok_def)
  moreover have "bget (bput J (commitKey h hash) (PackUint64LE r @ sender)) k
      = (if at_prefix h k then map_of (spent_rows h ((r, hash, sender) # R)) k else bget J0 k)" for k
    using assms(1) by (auto simp: commit_inv_def spent_rows_def bucket_simps)
  moreover have "bget (bdel C (commitKey r hash)) k = (if k \<in> consumed_keys ((r, hash, sender) # R) then None else bget C0 k)"
    if "\<not> at_prefix h k" for k
    using assms(1) that by (auto simp: commit_inv_def consumed_keys_def bucket_simps)
  ultimately show ?thesis using assms(1) by (simp add: commit_inv_def bucket_simps)
qed

section \<open>Undoing the commit store\<close>

text \<open>A journal row, read as the entry it restores.\<close>

definition row_key :: "bytes \<times> bytes \<Rightarrow> bytes" where
  "row_key kv = commitKey (the (UnpackUint64LE (snd kv))) (drop 8 (fst kv))"

definition row_val :: "bytes \<times> bytes \<Rightarrow> Address" where
  "row_val kv = copy_at 0 (drop 8 (snd kv)) (zeros AddressSize)"

lemma restore_fold:
  assumes "\<forall>kv \<in> set rows. UnpackUint64LE (snd kv) \<noteq> None"
  shows "\<exists>db'. foldM (\<lambda>db (k, v). case UnpackUint64LE v of None \<Rightarrow> Inl Panic
        | Some r \<Rightarrow> let sender = copy_at 0 (drop 8 v) (zeros AddressSize); db = putCommit P db r (drop 8 k) sender
            in Inr (db\<lparr>dbSpent := bdel (dbSpent db) (spentKey h (drop 8 k))\<rparr>)) rows db = Inr db' \<and>
      dbCommit db' = foldl (\<lambda>b kv. bput b (row_key kv) (row_val kv)) (dbCommit db) rows \<and>
      dbSpent db' = foldl bdel (dbSpent db) (map (\<lambda>kv. commitKey h (drop 8 (fst kv))) rows)"
  using assms
proof (induction rows arbitrary: db)
  case (Cons kv rows)
  obtain k v where kv: "kv = (k, v)" by (cases kv)
  with Cons.prems obtain r where r: "UnpackUint64LE v = Some r" by auto
  let ?p = "putCommit P db r (drop 8 k) (copy_at 0 (drop 8 v) (zeros AddressSize))"
  let ?d = "?p\<lparr>dbSpent := bdel (dbSpent ?p) (spentKey h (drop 8 k))\<rparr>"
  have "\<forall>kv \<in> set rows. UnpackUint64LE (snd kv) \<noteq> None" using Cons.prems by simp
  from Cons.IH [OF this, of ?d] obtain db' where db': "foldM (\<lambda>db (k, v). case UnpackUint64LE v of None \<Rightarrow> Inl Panic
        | Some r \<Rightarrow> let sender = copy_at 0 (drop 8 v) (zeros AddressSize); db = putCommit P db r (drop 8 k) sender
            in Inr (db\<lparr>dbSpent := bdel (dbSpent db) (spentKey h (drop 8 k))\<rparr>)) rows ?d = Inr db'"
    "dbCommit db' = foldl (\<lambda>b kv. bput b (row_key kv) (row_val kv)) (dbCommit ?d) rows"
    "dbSpent db' = foldl bdel (dbSpent ?d) (map (\<lambda>kv. commitKey h (drop 8 (fst kv))) rows)" by blast
  then show ?case by (intro exI [of _ db']) (simp add: kv r row_key_def row_val_def putCommit_def Let_def trie_wrappers spentKey_commitKey)
qed simp

lemma foldl_bput_get:
  "k \<notin> f ` set rows \<Longrightarrow> bget (foldl (\<lambda>b kv. bput b (f kv) (g kv)) b rows) k = bget b k"
  "inj_on f (set rows) \<Longrightarrow> kv \<in> set rows \<Longrightarrow> bget (foldl (\<lambda>b kv. bput b (f kv) (g kv)) b rows) (f kv) = Some (g kv)"
  "bucket_ok b \<Longrightarrow> bucket_ok (foldl (\<lambda>b kv. bput b (f kv) (g kv)) b rows)"
proof -
  show 1: "k \<notin> f ` set rows \<Longrightarrow> bget (foldl (\<lambda>b kv. bput b (f kv) (g kv)) b rows) k = bget b k" for b k rows
    by (induction rows arbitrary: b) (auto simp: bucket_simps)
  show "bucket_ok b \<Longrightarrow> bucket_ok (foldl (\<lambda>b kv. bput b (f kv) (g kv)) b rows)"
    by (induction rows arbitrary: b) (auto simp: bucket_simps)
  show "inj_on f (set rows) \<Longrightarrow> kv \<in> set rows \<Longrightarrow> bget (foldl (\<lambda>b kv. bput b (f kv) (g kv)) b rows) (f kv) = Some (g kv)"
  proof (induction rows arbitrary: b)
    case (Cons x rows)
    show ?case
    proof (cases "kv \<in> set rows")
      case False
      with Cons.prems have "kv = x" "f kv \<notin> f ` set rows" by (auto simp: inj_on_def)
      then show ?thesis using 1 by (simp add: bucket_simps)
    next
      case True
      have "inj_on f (set rows)" using Cons.prems(1) by simp
      from Cons.IH [OF this True] show ?thesis by simp
    qed
  qed simp
qed

text \<open>The rows of the height in a journal that agrees with the tracked one above the cutoff.\<close>

lemma commitKey_same_hash:
  "consumed_ok h C0 R \<Longrightarrow> (r, hash, s) \<in> set R \<Longrightarrow> (r', hash, s') \<in> set R \<Longrightarrow> r = r' \<and> s = s'"
  unfolding consumed_ok_def by (induction R) (auto simp: image_iff)

lemma height_rows: "bucket_ok J \<Longrightarrow> kv \<in> set (seek_prefix J (PackUint64LE h)) \<longleftrightarrow> kv \<in> set J \<and> at_prefix h (fst kv)"
  unfolding seek_prefix_filter by (auto simp: at_prefix_def)

lemma journal_row:
  assumes "commit_inv h C0 J0 R C J" "same_above c J J'" "kv \<in> set (seek_prefix J' (PackUint64LE h))"
  obtains r hash sender where "(r, hash, sender) \<in> set R" "fst kv = commitKey h hash" "snd kv = PackUint64LE r @ sender"
    "length hash = HashSize" "row_key kv = commitKey r hash" "row_val kv = sender"
proof -
  obtain k v where kv: "kv = (k, v)" by (cases kv)
  have ok: "bucket_ok J'" using assms(2) by (simp add: same_above_def)
  have at: "at_prefix h k" and "bget J' k = Some v" using assms(3) bget_Some_iff [OF ok] by (auto simp: height_rows [OF ok] kv)
  moreover have "bget J' k = None \<or> bget J' k = bget J k" using assms(2) by (simp add: same_above_def)
  ultimately have "bget J k = Some v" by simp
  with assms(1) at have "map_of (spent_rows h R) k = Some v" by (simp add: commit_inv_def)
  then obtain r hash sender where R: "(r, hash, sender) \<in> set R" "k = commitKey h hash" "v = PackUint64LE r @ sender"
    by (auto simp: spent_rows_def dest!: map_of_SomeD)
  moreover have len: "length hash = HashSize" "length sender = AddressSize"
    using assms(1) R(1) by (auto simp: commit_inv_def consumed_ok_def)
  moreover have "drop 8 k = hash" using R(2) len by (simp add: commitKey_append)
  ultimately show ?thesis using that by (simp add: kv row_key_def row_val_def copy_at_all)
qed

lemma journal_rows_keys:
  assumes "commit_inv h C0 J0 R C J" "same_above c J J'"
  shows "inj_on row_key (set (seek_prefix J' (PackUint64LE h)))"
    "set (map (\<lambda>kv. commitKey h (drop 8 (fst kv))) (seek_prefix J' (PackUint64LE h))) = {k. at_prefix h k \<and> bget J' k \<noteq> None}"
    "\<forall>kv \<in> set (seek_prefix J' (PackUint64LE h)). UnpackUint64LE (snd kv) \<noteq> None"
proof -
  have ok: "bucket_ok J'" using assms(2) by (simp add: same_above_def)
  have cok: "consumed_ok h C0 R" using assms(1) by (simp add: commit_inv_def)
  note row = journal_row [OF assms]
  show "inj_on row_key (set (seek_prefix J' (PackUint64LE h)))"
  proof (rule inj_onI)
    fix x y assume xy: "x \<in> set (seek_prefix J' (PackUint64LE h))" "y \<in> set (seek_prefix J' (PackUint64LE h))" "row_key x = row_key y"
    from xy(1) obtain r hash s where x: "(r, hash, s) \<in> set R" "fst x = commitKey h hash" "snd x = PackUint64LE r @ s"
      "length hash = HashSize" "row_key x = commitKey r hash" by (rule row) blast
    from xy(2) obtain r' hash' s' where y: "(r', hash', s') \<in> set R" "fst y = commitKey h hash'" "snd y = PackUint64LE r' @ s'"
      "length hash' = HashSize" "row_key y = commitKey r' hash'" by (rule row) blast
    have "hash = hash'" using xy(3) x(4,5) y(4,5) commitKey_inject by metis
    with commitKey_same_hash [OF cok x(1), of r' s'] y(1) x(2,3) y(2,3) show "x = y" by (simp add: prod_eq_iff)
  qed
  have "commitKey h (drop 8 (fst kv)) = fst kv" if "kv \<in> set (seek_prefix J' (PackUint64LE h))" for kv
    by (rule row [OF that]) (simp add: commitKey_append)
  then have "set (map (\<lambda>kv. commitKey h (drop 8 (fst kv))) (seek_prefix J' (PackUint64LE h))) = fst ` set (seek_prefix J' (PackUint64LE h))"
    by simp
  moreover have "k \<in> fst ` set (seek_prefix J' (PackUint64LE h)) \<longleftrightarrow> (\<exists>v. (k, v) \<in> set (seek_prefix J' (PackUint64LE h)))" for k by force
  ultimately show "set (map (\<lambda>kv. commitKey h (drop 8 (fst kv))) (seek_prefix J' (PackUint64LE h))) = {k. at_prefix h k \<and> bget J' k \<noteq> None}"
    by (auto simp: height_rows [OF ok] bget_Some_iff [OF ok, symmetric])
  show "\<forall>kv \<in> set (seek_prefix J' (PackUint64LE h)). UnpackUint64LE (snd kv) \<noteq> None"
    by (intro ballI, erule row) simp
qed

lemma journal_rows_cover:
  assumes "commit_inv h C0 J0 R C J" "same_above c J J'" "(r, hash, s) \<in> set R" "\<not> h < c"
  shows "commitKey r hash \<in> row_key ` set (seek_prefix J' (PackUint64LE h))"
proof -
  have cok: "consumed_ok h C0 R" and ok: "bucket_ok J'" using assms(1,2) by (simp_all add: commit_inv_def same_above_def)
  have len: "length hash = HashSize" using cok assms(3) by (auto simp: consumed_ok_def)
  have "(commitKey h hash, PackUint64LE r @ s) \<in> set (spent_rows h R)" using assms(3) by (force simp: spent_rows_def)
  then obtain v where "map_of (spent_rows h R) (commitKey h hash) = Some v" by (meson weak_map_of_SomeI)
  then have "bget J' (commitKey h hash) = Some v" using assms(1,2,4) by (simp add: same_above_def commit_inv_def)
  then have kv: "(commitKey h hash, v) \<in> set (seek_prefix J' (PackUint64LE h))"
    using bget_Some_iff [OF ok] by (simp add: height_rows [OF ok])
  obtain r' hash' s' where r': "(r', hash', s') \<in> set R"
    "commitKey h hash = commitKey h hash'" "length hash' = HashSize" "row_key (commitKey h hash, v) = commitKey r' hash'"
    by (rule journal_row [OF assms(1,2) kv]) (auto simp: that)
  have "hash' = hash" using commitKey_inject [OF len r'(3), of h h] r'(2) by simp
  then have "row_key (commitKey h hash, v) = commitKey r hash" using commitKey_same_hash [OF cok assms(3)] r'(1,4) by auto
  then show ?thesis using kv by force
qed

lemma delete_prefix:
  assumes "bucket_ok C"
  shows "bget (foldl bdel C (map fst (seek_prefix C (PackUint64LE h)))) k = (if at_prefix h k then None else bget C k)"
proof (cases "bget C k")
  case (Some v)
  then have "(k, v) \<in> set C" using bget_Some_iff [OF assms] by simp
  then have "at_prefix h k \<longleftrightarrow> k \<in> set (map fst (seek_prefix C (PackUint64LE h)))"
    unfolding seek_prefix_filter [OF assms] by (force simp: at_prefix_def)
  then show ?thesis by (simp add: foldl_bdel)
qed (simp add: foldl_bdel)

lemma deleteCommits_effect:
  "dbCommit (deleteCommitsAtHeight P db h) = foldl bdel (dbCommit db) (map fst (seek_prefix (dbCommit db) (PackUint64LE h)))"
  "dbSpent (deleteCommitsAtHeight P db h) = dbSpent db"
proof -
  have "dbCommit (foldl (\<lambda>db k. trieSetCommit P (db\<lparr>dbCommit := bdel (dbCommit db) k\<rparr>) k []) db ks) = foldl bdel (dbCommit db) ks \<and>
    dbSpent (foldl (\<lambda>db k. trieSetCommit P (db\<lparr>dbCommit := bdel (dbCommit db) k\<rparr>) k []) db ks) = dbSpent db" for ks
    by (induction ks arbitrary: db) (simp_all add: trie_wrappers)
  then show "dbCommit (deleteCommitsAtHeight P db h) = foldl bdel (dbCommit db) (map fst (seek_prefix (dbCommit db) (PackUint64LE h)))"
    "dbSpent (deleteCommitsAtHeight P db h) = dbSpent db" unfolding deleteCommitsAtHeight_def by blast+
qed

lemma unwind_commits:
  assumes inv: "commit_inv h C0 J0 R C J" and C': "same_above c C (dbCommit d)" and J': "same_above c J (dbSpent d)"
    and fresh: "\<forall>k. at_prefix h k \<longrightarrow> bget C0 k = None \<and> bget J0 k = None"
  obtains d' where "restoreConsumedAtHeight P (deleteCommitsAtHeight P d h) h = Inr d'"
    "same_above c C0 (dbCommit d')" "same_above c J0 (dbSpent d')"
    "\<forall>k. bget (dbCommit d) k = None \<longrightarrow> k \<notin> consumed_keys R \<longrightarrow> bget (dbCommit d') k = None"
proof -
  let ?d = "deleteCommitsAtHeight P d h" and ?rows = "seek_prefix (dbSpent d) (PackUint64LE h)"
  have ok: "bucket_ok (dbCommit d)" "bucket_ok (dbSpent d)" "consumed_ok h C0 R"
    using inv C' J' by (simp_all add: same_above_def commit_inv_def)
  note rows = journal_rows_keys [OF inv J']
  from restore_fold [OF rows(3), of P h ?d] obtain d' where d': "restoreConsumedAtHeight P ?d h = Inr d'"
    "dbCommit d' = foldl (\<lambda>b kv. bput b (row_key kv) (row_val kv)) (dbCommit ?d) ?rows"
    "dbSpent d' = foldl bdel (dbSpent d) (map (\<lambda>kv. commitKey h (drop 8 (fst kv))) ?rows)"
    by (auto simp: restoreConsumedAtHeight_def deleteCommits_effect)
  have Jd: "bget (dbSpent d') k = (if at_prefix h k then None else bget (dbSpent d) k)" for k
    unfolding d'(3) foldl_bdel rows(2) by auto
  have Jk: "bget J k = bget J0 k" if "\<not> at_prefix h k" for k using inv that by (simp add: commit_inv_def)
  have "same_above c J0 (dbSpent d')" unfolding same_above_def
  proof (intro conjI allI impI)
    show "bucket_ok (dbSpent d')" unfolding d'(3) by (rule foldl_bdel(2) [OF ok(2)])
    show "bget (dbSpent d') k = bget J0 k" if "\<not> below_cutoff c k" for k
      using J' that Jk [of k] fresh unfolding Jd by (simp add: same_above_def)
    show "bget (dbSpent d') k = None \<or> bget (dbSpent d') k = bget J0 k" for k
    proof -
      have "bget (dbSpent d) k = None \<or> bget (dbSpent d) k = bget J k" using J' by (simp add: same_above_def)
      then show ?thesis using Jk [of k] by (auto simp: Jd)
    qed
  qed
  moreover have Ck: "bget C k = (if k \<in> consumed_keys R then None else bget C0 k)" if "\<not> at_prefix h k" for k
    using inv that by (simp add: commit_inv_def)
  have restored: "bget (dbCommit d') (row_key kv) = bget C0 (row_key kv)" if "kv \<in> set ?rows" for kv
    unfolding d'(2) foldl_bput_get(2) [OF rows(1) that]
    by (rule journal_row [OF inv J' that]) (use ok(3) in \<open>auto simp: consumed_ok_def\<close>)
  have kept: "bget (dbCommit d') k = (if at_prefix h k then None else bget (dbCommit d) k)" if "k \<notin> row_key ` set ?rows" for k
    unfolding d'(2) using foldl_bput_get(1) [OF that] delete_prefix [OF ok(1)] by (simp add: deleteCommits_effect)
  have "same_above c C0 (dbCommit d')" unfolding same_above_def
  proof (intro conjI allI impI)
    have "bucket_ok (dbCommit ?d)" unfolding deleteCommits_effect by (rule foldl_bdel(2) [OF ok(1)])
    then show "bucket_ok (dbCommit d')" unfolding d'(2) by (rule foldl_bput_get(3))
  next
    fix k
    have "bget (dbCommit d) k = None \<or> bget (dbCommit d) k = bget C k" using C' by (simp add: same_above_def)
    then show "bget (dbCommit d') k = None \<or> bget (dbCommit d') k = bget C0 k"
      using restored kept [of k] Ck [of k] by (cases "k \<in> row_key ` set ?rows") (auto split: if_splits)
    assume k: "\<not> below_cutoff c k"
    have "k \<in> row_key ` set ?rows" if consumed: "k \<in> consumed_keys R"
    proof -
      obtain r hash s where R: "(r, hash, s) \<in> set R" "k = commitKey r hash" using consumed by (auto simp: consumed_keys_def)
      then have "r < h" using ok(3) by (auto simp: consumed_ok_def in_window_def)
      then have "\<not> h < c" using k R(2) by auto
      from journal_rows_cover [OF inv J' R(1) this] show ?thesis using R(2) by simp
    qed
    moreover have "bget (dbCommit d) k = bget C k" using C' k by (simp add: same_above_def)
    ultimately show "bget (dbCommit d') k = bget C0 k"
      using restored kept [of k] Ck [of k] fresh [THEN spec, of k] by (cases "k \<in> row_key ` set ?rows") auto
  qed
  moreover have "bget (dbCommit d') k = None" if lost: "bget (dbCommit d) k = None" "k \<notin> consumed_keys R" for k
  proof -
    have "k \<notin> row_key ` set ?rows"
    proof
      assume "k \<in> row_key ` set ?rows"
      then obtain kv where kv: "kv \<in> set ?rows" "k = row_key kv" by blast
      obtain r hash s where "(r, hash, s) \<in> set R" "row_key kv = commitKey r hash" by (rule journal_row [OF inv J' kv(1)])
      then have "k \<in> consumed_keys R" unfolding consumed_keys_def kv(2) by force
      with lost(2) show False ..
    qed
    from kept [OF this] lost(1) show ?thesis by simp
  qed
  ultimately show ?thesis using d'(1) by (intro that allI impI)
qed

section \<open>A block and the commit store\<close>

definition reveals :: "FullTx list \<Rightarrow> FullTx list" where
  "reveals txs = filter (\<lambda>tx. txType tx \<noteq> GenerateTx) txs"

text \<open>The heights inside a block are the block's, and no transaction is revealed twice.\<close>

definition block_heights :: "'p prims_scheme \<Rightarrow> FullBlock \<Rightarrow> bool" where
  "block_heights P b \<longleftrightarrow> hdHeight (bkHeader b) \<noteq> 0 \<and> (\<forall>c \<in> set (bkCommits b). cmHeight c = hdHeight (bkHeader b)) \<and>
     (\<forall>tx \<in> set (reveals (bkTxs b)). txHeight tx = hdHeight (bkHeader b)) \<and>
     distinct (map (revealHash P) (reveals (bkTxs b)))"

lemma handle_commit_store:
  assumes "handle_commit P cs db c = Inr db'"
  shows "\<exists>v. dbCommit db' = bput (dbCommit db) (commitKey (cmHeight c) (cmHash c)) v" "dbSpent db' = dbSpent db"
    "chain_frame db db'"
proof -
  obtain sender fee where db': "db' = putCommit P (setBalance P cs db sender (getBalance db sender - fee)) (cmHeight c) (cmHash c) sender"
    using assms by (auto simp: handle_commit_def result_simps Let_def split: if_splits option.splits)
  show "\<exists>v. dbCommit db' = bput (dbCommit db) (commitKey (cmHeight c) (cmHash c)) v" "dbSpent db' = dbSpent db" "chain_frame db db'"
    unfolding db' by (simp_all add: putCommit_def Let_def trie_wrappers chain_frame_def) blast
qed

lemma handleCommits_store:
  assumes "handleCommits P cs db b = Inr db'" "\<forall>c \<in> set (bkCommits b). cmHeight c = h"
    "commit_inv h C0 J0 R (dbCommit db) (dbSpent db)"
  shows "commit_inv h C0 J0 R (dbCommit db') (dbSpent db') \<and> chain_frame db db'"
proof (rule foldM_invariant [OF assms(1) [unfolded handleCommits_def], of "\<lambda>d. commit_inv h C0 J0 R (dbCommit d) (dbSpent d) \<and> chain_frame db d"])
  fix c d d' assume c: "c \<in> set (bkCommits b)" "commit_inv h C0 J0 R (dbCommit d) (dbSpent d) \<and> chain_frame db d" "handle_commit P cs d c = Inr d'"
  obtain v where "dbCommit d' = bput (dbCommit d) (commitKey h (cmHash c)) v" using handle_commit_store(1) [OF c(3)] c(1) assms(2) by auto
  then show "commit_inv h C0 J0 R (dbCommit d') (dbSpent d') \<and> chain_frame db d'"
    using c(2) commit_inv_record handle_commit_store(2,3) [OF c(3)] chain_frame_trans by auto
qed (use assms(3) in simp)

lemma consumeReveal_store:
  assumes "consumeReveal P db tx = Inr db'" "txHeight tx = h" "h \<noteq> 0"
  obtains r sender where "findCommit db sender (revealHash P tx) h = Some r" "FullTx_From P tx = Inr sender"
    "dbCommit db' = bdel (dbCommit db) (commitKey r (revealHash P tx))"
    "dbSpent db' = bput (dbSpent db) (commitKey h (revealHash P tx)) (PackUint64LE r @ sender)" "chain_frame db db'"
proof -
  obtain r sender where f: "findCommit db sender (revealHash P tx) h = Some r" "FullTx_From P tx = Inr sender"
    "db' = consumeCommit P (journalConsumed db h r (revealHash P tx) sender) r (revealHash P tx)"
    using assms by (auto simp: consumeReveal_def Let_def result_simps split: if_splits option.splits)
  have "copy_at 8 sender (copy_at 0 (PackUint64LE r) (zeros (8 + AddressSize))) = PackUint64LE r @ sender"
    using From_length [OF f(2)] by (simp add: copy_at_def AddressSize_def)
  with f that show ?thesis
    by (simp add: consumeCommit_def journalConsumed_def Let_def trie_wrappers spentKey_commitKey chain_frame_def)
qed

lemma handle_txs_store:
  assumes "foldM (handle_tx P network cs bt) txs st = Inr st'" "hash32 (Hash256 P)" "h \<noteq> 0"
    "\<forall>tx \<in> set (reveals txs). txHeight tx = h" "distinct (map (revealHash P) (reveals txs))"
    "commit_inv h C0 J0 R (dbCommit (fst st)) (dbSpent (fst st))"
    "(fst \<circ> snd) ` set R \<inter> revealHash P ` set (reveals txs) = {}"
  shows "\<exists>R'. commit_inv h C0 J0 R' (dbCommit (fst st')) (dbSpent (fst st')) \<and> chain_frame (fst st) (fst st')"
  using assms(1,4-7)
proof (induction txs arbitrary: st R)
  case (Cons tx txs)
  from Cons.prems(1) obtain st1 where st1: "handle_tx P network cs bt st tx = Inr st1" "foldM (handle_tx P network cs bt) txs st1 = Inr st'"
    by (auto simp: result_simps)
  have "\<exists>R1. commit_inv h C0 J0 R1 (dbCommit (fst st1)) (dbSpent (fst st1)) \<and> chain_frame (fst st) (fst st1) \<and>
      (fst \<circ> snd) ` set R1 \<inter> revealHash P ` set (reveals txs) = {}"
  proof (cases "txType tx = GenerateTx \<and> store_frame (fst st) (fst st1)")
    case True
    then show ?thesis using Cons.prems(4,5) by (intro exI [of _ R]) (simp add: store_frame_def reveals_def)
  next
    case False
    then obtain db1 where db1: "consumeReveal P (fst st) tx = Inr db1" "store_frame db1 (fst st1)" and gen: "txType tx \<noteq> GenerateTx"
      using frame_handle_tx [OF st1(1)] by blast
    then have rv: "reveals (tx # txs) = tx # reveals txs" by (simp add: reveals_def)
    have "txHeight tx = h" using Cons.prems(2) by (simp add: rv)
    then obtain r sender where r: "findCommit (fst st) sender (revealHash P tx) h = Some r" "FullTx_From P tx = Inr sender"
      "dbCommit db1 = bdel (dbCommit (fst st)) (commitKey r (revealHash P tx))"
      "dbSpent db1 = bput (dbSpent (fst st)) (commitKey h (revealHash P tx)) (PackUint64LE r @ sender)" "chain_frame (fst st) db1"
      by (rule consumeReveal_store [OF db1(1) _ assms(3)])
    note fc = findCommit_Some [OF r(1)]
    have len: "length (revealHash P tx) = HashSize" using hash32_length [OF assms(2)] by (simp add: revealHash_def)
    have "commit_inv h C0 J0 ((r, revealHash P tx, sender) # R) (dbCommit db1) (dbSpent db1)"
      unfolding r(3,4)
      by (rule commit_inv_reveal [OF Cons.prems(4) fc(2)])
        (use fc(1) From_length [OF r(2)] len Cons.prems(5) in \<open>auto simp: rv\<close>)
    then show ?thesis using Cons.prems(3,5) db1(2) r(5)
      by (intro exI [of _ "(r, revealHash P tx, sender) # R"]) (auto simp: rv store_frame_def intro: chain_frame_trans)
  qed
  then obtain R1 where R1: "commit_inv h C0 J0 R1 (dbCommit (fst st1)) (dbSpent (fst st1))" "chain_frame (fst st) (fst st1)"
    "(fst \<circ> snd) ` set R1 \<inter> revealHash P ` set (reveals txs) = {}" by blast
  have "\<forall>tx \<in> set (reveals txs). txHeight tx = h" "distinct (map (revealHash P) (reveals txs))"
    using Cons.prems(2,3) by (auto simp: reveals_def split: if_splits)
  from Cons.IH [OF st1(2) this R1(1,3)] R1(2) show ?case using chain_frame_trans by blast
qed auto

lemma updateBeacon_frame: "store_frame db (updateBeacon P cs db b)"
  by (simp add: updateBeacon_def Let_def store_frame_def chain_frame_def)

lemma prune_bucket:
  "bucket_ok b \<Longrightarrow> same_above c b (foldl bdel b (filter (below_cutoff c) (map fst b)))"
  by (auto simp: same_above_def foldl_bdel)

lemma pruneCommits_above:
  assumes "bucket_ok (dbCommit db)" "bucket_ok (dbSpent db)"
  shows "same_above (expiry tip) (dbCommit db) (dbCommit (pruneCommits P db tip))"
    "same_above (expiry tip) (dbSpent db) (dbSpent (pruneCommits P db tip))"
proof -
  have "dbCommit (drop_commits P ks db) = foldl bdel (dbCommit db) ks \<and> dbSpent (drop_commits P ks db) = dbSpent db" for ks db
    unfolding drop_commits_def by (induction ks arbitrary: db) (simp_all add: trie_wrappers)
  then show "same_above (expiry tip) (dbCommit db) (dbCommit (pruneCommits P db tip))"
    "same_above (expiry tip) (dbSpent db) (dbSpent (pruneCommits P db tip))"
    using prune_bucket [OF assms(1)] prune_bucket [OF assms(2)] assms same_above_refl
    by (simp_all add: pruneCommits_def pruneHeightBucketBelow_def Let_def drop_spent expiry_def flip: drop_commits_def)
qed

lemma Upgrade_expires:
  assumes "Upgrade P network archive db b = Inr db'" "below_cutoff (expiry (hdHeight (bkHeader b))) k"
  shows "bget (dbCommit db') k = None"
proof -
  obtain d where db': "db' = pruneCommits P d (hdHeight (bkHeader b))"
    using assms(1) by (auto simp: Upgrade_def Let_def result_simps)
  have "\<not> hdHeight (bkHeader b) \<le> CommitWindow" using assms(2) by (auto simp: expiry_def below_cutoff_def split: option.splits)
  moreover have "k \<in> fst ` set (dbCommit d)" if "bget (dbCommit d) k = Some v" for v
    using that by (force simp: bget_def dest: map_of_SomeD)
  ultimately show ?thesis using assms(2) unfolding db' by (cases "bget (dbCommit d) k")
    (simp_all add: pruneCommits_def pruneHeightBucketBelow_def Let_def drop_spent drop_commits_get expiry_def flip: drop_commits_def)
qed

lemma Upgrade_store:
  assumes "Upgrade P network archive db b = Inr db'" "hash32 (Hash256 P)" "block_heights P b"
    "commit_fresh (hdHeight (bkHeader b)) db" "bucket_ok (dbCommit db)" "bucket_ok (dbSpent db)"
  obtains R C J where "commit_inv (hdHeight (bkHeader b)) (dbCommit db) (dbSpent db) R C J"
    "same_above (expiry (hdHeight (bkHeader b))) C (dbCommit db')" "same_above (expiry (hdHeight (bkHeader b))) J (dbSpent db')" "chain_frame db db'"
proof -
  let ?h = "hdHeight (bkHeader b)"
  define cs where "cs = (if archive then Some ?h else None)"
  obtain db1 db2 gas where u: "handleCommits P cs db b = Inr db1"
    "foldM (handle_tx P network cs (hdTimestamp (bkHeader b))) (bkTxs b) (db1, Some MaxBlockGas) = Inr (db2, gas)"
    "db' = pruneCommits P (updateBeacon P cs db2 b) ?h"
    using assms(1) by (auto simp: Upgrade_def Let_def cs_def HandleTxs_def result_simps)
  note bh = assms(3) [unfolded block_heights_def]
  have 1: "commit_inv ?h (dbCommit db) (dbSpent db) [] (dbCommit db1) (dbSpent db1)" "chain_frame db db1"
    using handleCommits_store [OF u(1) _ commit_inv_start [OF assms(5,6,4)]] bh by blast+
  obtain R where 2: "commit_inv ?h (dbCommit db) (dbSpent db) R (dbCommit db2) (dbSpent db2)" "chain_frame db1 db2"
    using handle_txs_store [OF u(2) assms(2), of ?h "dbCommit db" "dbSpent db" "[]"] bh 1(1) by auto
  let ?d = "updateBeacon P cs db2 b"
  have fr: "dbCommit ?d = dbCommit db2" "dbSpent ?d = dbSpent db2" "chain_frame db2 ?d"
    using updateBeacon_frame [of db2 P cs b] by (simp_all add: store_frame_def)
  have "bucket_ok (dbCommit db2)" "bucket_ok (dbSpent db2)" using 2(1) by (simp_all add: commit_inv_def)
  then have up: "same_above (expiry ?h) (dbCommit db2) (dbCommit db')" "same_above (expiry ?h) (dbSpent db2) (dbSpent db')"
    using pruneCommits_above [of ?d ?h P] by (simp_all add: fr u(3))
  have "chain_frame ?d db'"
    unfolding u(3) chain_frame_def by (simp add: commits_only_frame [OF commits_only_ops(4)])
  then have "chain_frame db db'" using 1(2) 2(2) fr(3) chain_frame_trans by blast
  from that [OF 2(1) up this] show ?thesis .
qed

section \<open>Unwinding blocks\<close>

abbreviation height_of :: "FullBlock \<Rightarrow> u64" where "height_of b \<equiv> hdHeight (bkHeader b)"

text \<open>A state that agrees with another one but for commitments below a cutoff.\<close>

definition restored :: "'p prims_scheme \<Rightarrow> u64 \<Rightarrow> DB \<Rightarrow> DB \<Rightarrow> bool" where
  "restored P c db db' \<longleftrightarrow> same_state db db' \<and> db_inv P db' \<and> same_above c (dbCommit db) (dbCommit db') \<and>
     same_above c (dbSpent db) (dbSpent db')"

text \<open>Nothing of the height is recorded yet.\<close>

definition untouched :: "u64 \<Rightarrow> DB \<Rightarrow> bool" where
  "untouched h db \<longleftrightarrow> unrecorded h db \<and> commit_fresh h db"

lemma Upgrade_tracked:
  assumes "Upgrade P network True db b = Inr db'" "sys_ok P db" "third_ok P" "room (length (bkTxs b)) db" "block_typed b"
    "unrecorded (height_of b) db"
  shows "tracked (height_of b) db db'"
proof -
  have "state_steps P (Some (height_of b)) db db'" using Upgrade_ok [OF assms(1-5)] by (simp add: ok_step_def)
  then show ?thesis
    by (rule tracked_steps) (use assms(2,3,6) in \<open>simp_all add: third_ok_def prims_ok_def sys_ok_def tracked_start db_inv_def\<close>)
qed

lemma consumed_alive: "consumed_ok h C0 R \<Longrightarrow> k \<in> consumed_keys R \<Longrightarrow> \<not> below_cutoff (expiry h) k"
  by (auto simp: consumed_ok_def consumed_keys_def in_window_iff expiry_def split: if_splits)

lemma unwind_block:
  assumes "Upgrade P network True db0 b = Inr db1" "sys_ok P db0" "third_ok P" "room (length (bkTxs b)) db0" "block_typed b"
    "block_heights P b" "untouched (height_of b) db0" "restored P c db1 d" "expiry (height_of b) \<le> c"
  shows "\<exists>d'. unwindHeightTxn P d (height_of b) = Inr d' \<and> restored P c db0 d' \<and> dbCode d' = dbCode d \<and> dbBlocks d' = dbBlocks d \<and>
    (\<forall>k. bget (dbCommit d) k = None \<longrightarrow> below_cutoff (expiry (height_of b)) k \<longrightarrow> bget (dbCommit d') k = None)"
proof -
  let ?h = "height_of b"
  have H: "hash32 (Hash256 P)" and inv0: "db_inv P db0" using assms(2,3) by (simp_all add: third_ok_def prims_ok_def sys_ok_def)
  have un: "unrecorded ?h db0" "commit_fresh ?h db0" using assms(7) by (simp_all add: untouched_def)
  have d: "same_state db1 d" "db_inv P d" "same_above c (dbCommit db1) (dbCommit d)" "same_above c (dbSpent db1) (dbSpent d)"
    using assms(8) by (simp_all add: restored_def)
  have tr: "tracked ?h db0 d"
    by (rule tracked_cong [OF Upgrade_tracked [OF assms(1-5) un(1)]]) (use d(1) in \<open>simp_all add: same_state_def\<close>)
  have ok: "bucket_ok (dbCommit db0)" "bucket_ok (dbSpent db0)" using db_inv_ok [OF inv0] by (simp_all add: db_ok_def)
  obtain R C J where R: "commit_inv ?h (dbCommit db0) (dbSpent db0) R C J"
    "same_above (expiry ?h) C (dbCommit db1)" "same_above (expiry ?h) J (dbSpent db1)" "chain_frame db0 db1"
    by (rule Upgrade_store [OF assms(1) H assms(6) un(2) ok])
  define d3 where "d3 = revertKeys P (revertContracts P (revertBalances P d ?h) ?h) ?h"
  have "same_above c C (dbCommit d3)" "same_above c J (dbSpent d3)"
    using same_above_trans [OF same_above_mono [OF R(2) assms(9)] d(3)] same_above_trans [OF same_above_mono [OF R(3) assms(9)] d(4)] by (simp_all add: d3_def)
  moreover have "\<forall>k. at_prefix ?h k \<longrightarrow> bget (dbCommit db0) k = None \<and> bget (dbSpent db0) k = None"
    using un(2) by (simp add: commit_fresh_def)
  ultimately obtain d5 where d5: "restoreConsumedAtHeight P (deleteCommitsAtHeight P d3 ?h) ?h = Inr d5"
    "same_above c (dbCommit db0) (dbCommit d5)" "same_above c (dbSpent db0) (dbSpent d5)"
    "\<forall>k. bget (dbCommit d3) k = None \<longrightarrow> k \<notin> consumed_keys R \<longrightarrow> bget (dbCommit d5) k = None"
    by (rule unwind_commits [OF R(1), where P = P])
  have lost: "bget (dbCommit d5) k = None" if "bget (dbCommit d) k = None" "below_cutoff (expiry ?h) k" for k
  proof (rule d5(4) [rule_format])
    show "bget (dbCommit d3) k = None" using that(1) by (simp add: d3_def)
    show "k \<notin> consumed_keys R" using R(1) that(2) consumed_alive by (auto simp: commit_inv_def)
  qed
  have u: "unwindHeightTxn P d ?h = Inr (revertBeacon P d5 ?h)"
    using d5(1) by (simp add: unwindHeightTxn_def d3_def result_simps)
  from unwind_tracked [OF u tr un(1) inv0 d(2) H] u d5(2,3) lost show ?thesis by (simp add: restored_def)
qed

lemma at_height_unique: "at_height h k \<Longrightarrow> at_height g k \<Longrightarrow> g = h"
  by (auto simp: at_height_def csKeyOf_append)

lemma hist_at_unique: "hist_at h k \<Longrightarrow> hist_at g k \<Longrightarrow> g = h"
  by (auto simp: hist_at_def histKey_append)

lemma at_prefix_unique: "at_prefix h k \<Longrightarrow> at_prefix g k \<Longrightarrow> g = h"
  by (auto simp: at_prefix_def has_prefix_def)

lemma fresh_other:
  assumes "cs_inv h S0 C0 S C" "fresh g C0" "g \<noteq> h"
  shows "fresh g C"
  unfolding fresh_def
proof (intro allI impI)
  fix k assume k: "at_height g k"
  then have "\<not> at_height h k" using at_height_unique assms(3) by blast
  then have "bget C k = bget C0 k" using assms(1) by (simp add: cs_inv_def)
  then show "bget C k = None" using assms(2) k by (simp add: fresh_def)
qed

lemma hist_fresh_other:
  assumes "hist_inv h H0 H C" "hist_fresh g H0" "g \<noteq> h"
  shows "hist_fresh g H"
  unfolding hist_fresh_def
proof (intro allI impI)
  fix k assume k: "hist_at g k"
  then have "\<not> hist_at h k" using hist_at_unique assms(3) by blast
  then have "bget H k = bget H0 k" using assms(1) by (simp add: hist_inv_def)
  then show "bget H k = None" using assms(2) k by (simp add: hist_fresh_def)
qed

lemma tracked_unrecorded:
  assumes "tracked h db db'" "unrecorded g db" "g \<noteq> h"
  shows "unrecorded g db'"
  using assms fresh_other [of h "dbBal db" "csBal db" "dbBal db'" "csBal db'" g]
    fresh_other [of h "dbContract db" "csContract db" "dbContract db'" "csContract db'" g]
    fresh_other [of h "dbKey db" "csKey db" "dbKey db'" "csKey db'" g]
    hist_fresh_other [of h "histBal db" "histBal db'" "csBal db'" g]
    hist_fresh_other [of h "histContract db" "histContract db'" "csContract db'" g]
  by (simp add: tracked_def unrecorded_def beacon_inv_def PackUint64LE_inject)

lemma Upgrade_untouched:
  assumes "Upgrade P network True db b = Inr db'" "sys_ok P db" "third_ok P" "room (length (bkTxs b)) db" "block_typed b"
    "block_heights P b" "untouched (height_of b) db" "untouched g db" "g \<noteq> height_of b"
  shows "untouched g db'"
proof -
  have H: "hash32 (Hash256 P)" and inv0: "db_inv P db" using assms(2,3) by (simp_all add: third_ok_def prims_ok_def sys_ok_def)
  have ok: "bucket_ok (dbCommit db)" "bucket_ok (dbSpent db)" using db_inv_ok [OF inv0] by (simp_all add: db_ok_def)
  have cf: "commit_fresh (height_of b) db" using assms(7) by (simp add: untouched_def)
  have tr: "tracked (height_of b) db db'" using assms(7) by (intro Upgrade_tracked [OF assms(1-5)]) (simp add: untouched_def)
  have "unrecorded g db'" using assms(8) by (intro tracked_unrecorded [OF tr _ assms(9)]) (simp add: untouched_def)
  moreover obtain R C J where R: "commit_inv (height_of b) (dbCommit db) (dbSpent db) R C J"
    "same_above (expiry (height_of b)) C (dbCommit db')" "same_above (expiry (height_of b)) J (dbSpent db')" "chain_frame db db'"
    by (rule Upgrade_store [OF assms(1) H assms(6) cf ok])
  have "bget (dbCommit db') k = None \<and> bget (dbSpent db') k = None" if "at_prefix g k" for k
  proof -
    have "\<not> at_prefix (height_of b) k" using at_prefix_unique that assms(9) by blast
    then have "bget C k = None" "bget J k = None"
      using R(1) assms(8) that by (auto simp: commit_inv_def untouched_def commit_fresh_def)
    moreover have "bget (dbCommit db') k = None \<or> bget (dbCommit db') k = bget C k" "bget (dbSpent db') k = None \<or> bget (dbSpent db') k = bget J k"
      using R(2,3) by (simp_all add: same_above_def)
    ultimately show ?thesis by auto
  qed
  ultimately show ?thesis by (simp add: untouched_def commit_fresh_def)
qed

text \<open>While a recorder is active the code registry keeps the bytes of every module.\<close>

definition code_kept :: "bucket \<Rightarrow> bucket \<Rightarrow> bool" where
  "code_kept B B' \<longleftrightarrow> (\<forall>h e. bget B h = Some e \<longrightarrow> 8 \<le> length e \<longrightarrow>
     (\<exists>e'. bget B' h = Some e' \<and> 8 \<le> length e' \<and> drop 8 e' = drop 8 e))"

lemma code_kept_refl [simp]: "code_kept B B"
  by (simp add: code_kept_def)

lemma code_kept_trans: "code_kept A B \<Longrightarrow> code_kept B C \<Longrightarrow> code_kept A C"
  unfolding code_kept_def by metis

lemma code_kept_retain: "retainCode db h code = Inr db' \<Longrightarrow> code_kept (dbCode db) (dbCode db')"
  by (auto simp: retainCode_def code_kept_def bucket_simps entry_set split: option.splits)

lemma code_kept_release: "code_kept (dbCode db) (dbCode (releaseCode db h True))"
  by (auto simp: releaseCode_def code_kept_def bucket_simps entry_set split: option.splits)

lemma code_kept_setContract:
  assumes "setContract P (Some h) db ct = Inr db'"
  shows "code_kept (dbCode db) (dbCode db')"
proof -
  obtain db1 where "reconcile_code P (Some h) (recordContract (Some h) db (ctOwner ct)) ct = Inr db1" "dbCode db' = dbCode db1"
    using assms by (auto simp: setContract_def Let_def result_simps trie_wrappers)
  then show ?thesis
    using code_kept_trans [OF code_kept_release [of "recordContract (Some h) db (ctOwner ct)"] code_kept_retain]
      code_kept_retain [of "recordContract (Some h) db (ctOwner ct)"]
    by (auto simp: reconcile_code_def Let_def split: option.splits if_splits)
qed

lemma code_kept_delContract: "code_kept (dbCode db) (dbCode (delContract P (Some h) db a))"
  using code_kept_release [of "recordContract (Some h) db a"]
  by (simp add: delContract_def Let_def trie_wrappers split: option.splits)

lemma code_kept_steps:
  assumes "state_steps P (Some h) db db'"
  shows "code_kept (dbCode db) (dbCode db')"
proof -
  have step: "code_kept (dbCode a) (dbCode b)" if "state_step P (Some h) a b" for a b
    using that
  proof cases
    case (step_setContract ct)
    then show ?thesis by (intro code_kept_setContract)
  qed (simp_all add: code_kept_delContract commits_only_frame [OF commits_only_ops(1)] commits_only_frame [OF commits_only_ops(2)]
      commits_only_frame [OF commits_only_ops(3)] commits_only_frame [OF commits_only_ops(4)])
  from assms [unfolded state_steps_def] show ?thesis
    by (induction rule: rtranclp_induct) (auto intro: code_kept_trans step)
qed

lemma getContract_kept:
  assumes "store_ok P db" "dbContract db' = dbContract db" "code_kept (dbCode db) (dbCode db')"
  shows "getContract P db' a = getContract P db a"
proof (cases "bget (dbContract db) a")
  case (Some raw)
  then obtain sc where sc: "rlpStoredDec P raw = Some sc" using assms(1) by (auto simp: store_ok_def slots_wf_def)
  have "1 \<le> code_uses P (dbContract db) (scCodeHash sc)"
    using assms(1) Some sc by (intro code_uses_pos [of _ a raw]) (simp_all add: store_ok_def code_of_def)
  moreover have reg: "reg_ok P (dbCode db) (code_uses P (dbContract db))" using assms(1) by (simp add: store_ok_def registry_ok_def)
  ultimately obtain e where e: "bget (dbCode db) (scCodeHash sc) = Some e"
    using reg_ok_None [OF reg, of "scCodeHash sc"] by (cases "bget (dbCode db) (scCodeHash sc)") auto
  moreover have "8 \<le> length e" using reg_ok_bget [OF reg e] by simp
  ultimately obtain e' where "bget (dbCode db') (scCodeHash sc) = Some e'" "8 \<le> length e'" "drop 8 e' = drop 8 e"
    using assms(3) by (auto simp: code_kept_def)
  with e \<open>8 \<le> length e\<close> have "loadCode db' (scCodeHash sc) = loadCode db (scCodeHash sc)" by (simp add: loadCode_def)
  with Some sc assms(2) show ?thesis by (simp add: getContract_def decodeStoredContract_def)
qed (simp add: getContract_def assms(2))

section \<open>Sequences of blocks\<close>

text \<open>The application of consecutive blocks on an archive node; between two of them the chain may write its
  own buckets (blocks, transactions, snapshots) and prune receipts.\<close>

inductive applies :: "('i, 'p) vprims_scheme \<Rightarrow> Network \<Rightarrow> DB \<Rightarrow> FullBlock list \<Rightarrow> DB \<Rightarrow> bool"
  for P :: "('i, 'p) vprims_scheme" and network :: Network and db0 :: DB where
  applies_nil: "applies P network db0 [] db0"
| applies_block: "applies P network db0 bs db \<Longrightarrow>
    Upgrade P network True (db\<lparr>dbBlocks := B, dbTxs := T, dbSnapshot := S, dbReceipt := r\<rparr>) b = Inr db' \<Longrightarrow>
    applies P network db0 (bs @ [b]) db'"

text \<open>What the blocks of such a sequence satisfy with respect to the state they start from.\<close>

definition blocks_fit :: "('i, 'p) vprims_scheme \<Rightarrow> DB \<Rightarrow> FullBlock list \<Rightarrow> bool" where
  "blocks_fit P db bs \<longleftrightarrow> sys_ok P db \<and> room (sum_list (map (\<lambda>b. length (bkTxs b)) bs)) db \<and>
     (\<forall>b \<in> set bs. block_typed b \<and> block_heights P b \<and> untouched (height_of b) db) \<and> distinct (map height_of bs)"

lemma chain_write:
  fixes db :: DB and B T S r :: bucket
  defines "db' \<equiv> db\<lparr>dbBlocks := B, dbTxs := T, dbSnapshot := S, dbReceipt := r\<rparr>"
  shows "sys_ok P db' = sys_ok P db" "room n db' = room n db" "untouched h db' = untouched h db" "dbCode db' = dbCode db"
    "restored P c db' d = restored P c db d"
proof -
  have ok: "db_ok db' = db_ok db" by (simp add: db'_def db_ok_def)
  have "db_inv P db'" if "db_inv P db" by (rule db_inv_cong [OF that]) (use db_inv_ok [OF that] ok in \<open>simp_all add: db'_def\<close>)
  moreover have "db_inv P db" if "db_inv P db'" by (rule db_inv_cong [OF that]) (use db_inv_ok [OF that] ok in \<open>simp_all add: db'_def\<close>)
  ultimately have "db_inv P db' = db_inv P db" by blast
  then show "sys_ok P db' = sys_ok P db" using store_ok_cong [of db' db P] by (simp add: sys_ok_def db'_def)
  show "room n db' = room n db" "untouched h db' = untouched h db" "dbCode db' = dbCode db" "restored P c db' d = restored P c db d"
    by (simp_all add: db'_def room_def untouched_def unrecorded_def commit_fresh_def restored_def same_state_def)
qed

lemma applies_ok:
  assumes "applies P network db0 bs db" "third_ok P"
  shows "sys_ok P db0 \<Longrightarrow> room (sum_list (map (\<lambda>b. length (bkTxs b)) bs) + n) db0 \<Longrightarrow>
    \<forall>b \<in> set bs. block_typed b \<and> block_heights P b \<and> untouched (height_of b) db0 \<Longrightarrow> distinct (map height_of bs) \<Longrightarrow>
    sys_ok P db \<and> room n db \<and> code_kept (dbCode db0) (dbCode db) \<and>
    (\<forall>h. untouched h db0 \<longrightarrow> h \<notin> set (map height_of bs) \<longrightarrow> untouched h db)"
  using assms(1)
proof (induction arbitrary: n rule: applies.induct)
  case (applies_block bs db r S T B b db')
  let ?d = "db\<lparr>dbBlocks := B, dbTxs := T, dbSnapshot := S, dbReceipt := r\<rparr>"
  have "room (sum_list (map (\<lambda>b. length (bkTxs b)) bs) + (length (bkTxs b) + n)) db0"
    using applies_block.prems(2) by (simp add: add.assoc)
  from applies_block.IH [OF applies_block.prems(1) this] applies_block.prems(3,4)
  have ih: "sys_ok P ?d" "room (length (bkTxs b) + n) ?d" "code_kept (dbCode db0) (dbCode ?d)"
    "\<And>h. untouched h db0 \<Longrightarrow> h \<notin> set (map height_of bs) \<Longrightarrow> untouched h ?d" unfolding chain_write by auto
  have rm: "room (length (bkTxs b)) ?d" using ih(2) by (simp add: room_def)
  have b: "block_typed b" "block_heights P b" "untouched (height_of b) ?d" using applies_block.prems(3,4) ih(4) by auto
  note ok = Upgrade_ok [OF applies_block.hyps(2) ih(1) assms(2) rm b(1)]
  have "code_kept (dbCode ?d) (dbCode db')" using ok by (intro code_kept_steps [of P "height_of b"]) (simp add: ok_step_def)
  moreover have "untouched h db'" if "untouched h db0" "h \<notin> set (map height_of (bs @ [b]))" for h
    using that ih(4) [of h] by (intro Upgrade_untouched [OF applies_block.hyps(2) ih(1) assms(2) rm b]) auto
  ultimately show ?case using ok_step_sys [OF ok] ok_step_room [OF ok ih(2)] code_kept_trans [OF ih(3)] by blast
qed simp

lemma applies_unwound:
  assumes "applies P network db0 bs db1" "third_ok P"
  shows "blocks_fit P db0 bs \<Longrightarrow> \<forall>b \<in> set bs. expiry (height_of b) \<le> c \<Longrightarrow> restored P c db1 d \<Longrightarrow>
    \<exists>d'. foldM (unwindHeightTxn P) (rev (map height_of bs)) d = Inr d' \<and> restored P c db0 d' \<and>
      dbCode d' = dbCode d \<and> dbBlocks d' = dbBlocks d"
  using assms(1)
proof (induction arbitrary: d rule: applies.induct)
  case (applies_block bs db r S T B b db')
  let ?d = "db\<lparr>dbBlocks := B, dbTxs := T, dbSnapshot := S, dbReceipt := r\<rparr>"
  have fit: "blocks_fit P db0 bs" and b: "block_typed b" "block_heights P b" "untouched (height_of b) db0"
    "height_of b \<notin> set (map height_of bs)"
    using applies_block.prems(1) by (auto simp: blocks_fit_def room_def)
  have "room (sum_list (map (\<lambda>b. length (bkTxs b)) bs) + length (bkTxs b)) db0"
    using applies_block.prems(1) by (simp add: blocks_fit_def add.assoc)
  from applies_ok [OF applies_block.hyps(1) assms(2) _ this] fit b
  have k: "sys_ok P ?d" "room (length (bkTxs b)) ?d" "untouched (height_of b) ?d" unfolding chain_write by (auto simp: blocks_fit_def)
  have "expiry (height_of b) \<le> c" using applies_block.prems(2) by simp
  from unwind_block [OF applies_block.hyps(2) k(1) assms(2) k(2) b(1,2) k(3) applies_block.prems(3) this] obtain d1 where
    d1: "unwindHeightTxn P d (height_of b) = Inr d1" "restored P c db d1" "dbCode d1 = dbCode d" "dbBlocks d1 = dbBlocks d"
    unfolding chain_write by blast
  from applies_block.IH [OF fit _ d1(2)] applies_block.prems(2) obtain d' where
    "foldM (unwindHeightTxn P) (rev (map height_of bs)) d1 = Inr d'" "restored P c db0 d'" "dbCode d' = dbCode d1" "dbBlocks d' = dbBlocks d1"
    by auto
  with d1 show ?case by (simp add: result_simps)
qed simp

section \<open>Blocks whose transactions carry other heights\<close>

text \<open>No rule ties the height of a transaction to its block.  What the changesets record is restored whatever the heights
  are; only the commitments need them.  The rows of the journal can be read back.\<close>

definition spent_wf :: "DB \<Rightarrow> bool" where
  "spent_wf db \<longleftrightarrow> bucket_ok (dbSpent db) \<and> (\<forall>k v. bget (dbSpent db) k = Some v \<longrightarrow> UnpackUint64LE v \<noteq> None)"

definition blocks_sized :: "('i, 'p) vprims_scheme \<Rightarrow> DB \<Rightarrow> FullBlock list \<Rightarrow> bool" where
  "blocks_sized P db bs \<longleftrightarrow> sys_ok P db \<and> spent_wf db \<and> room (sum_list (map (\<lambda>b. length (bkTxs b)) bs)) db \<and>
     (\<forall>b \<in> set bs. block_typed b \<and> unrecorded (height_of b) db) \<and> distinct (map height_of bs)"

lemma spent_wf_bdel: "spent_wf db \<Longrightarrow> dbSpent db' = foldl bdel (dbSpent db) ks \<Longrightarrow> spent_wf db'"
  by (auto simp: spent_wf_def foldl_bdel split: if_splits)

lemma pruneCommits_spent: "\<exists>ks. dbSpent (pruneCommits P db tip) = foldl bdel (dbSpent db) ks"
proof -
  have "dbSpent (drop_commits P ks db) = dbSpent db" for ks db
    unfolding drop_commits_def by (induction ks arbitrary: db) (simp_all add: trie_wrappers)
  then have "dbSpent (pruneCommits P db tip) = (if tip \<le> CommitWindow then foldl bdel (dbSpent db) []
      else foldl bdel (dbSpent db) (filter (below_cutoff (tip - CommitWindow)) (map fst (dbSpent db))))"
    by (simp add: pruneCommits_def pruneHeightBucketBelow_def Let_def drop_spent flip: drop_commits_def)
  then show ?thesis by (metis (full_types))
qed

lemma spent_wf_step:
  assumes "state_step P r db db'" "spent_wf db"
  shows "spent_wf db'"
  using assms(1)
proof cases
  case (step_setContract ct)
  then show ?thesis using assms(2) setContract_effect(5) [of P r db ct db'] by (simp add: spent_wf_def)
next
  case (step_reveal rh h hash sender)
  have "UnpackUint64LE (copy_at 8 sender (copy_at 0 (PackUint64LE h) (zeros (8 + AddressSize)))) \<noteq> None"
    by (simp add: UnpackUint64LE_def copy_at_def AddressSize_def)
  then show ?thesis using assms(2) step_reveal
    by (auto simp: spent_wf_def consumeCommit_def journalConsumed_def Let_def trie_wrappers bucket_simps)
next
  case (step_prune tip)
  then show ?thesis using spent_wf_bdel [OF assms(2)] pruneCommits_spent [of P db tip] by auto
qed (use assms(2) in \<open>simp_all add: spent_wf_def putCommit_def Let_def trie_wrappers\<close>)

lemma spent_wf_steps: "state_steps P r db db' \<Longrightarrow> spent_wf db \<Longrightarrow> spent_wf db'"
  unfolding state_steps_def by (induction rule: rtranclp_induct) (auto intro: spent_wf_step)

lemma unwind_any:
  assumes "Upgrade P network True db0 b = Inr db1" "sys_ok P db0" "third_ok P" "room (length (bkTxs b)) db0" "block_typed b"
    "unrecorded (height_of b) db0" "same_state db1 d" "db_inv P d" "spent_wf d"
  shows "\<exists>d'. unwindHeightTxn P d (height_of b) = Inr d' \<and> same_state db0 d' \<and> db_inv P d' \<and> spent_wf d' \<and>
    dbCode d' = dbCode d \<and> dbBlocks d' = dbBlocks d"
proof -
  let ?h = "height_of b"
  have H: "hash32 (Hash256 P)" and inv0: "db_inv P db0" using assms(2,3) by (simp_all add: third_ok_def prims_ok_def sys_ok_def)
  have tr: "tracked ?h db0 d"
    by (rule tracked_cong [OF Upgrade_tracked [OF assms(1-6)]]) (use assms(7) in \<open>simp_all add: same_state_def\<close>)
  define d4 where "d4 = deleteCommitsAtHeight P (revertKeys P (revertContracts P (revertBalances P d ?h) ?h) ?h) ?h"
  have sp: "dbSpent d4 = dbSpent d" by (simp add: d4_def deleteCommits_effect)
  have "UnpackUint64LE (snd kv) \<noteq> None" if "kv \<in> set (seek_prefix (dbSpent d) (PackUint64LE ?h))" for kv
  proof -
    have "bucket_ok (dbSpent d)" "kv \<in> set (dbSpent d)" using that assms(9) by (auto simp: spent_wf_def seek_prefix_filter)
    then have "bget (dbSpent d) (fst kv) = Some (snd kv)" by (simp add: bget_def bucket_ok_distinct)
    with assms(9) show ?thesis by (auto simp: spent_wf_def)
  qed
  then obtain d5 where d5: "restoreConsumedAtHeight P d4 ?h = Inr d5"
    "dbSpent d5 = foldl bdel (dbSpent d4) (map (\<lambda>kv. commitKey ?h (drop 8 (fst kv))) (seek_prefix (dbSpent d) (PackUint64LE ?h)))"
    using restore_fold [of "seek_prefix (dbSpent d) (PackUint64LE ?h)" P ?h d4] by (auto simp: restoreConsumedAtHeight_def sp)
  have u: "unwindHeightTxn P d ?h = Inr (revertBeacon P d5 ?h)"
    using d5(1) by (simp add: unwindHeightTxn_def d4_def result_simps)
  have "spent_wf (revertBeacon P d5 ?h)" using d5(2) sp by (intro spent_wf_bdel [OF assms(9)]) simp
  with unwind_tracked [OF u tr assms(6) inv0 assms(8) H] u show ?thesis by simp
qed

lemma applies_any:
  assumes "applies P network db0 bs db" "third_ok P"
  shows "sys_ok P db0 \<Longrightarrow> spent_wf db0 \<Longrightarrow> room (sum_list (map (\<lambda>b. length (bkTxs b)) bs) + n) db0 \<Longrightarrow>
    \<forall>b \<in> set bs. block_typed b \<and> unrecorded (height_of b) db0 \<Longrightarrow> distinct (map height_of bs) \<Longrightarrow>
    sys_ok P db \<and> spent_wf db \<and> room n db \<and> code_kept (dbCode db0) (dbCode db) \<and>
    (\<forall>h. unrecorded h db0 \<longrightarrow> h \<notin> set (map height_of bs) \<longrightarrow> unrecorded h db)"
  using assms(1)
proof (induction arbitrary: n rule: applies.induct)
  case (applies_block bs db r S T B b db')
  let ?d = "db\<lparr>dbBlocks := B, dbTxs := T, dbSnapshot := S, dbReceipt := r\<rparr>"
  have un: "unrecorded h ?d = unrecorded h db" "spent_wf ?d = spent_wf db" for h by (simp_all add: unrecorded_def spent_wf_def)
  have "room (sum_list (map (\<lambda>b. length (bkTxs b)) bs) + (length (bkTxs b) + n)) db0"
    using applies_block.prems(3) by (simp add: add.assoc)
  from applies_block.IH [OF applies_block.prems(1,2) this] applies_block.prems(4,5)
  have ih: "sys_ok P ?d" "spent_wf ?d" "room (length (bkTxs b) + n) ?d" "code_kept (dbCode db0) (dbCode ?d)"
    "\<And>h. unrecorded h db0 \<Longrightarrow> h \<notin> set (map height_of bs) \<Longrightarrow> unrecorded h ?d" unfolding chain_write un by auto
  have rm: "room (length (bkTxs b)) ?d" using ih(3) by (simp add: room_def)
  have b: "block_typed b" "unrecorded (height_of b) ?d" using applies_block.prems(4,5) ih(5) by auto
  note ok = Upgrade_ok [OF applies_block.hyps(2) ih(1) assms(2) rm b(1)]
  then have steps: "state_steps P (Some (height_of b)) ?d db'" by (simp add: ok_step_def)
  note tr = Upgrade_tracked [OF applies_block.hyps(2) ih(1) assms(2) rm b]
  have "unrecorded h db'" if "unrecorded h db0" "h \<notin> set (map height_of (bs @ [b]))" for h
    using that ih(5) [of h] by (intro tracked_unrecorded [OF tr]) auto
  then show ?case
    using ok_step_sys [OF ok] ok_step_room [OF ok ih(3)] code_kept_trans [OF ih(4) code_kept_steps [OF steps]] spent_wf_steps [OF steps ih(2)] by blast
qed simp

lemma applies_unwound_any:
  assumes "applies P network db0 bs db1" "third_ok P"
  shows "blocks_sized P db0 bs \<Longrightarrow> same_state db1 d \<Longrightarrow> db_inv P d \<Longrightarrow> spent_wf d \<Longrightarrow>
    \<exists>d'. foldM (unwindHeightTxn P) (rev (map height_of bs)) d = Inr d' \<and> same_state db0 d' \<and> db_inv P d' \<and>
      dbCode d' = dbCode d \<and> dbBlocks d' = dbBlocks d"
  using assms(1)
proof (induction arbitrary: d rule: applies.induct)
  case (applies_block bs db r S T B b db')
  let ?d = "db\<lparr>dbBlocks := B, dbTxs := T, dbSnapshot := S, dbReceipt := r\<rparr>"
  have fit: "blocks_sized P db0 bs" and b: "block_typed b" "unrecorded (height_of b) db0" "height_of b \<notin> set (map height_of bs)"
    using applies_block.prems(1) by (auto simp: blocks_sized_def room_def)
  have un: "unrecorded h ?d = unrecorded h db" "same_state ?d d' = same_state db d'" for h d' by (simp_all add: unrecorded_def same_state_def)
  have "room (sum_list (map (\<lambda>b. length (bkTxs b)) bs) + length (bkTxs b)) db0"
    using applies_block.prems(1) by (simp add: blocks_sized_def add.assoc)
  from applies_any [OF applies_block.hyps(1) assms(2) _ _ this] fit b
  have k: "sys_ok P ?d" "room (length (bkTxs b)) ?d" "unrecorded (height_of b) ?d" unfolding chain_write un by (auto simp: blocks_sized_def)
  from unwind_any [OF applies_block.hyps(2) k(1) assms(2) k(2) b(1) k(3) applies_block.prems(2-4)] obtain d1 where
    d1: "unwindHeightTxn P d (height_of b) = Inr d1" "same_state db d1" "db_inv P d1" "spent_wf d1" "dbCode d1 = dbCode d" "dbBlocks d1 = dbBlocks d"
    unfolding un by blast
  from applies_block.IH [OF fit d1(2-4)] obtain d' where
    "foldM (unwindHeightTxn P) (rev (map height_of bs)) d1 = Inr d'" "same_state db0 d'" "db_inv P d'" "dbCode d' = dbCode d1" "dbBlocks d' = dbBlocks d1"
    by auto
  with d1 show ?case by (simp add: result_simps)
qed simp

section \<open>Reorganising the state\<close>

lemma untouched_leaf: "db_inv P db \<Longrightarrow> x \<notin> set (dbTouched db) \<Longrightarrow> leafValue db (fst x) (snd x) = []"
  by (cases x) (auto simp: db_inv_def trie_sync_def)

lemma StateRoot_leaves:
  assumes "hash32 (Hash256 P)" "db_inv P db" "db_inv P db'" "leafValue db' = leafValue db"
    "inj_on (leaf_path P) (set (dbTouched db) \<union> set (dbTouched db'))"
  shows "StateRoot P db' = StateRoot P db"
proof -
  have inj: "leaf_inj P db" "leaf_inj P db'" using assms(5) by (simp_all add: leaf_inj_def inj_on_Un)
  have leaf: "state_leaves P d (leaf_path P x) = valueHashOf P (leafValue db (fst x) (snd x))"
    if d: "d \<in> {db, db'}" and x: "x \<in> set (dbTouched db) \<union> set (dbTouched db')" for d x
  proof (cases "x \<in> set (dbTouched d)")
    case True
    then show ?thesis using state_leaves_touched [of P d "fst x" "snd x"] d inj assms(4) by auto
  next
    case False
    have "db_inv P d" using d assms(2,3) by auto
    from untouched_leaf [OF this False] have "leafValue db (fst x) (snd x) = []" using d assms(4) by auto
    moreover have "leaf_path P x \<notin> leaf_path P ` set (dbTouched d)" using False d x assms(5) by (auto simp: inj_on_def)
    ultimately show ?thesis by (simp add: state_leaves_other valueHashOf_def ZeroHash_def)
  qed
  have "state_leaves P db' p = state_leaves P db p" for p
  proof (cases "p \<in> leaf_path P ` (set (dbTouched db) \<union> set (dbTouched db'))")
    case True
    then show ?thesis using leaf by auto
  next
    case False
    then show ?thesis using state_leaves_other [of p P db] state_leaves_other [of p P db'] by (simp add: image_Un)
  qed
  then have "state_leaves P db' = state_leaves P db" by blast
  moreover have "represents (Hash256 P) bolt_ops (dbTrie db) (state_leaves P db)"
    "represents (Hash256 P) bolt_ops (dbTrie db') (state_leaves P db')" using assms(2,3) inj by (simp_all add: db_inv_def trie_sync_def)
  ultimately show ?thesis by (simp add: StateRoot_def blt.Root_represents [OF assms(1)])
qed

lemma covers_iff: "changesetCovers db h \<longleftrightarrow> seek_prefix (csBal db) (PackUint64LE h) \<noteq> []"
proof (cases "dropWhile (\<lambda>kv. fst kv < PackUint64LE h) (csBal db)")
  case Nil
  then show ?thesis by (simp only: changesetCovers_def bseek_def seek_prefix_def) simp
next
  case (Cons kv rest)
  then show ?thesis by (cases kv) (simp add: changesetCovers_def bseek_def seek_prefix_def)
qed

text \<open>A height that changed a balance is covered.\<close>

lemma tracked_covers:
  assumes "tracked h db0 db" "bucket_ok (dbBal db0)" "dbBal db \<noteq> dbBal db0"
  shows "changesetCovers db h"
proof (rule ccontr)
  assume no: "\<not> changesetCovers db h"
  have inv: "cs_inv h (dbBal db0) (csBal db0) (dbBal db) (csBal db)" using assms(1) by (simp add: tracked_def)
  then have ok: "bucket_ok (csBal db)" by (simp add: cs_inv_def)
  have "revert_entries (csBal db) h = []" using no by (simp add: covers_iff revert_entries_def)
  from revert_state [OF inv assms(2)] this assms(3) show False by simp
qed

lemma expiry_mono: "h \<le> tip \<Longrightarrow> expiry h \<le> expiry tip"
  unfolding expiry_def CommitWindow_def by (simp, unat_arith)

lemma heights_le: "h \<in> set (heights a b) \<Longrightarrow> h \<le> b"
  by (auto simp: heights_def word_le_nat_alt unat_of_nat intro: order_trans [OF mod_less_eq_dividend])

lemma restored_refl: "db_inv P db \<Longrightarrow> restored P c db (db\<lparr>dbBlocks := B\<rparr>)"
proof -
  assume inv: "db_inv P db"
  have "db_inv P (db\<lparr>dbBlocks := B\<rparr>)" by (rule db_inv_cong [OF inv]) (use db_inv_ok [OF inv] in \<open>simp_all add: db_ok_def\<close>)
  then show ?thesis using db_inv_ok [OF inv] by (simp add: restored_def same_state_def same_above_def db_ok_def)
qed

lemma restored_root:
  assumes "restored P c db db'" "db_inv P db" "hash32 (Hash256 P)" "\<forall>k. below_cutoff c k \<longrightarrow> bget (dbCommit db) k = None"
    "inj_on (leaf_path P) (set (dbTouched db) \<union> set (dbTouched db'))"
  shows "StateRoot P db' = StateRoot P db"
proof -
  have "dbCommit db' = dbCommit db"
  proof (rule bget_ext)
    show "bucket_ok (dbCommit db)" "bucket_ok (dbCommit db')" using assms(1) db_inv_ok [OF assms(2)] by (simp_all add: restored_def same_above_def db_ok_def)
    show "bget (dbCommit db') k = bget (dbCommit db) k" for k using assms(1,4) by (cases "below_cutoff c k") (auto simp: restored_def same_above_def)
  qed
  then have "leafValue db' = leafValue db" using assms(1) by (simp add: restored_def same_state_def leafValue_def fun_eq_iff)
  then show ?thesis using assms(1,2,3,5) by (intro StateRoot_leaves) (simp_all add: restored_def)
qed

lemma expiries:
  assumes "map height_of bs = heights (target + 1) tip"
  shows "\<forall>b \<in> set bs. expiry (height_of b) \<le> expiry tip"
proof
  fix b assume "b \<in> set bs"
  then have "height_of b \<in> set (map height_of bs)" by simp
  then show "expiry (height_of b) \<le> expiry tip" unfolding assms by (intro expiry_mono heights_le)
qed

lemma blocks_sized_fit:
  "blocks_sized P db bs \<Longrightarrow> \<forall>b \<in> set bs. block_heights P b \<and> commit_fresh (height_of b) db \<Longrightarrow> blocks_fit P db bs"
  by (simp add: blocks_sized_def blocks_fit_def untouched_def)


text \<open>A block of the same height as its transactions on top of the example ledger, and a quiet one.\<close>

definition demo_reorg :: FullBlock where
  "demo_reorg = demo_upgrade\<lparr>bkHeader := (bkHeader demo_upgrade)\<lparr>hdHeight := 5\<rparr>\<rparr>"

definition demo_quiet :: FullBlock where
  "demo_quiet = demo_block\<lparr>bkHeader := (bkHeader demo_block)\<lparr>hdHeight := 8\<rparr>, bkTxs := [], bkCommits := []\<rparr>"

lemma demo_untouched: "g \<noteq> 4 \<Longrightarrow> untouched g demo_ledger"
proof -
  assume g: "g \<noteq> 4"
  have ne: "demo_sender \<noteq> []" using From_length [OF demo_tx_vm(2)] by (auto simp: AddressSize_def)
  have steps: "state_steps demo_vm (Some 4) InitDB demo_ledger" unfolding demo_ledger_def
    by (rule state_steps_trans [OF state_steps_step [OF step_balance [OF From_length [OF demo_tx_vm(2)]]] state_steps_step [OF step_commit [OF ne]]])
  have un: "unrecorded h InitDB" for h by (simp add: unrecorded_def InitDB_def fresh_def hist_fresh_def bucket_simps)
  have ok: "db_ok InitDB" by (simp add: InitDB_def db_ok_def bucket_simps)
  have "tracked 4 InitDB demo_ledger"
    by (rule tracked_steps [OF steps _ tracked_start [OF ok un]]) (simp add: hash32_pad32)
  then have "unrecorded g demo_ledger" by (rule tracked_unrecorded [OF _ un g])
  moreover have "commit_fresh g demo_ledger" using g
    by (auto simp: commit_fresh_def demo_ledger_def putCommit_def Let_def trie_wrappers bucket_simps InitDB_def)
  ultimately show ?thesis by (simp add: untouched_def)
qed

lemma demo_reorg_fit: "blocks_fit demo_vm demo_ledger [demo_reorg]"
proof -
  have b: "bkTxs demo_reorg = [demo_generate, demo_tx]" "bkCommits demo_reorg = []" "height_of demo_reorg = 5"
    by (simp_all add: demo_reorg_def demo_upgrade_def demo_block_def NewBlock_def)
  have "block_typed demo_reorg" using demo_upgrade_room(2) by (simp add: block_typed_def demo_reorg_def)
  moreover have "block_heights demo_vm demo_reorg"
    by (simp add: block_heights_def b reveals_def demo_generate_def demo_tx_def tx_type_defs)
  moreover have "room (length (bkTxs demo_reorg)) demo_ledger" using demo_upgrade_room(1) by (simp add: demo_reorg_def)
  ultimately show ?thesis using demo_ledger_ok demo_untouched [of 5] by (simp add: blocks_fit_def b)
qed

lemma demo_reorg_sized:
  "blocks_sized demo_vm demo_ledger [demo_reorg]" "block_heights demo_vm demo_reorg" "commit_fresh (height_of demo_reorg) demo_ledger"
proof -
  have "spent_wf demo_ledger" by (simp add: spent_wf_def demo_ledger_def putCommit_def Let_def trie_wrappers InitDB_def bucket_simps)
  then show "blocks_sized demo_vm demo_ledger [demo_reorg]" "block_heights demo_vm demo_reorg" "commit_fresh (height_of demo_reorg) demo_ledger"
    using demo_reorg_fit by (simp_all add: blocks_fit_def blocks_sized_def untouched_def)
qed

lemma demo_reorg_applied:
  obtains db1 where "applies demo_vm ZERONET demo_ledger [demo_reorg] db1" "changesetCovers db1 5"
proof -
  have b: "bkTxs demo_reorg = [demo_generate, demo_tx]" "bkCommits demo_reorg = []" "height_of demo_reorg = 5"
    by (simp_all add: demo_reorg_def demo_upgrade_def demo_block_def NewBlock_def)
  obtain db1 where db1: "Upgrade demo_vm ZERONET True demo_ledger demo_reorg = Inr db1" using demo_block_applies [OF b(1,2)] by blast
  have fit: "sys_ok demo_vm demo_ledger" "room (length (bkTxs demo_reorg)) demo_ledger" "block_typed demo_reorg" "unrecorded 5 demo_ledger"
    using demo_reorg_fit by (simp_all add: blocks_fit_def untouched_def b(3))
  have "totalSupply db1 = totalSupply demo_ledger + block_supply demo_reorg"
    using Upgrade_ok [OF db1 fit(1) demo_vm_ok fit(2,3)] by (simp add: ok_step_def)
  moreover have "block_supply demo_reorg = 7"
    by (simp add: block_supply_def b tx_supply_def demo_generate_def demo_tx_def tx_type_defs)
  ultimately have "dbBal db1 \<noteq> dbBal demo_ledger" by (auto simp: totalSupply_def)
  moreover have "tracked 5 demo_ledger db1" using Upgrade_tracked [OF db1 fit(1) demo_vm_ok fit(2,3)] fit(4) by (simp add: b(3))
  ultimately have cov: "changesetCovers db1 5" using tracked_covers [OF _ sys_bal [OF fit(1)]] by simp
  have "demo_ledger\<lparr>dbBlocks := dbBlocks demo_ledger, dbTxs := dbTxs demo_ledger, dbSnapshot := dbSnapshot demo_ledger,
      dbReceipt := dbReceipt demo_ledger\<rparr> = demo_ledger" by simp
  then have "Upgrade demo_vm ZERONET True (demo_ledger\<lparr>dbBlocks := dbBlocks demo_ledger, dbTxs := dbTxs demo_ledger,
      dbSnapshot := dbSnapshot demo_ledger, dbReceipt := dbReceipt demo_ledger\<rparr>) demo_reorg = Inr db1" using db1 by simp
  from applies_block [OF applies_nil this] have "applies demo_vm ZERONET demo_ledger [demo_reorg] db1" by simp
  then show ?thesis using that cov by blast
qed




end
