(* ===== verification/Forkchoice.thy ===== *)
theory Forkchoice
  imports Canonical Reorg
begin

text \<open>
  The node.  The operations of the state leave the block store alone and end at the committed state root, so an import
  either leaves the canonical chain, extends it, or replaces a suffix of it by a branch the fork choice
  prefers; the state always belongs to the tip.
\<close>

section \<open>Definitions\<close>

definition on_tip :: "('i, 'p) nprims_scheme \<Rightarrow> (bytes \<Rightarrow> FullBlock) \<Rightarrow> Chain \<Rightarrow> FullBlock list \<Rightarrow> bool" where
  "on_tip P blk ch bs \<longleftrightarrow> store_inv P blk (dbBlocks (chDB ch)) bs \<and> StateRoot P (chDB ch) = hdStateRoot (bkHeader (last bs))"

text \<open>The chain \<open>bs'\<close> wins against \<open>bs\<close>: more total work, or as much and a smaller tip hash.\<close>

definition wins :: "'p prims_scheme \<Rightarrow> (bytes \<Rightarrow> FullBlock) \<Rightarrow> FullBlock list \<Rightarrow> FullBlock list \<Rightarrow> bool" where
  "wins P blk bs' bs \<longleftrightarrow>
     (let w' = chain_work blk (hd bs) (last bs'); w = chain_work blk (hd bs) (last bs)
      in w < w' \<or> w = w' \<and> Block_GetHash P (last bs') < Block_GetHash P (last bs))"

section \<open>The state leaves the block store alone\<close>

lemma chain_foldM:
  assumes "foldM f xs db = Inr db'" "\<And>x db db'. x \<in> set xs \<Longrightarrow> f db x = Inr db' \<Longrightarrow> chain_frame db db'"
  shows "chain_frame db db'"
  by (rule foldM_invariant [OF assms(1), of "chain_frame db"]) (auto intro: chain_frame_trans assms(2))

lemma commits_chain: "commits_only db db' \<Longrightarrow> chain_frame db db'"
  by (simp add: chain_frame_def commits_only_frame)

lemma chain_handle_tx:
  assumes "handle_tx P network cs bt st tx = Inr st'"
  shows "chain_frame (fst st) (fst st')"
proof -
  have "chain_frame db db1" if "consumeReveal P db tx = Inr db1" for db db1
    using that by (auto simp: consumeReveal_def Let_def result_simps split: if_splits option.splits
        intro!: commits_chain commits_only_trans [OF commits_only_ops(3) commits_only_ops(2)])
  then show ?thesis using frame_handle_tx [OF assms] chain_frame_trans store_chain_frame by blast
qed

lemma chain_Upgrade:
  assumes "Upgrade P network archive db b = Inr db'"
  shows "chain_frame db db'"
proof -
  define cs where "cs = (if archive then Some (hdHeight (bkHeader b)) else None)"
  obtain db1 db2 gas where u: "handleCommits P cs db b = Inr db1"
    "foldM (handle_tx P network cs (hdTimestamp (bkHeader b))) (bkTxs b) (db1, Some MaxBlockGas) = Inr (db2, gas)"
    and db': "db' = pruneCommits P (updateBeacon P cs db2 b) (hdHeight (bkHeader b))"
    using assms by (auto simp: Upgrade_def HandleTxs_def Let_def cs_def result_simps)
  have 1: "chain_frame db db1" using u(1) handle_commit_store(3) unfolding handleCommits_def by (rule chain_foldM)
  have 2: "chain_frame db1 db2"
    using foldM_invariant [OF u(2), of "\<lambda>st. chain_frame db1 (fst st)"] chain_handle_tx chain_frame_trans by fastforce
  have 3: "chain_frame db2 db'"
    unfolding db' by (rule chain_frame_trans [OF store_chain_frame [OF updateBeacon_frame] commits_chain [OF commits_only_ops(4)]])
  show ?thesis by (rule chain_frame_trans [OF 1 chain_frame_trans [OF 2 3]])
qed

lemma apply_checked_Inr:
  assumes "apply_checked P network archive db b = Inr db'"
  shows "chain_frame db db'" "StateRoot P db' = hdStateRoot (bkHeader b)"
  using assms by (auto simp: apply_checked_def result_simps CheckStateRoot_def split: if_splits intro: chain_Upgrade)

text \<open>Applying a branch ends at the root its last block commits to.\<close>

lemma ApplyBlocks_root:
  assumes "ApplyBlocksTxn P network archive db blocks = Inr db'" "blocks \<noteq> []"
  shows "chain_frame db db'" "StateRoot P db' = hdStateRoot (bkHeader (last blocks))"
proof -
  show "chain_frame db db'" using assms(1) apply_checked_Inr(1) unfolding ApplyBlocksTxn_def by (rule chain_foldM)
  have "foldM (apply_checked P network archive) (butlast blocks @ [last blocks]) db = Inr db'"
    using assms by (simp add: ApplyBlocksTxn_def)
  then obtain d where "apply_checked P network archive d (last blocks) = Inr db'"
    unfolding foldM_append by (auto simp: bind_result_Inr_iff)
  then show "StateRoot P db' = hdStateRoot (bkHeader (last blocks))" by (rule apply_checked_Inr)
qed

lemma chain_RebuildTrie:
  assumes "RebuildTrie P db = Inr db'"
  shows "chain_frame db db'"
proof -
  have leaf: "chain_frame d d'" if "rebuild_leaf P d row = Inr d'" for d d' row
    using that by (auto simp: rebuild_leaf_def Let_def chain_frame_def result_simps split: prod.splits sum.splits)
  have rows: "chain_frame d d'" if "foldM (rebuild_leaf P) xs d = Inr d'" for d d' xs using that leaf by (rule chain_foldM)
  show ?thesis using rows [OF assms [unfolded RebuildTrie_rows]] by (simp add: chain_frame_def)
qed

lemma chain_initFromSheet:
  assumes "initFromSheet P db sheet = Inr db'"
  shows "chain_frame db db'"
proof -
  obtain d where d: "foldM (setContract P None) (shContracts sheet) db = Inr d"
    using assms unfolding initFromSheet_def bind_result_Inr_iff by blast
  have fr: "chain_frame d db'" using assms by (simp add: initFromSheet_def d Let_def chain_frame_def split: if_splits) auto
  have "chain_frame db d" using d store_chain_frame [OF frame_setContract] by (rule chain_foldM)
  then show ?thesis using fr by (rule chain_frame_trans)
qed

lemma chain_RebuildFromSheet:
  assumes "RebuildFromSheetTxn P db sheet = Inr db'"
  shows "chain_frame db db'"
proof -
  obtain d where d: "initFromSheet P (reset_state db) sheet = Inr d" "RebuildTrie P d = Inr db'"
    using assms by (auto simp: RebuildFromSheetTxn_def result_simps)
  have "chain_frame db (reset_state db)" by (simp add: reset_state_def chain_frame_def)
  then show ?thesis using chain_initFromSheet [OF d(1)] chain_RebuildTrie [OF d(2)] chain_frame_trans by blast
qed

text \<open>A replay of the stored chain ends at the root of its tip.\<close>

lemma replay_root:
  assumes re: "RebuildFromBlockStoreTxn P network archive db = Inr db'" and inv: "store_inv P blk (dbBlocks db) bs"
  shows "chain_frame db db'" "StateRoot P db' = hdStateRoot (bkHeader (last bs))"
proof -
  let ?f = "replay_block P network archive"
  obtain sheet d0 d1 where d: "initFromSheet P ((reset_state db)\<lparr>dbReceipt := bempty\<rparr>) sheet = Inr d0" "RebuildTrie P d0 = Inr d1"
    and tip: "bind_result (GetLatestHeight (dbBlocks d1)) (\<lambda>latestHeight. foldM ?f (heights 0 latestHeight) d1) = Inr db'"
    using re by (auto simp: RebuildFromBlockStoreTxn_def Let_def result_simps)
  have fr1: "chain_frame db d1"
    using chain_initFromSheet [OF d(1)] chain_RebuildTrie [OF d(2)] by (simp add: chain_frame_def reset_state_def)
  then have "GetLatestHeight (dbBlocks d1) = Inr (height (last bs))" using GetTags(1) [OF inv] by (simp add: chain_frame_def)
  then have fold: "foldM ?f (heights 0 (height (last bs))) d1 = Inr db'" using tip by simp
  have step: "chain_frame d d'" if "?f d h = Inr d'" for d d' h
    using that by (auto simp: replay_block_def result_simps intro: apply_checked_Inr)
  have fr2: "chain_frame d1 db'" using fold step by (rule chain_foldM)
  show "chain_frame db db'" using fr1 fr2 by (rule chain_frame_trans)
  obtain hs where hs: "heights 0 (height (last bs)) = hs @ [height (last bs)]" by (simp add: heights_def)
  obtain d where pre: "foldM ?f hs d1 = Inr d" and lst: "?f d (height (last bs)) = Inr db'"
    using fold unfolding hs foldM_append by (auto simp: bind_result_Inr_iff)
  have "chain_frame d1 d" using pre step by (rule chain_foldM)
  then have "GetBlockByHeight P (dbBlocks d) (height (last bs)) = Inr (last bs)"
    using fr1 GetBlockByHeight_chain(1) [OF inv] inv_parts(2) [OF inv] by (simp add: chain_frame_def)
  then show "StateRoot P db' = hdStateRoot (bkHeader (last bs))" using lst by (auto simp: replay_block_def intro: apply_checked_Inr)
qed

lemma unwind_blocks:
  assumes "unwindHeightTxn P db h = Inr db'"
  shows "dbBlocks db' = dbBlocks db"
proof -
  let ?d = "deleteCommitsAtHeight P (revertKeys P (revertContracts P (revertBalances P db h) h) h) h"
  obtain d where d: "restoreConsumedAtHeight P ?d h = Inr d" and db': "db' = revertBeacon P d h"
    using assms by (auto simp: unwindHeightTxn_def Let_def result_simps)
  have "dbBlocks d = dbBlocks ?d"
    by (rule foldM_invariant [OF d [unfolded restoreConsumedAtHeight_def], of "\<lambda>x. dbBlocks x = dbBlocks ?d"])
      (auto simp: Let_def commits_only_frame [OF commits_only_ops(1)] split: option.splits)
  then show ?thesis by (simp add: db' commits_only_frame(13) [OF commits_only_ops(5)])
qed

lemma UnwindToTxn_blocks:
  assumes "UnwindToTxn P archive db target = Inr (db', u)"
  shows "dbBlocks db' = dbBlocks db"
proof -
  consider "db' = db" | d hs where "foldM (unwindHeightTxn P) hs db = Inr d" "db' = deleteReceiptsAboveTxn P d target"
    using assms by (auto simp: UnwindToTxn_def result_simps split: if_splits)
  then show ?thesis
  proof cases
    case (2 d hs)
    have "dbBlocks d = dbBlocks db"
      by (rule foldM_invariant [OF 2(1), of "\<lambda>x. dbBlocks x = dbBlocks db"]) (auto dest: unwind_blocks)
    then show ?thesis by (simp add: 2(2) deleteReceiptsAboveTxn_def)
  qed simp
qed

section \<open>Transactions of the node\<close>

lemma txn_bind_Inr: "txn_bind m f ch = (ch', Inr y) \<longleftrightarrow> (\<exists>c x. m ch = (c, Inr x) \<and> f x c = (ch', Inr y))"
  by (auto simp: txn_bind_def split: prod.splits sum.splits)

lemma txn_read_Inr: "txn_read f ch = (ch', Inr y) \<longleftrightarrow> ch' = ch \<and> f (chDB ch) = Inr y"
  by (auto simp: txn_read_def)

lemma txn_write_Inr: "txn_write f ch = (ch', Inr y) \<longleftrightarrow> (\<exists>db. f (chDB ch) = Inr (db, y) \<and> ch' = ch\<lparr>chDB := db\<rparr>)"
  by (auto simp: txn_write_def split: sum.splits)

lemma txn_ret_Inr: "txn_ret x ch = (ch', Inr y) \<longleftrightarrow> ch' = ch \<and> y = x"
  by (auto simp: txn_ret_def)

lemma db_state_Inr: "db_state f db = Inr (db', y) \<longleftrightarrow> f db = Inr db'"
  by (auto simp: db_state_def bind_result_Inr_iff)

lemma db_store_Inr:
  "db_store f db = Inr (db', y) \<longleftrightarrow> (\<exists>b t. f (dbBlocks db) (dbTxs db) = Inr (b, t) \<and> db' = db\<lparr>dbBlocks := b, dbTxs := t\<rparr>)"
  by (auto simp: db_store_def bind_result_Inr_iff)

lemma db_work_Inr:
  "db_work P block db = Inr (db', w) \<longleftrightarrow> (\<exists>b. cumulativeWork P (dbBlocks db) block = Inr (b, w) \<and> db' = db\<lparr>dbBlocks := b\<rparr>)"
  by (auto simp: db_work_def bind_result_Inr_iff)

lemmas txn_simps = txn_bind_Inr txn_read_Inr txn_write_Inr txn_ret_Inr db_state_Inr db_store_Inr db_work_Inr

text \<open>The upkeep of a checkpoint keeps the chain and the state.\<close>

lemma upkeep_keeps:
  assumes up: "checkpoint_upkeep P b ch = (ch', Inr ())" and tip: "on_tip P blk ch bs" and H: "hash32 (Hash256 P)"
  shows "on_tip P blk ch' bs"
proof (cases "IsHead b")
  case True
  let ?g = "\<lambda>db. if chArchive ch then db
    else (PruneReceiptsTxn P db (height b))\<lparr>dbTxs := PruneAddrTxIndexTxn (dbTxs db) (ReceiptFloor (height b))\<rparr>"
  obtain c B n where c: "chain_snapshot P ch = (c, Inr ())"
    and pr: "PruneSideBlocks (dbBlocks (?g (chDB c))) (sideBlockPruneHeight (height b)) = Inr (B, n)"
    and ch': "ch' = c\<lparr>chDB := (?g (chDB c))\<lparr>dbBlocks := B\<rparr>\<rparr>"
    using up True unfolding checkpoint_upkeep_def Let_def by (auto simp: txn_simps bind_result_Inr_iff simp del: if_split)
  define d where "d = ?g (chDB c)"
  have d: "dbBlocks d = dbBlocks (chDB c)" "dbTrie d = dbTrie (chDB c)" by (simp_all add: d_def PruneReceiptsTxn_def)
  have "dbBlocks (chDB c) = dbBlocks (chDB ch)" "dbTrie (chDB c) = dbTrie (chDB ch)"
    using c by (auto simp: chain_snapshot_def GenerateSnapshotTxn_def PutSnapshotTxn_def Let_def bind_result_Inr_iff split: sum.splits)
  then show ?thesis using tip inv_prune [OF _ H pr [folded d_def], of blk bs]
    by (simp add: on_tip_def ch' d_def [symmetric] d StateRoot_def)
next
  case False
  then show ?thesis using up tip by (simp add: checkpoint_upkeep_def)
qed

section \<open>Importing\<close>

text \<open>Switching to a branch: the state ends at the root of the new tip on either path, unwinding or replay.\<close>

lemma switch_tip:
  assumes sw: "switchToBranchTxn P branch ch = (ch', Inr ())" and inv: "store_inv P blk (dbBlocks (chDB ch)) bs"
    and H: "hash32 (Hash256 P)" and adm: "\<forall>b \<in> set branch. admissible P blk b"
  shows "\<exists>pre post. bs = pre @ post \<and> pre \<noteq> [] \<and> height (hd branch) = height (last pre) + 1 \<and> on_tip P blk ch' (pre @ branch)"
proof -
  have ne: "branch \<noteq> []" using sw by (auto simp: switchToBranchTxn_def)
  let ?fork = "height (hd branch) - 1"
  obtain c1 c2 c3 c4 c5 u where c: "collect_removed P ?fork ch = (c1, Inr ())"
    "txn_write (\<lambda>db. UnwindToTxn P (chArchive ch) db ?fork) c1 = (c2, Inr u)"
    "txn_write (db_store (\<lambda>b t. Blocks.SwitchToBranch P b t branch)) c2 = (c3, Inr ())"
    "txn_write (db_state (\<lambda>db. if u then ApplyBlocksTxn P (chNetwork ch) (chArchive ch) db branch
        else RebuildFromBlockStoreTxn P (chNetwork ch) (chArchive ch) db)) c3 = (c4, Inr ())"
    "checkpoint_upkeep P (last branch) c4 = (c5, Inr ())" "collect_added P ?fork (height (last branch)) c5 = (ch', Inr ())"
    using sw ne by (auto simp: switchToBranchTxn_def Let_def txn_bind_Inr)
  have 1: "chDB c1 = chDB ch" using c(1) by (auto simp: collect_removed_def bind_result_Inr_iff split: sum.splits if_splits)
  have 2: "dbBlocks (chDB c2) = dbBlocks (chDB c1)" using c(2) by (auto simp: txn_write_Inr dest: UnwindToTxn_blocks)
  obtain B T where st: "Blocks.SwitchToBranch P (dbBlocks (chDB c2)) (dbTxs (chDB c2)) branch = Inr (B, T)"
    and 3: "dbBlocks (chDB c3) = B" using c(3) by (auto simp: txn_simps)
  have inv2: "store_inv P blk (dbBlocks (chDB c2)) bs" using inv 1 2 by simp
  obtain pre post where pre: "bs = pre @ post" "pre \<noteq> []" "height (hd branch) = height (last pre) + 1"
    "store_inv P blk B (pre @ branch)"
    using inv_switch [OF inv2 H adm st] by blast
  have "chain_frame (chDB c3) (chDB c4)" "StateRoot P (chDB c4) = hdStateRoot (bkHeader (last branch))"
    using c(4) ApplyBlocks_root [OF _ ne] replay_root [of P _ _ _ _ blk "pre @ branch"] pre(4) 3 ne
    by (auto simp: txn_simps split: if_splits)
  then have "on_tip P blk c4 (pre @ branch)" using pre(4) 3 ne by (simp add: on_tip_def chain_frame_def)
  then have "on_tip P blk c5 (pre @ branch)" by (rule upkeep_keeps [OF c(5) _ H])
  moreover have "chDB ch' = chDB c5" using c(6) by (auto simp: collect_added_def split: if_splits sum.splits)
  ultimately show ?thesis using pre(1-3) by (auto simp: on_tip_def)
qed

lemma extend_tip_ok:
  assumes ex: "extend_tip P now b ch = (ch', Inr moved)" and inv: "store_inv P blk (dbBlocks (chDB ch)) bs"
    and H: "hash32 (Hash256 P)" and adm: "admissible P blk b" and prev: "prev_hash b = Block_GetHash P (last bs)"
  shows "on_tip P blk ch' (bs @ [b])" "moved"
proof -
  obtain c1 c2 c3 w where c: "txn_write (db_store (\<lambda>x t. PutNewBlock P x t b)) ch = (c1, Inr ())"
    "txn_write (db_work P b) c1 = (c2, Inr w)" "txn_write (db_state (\<lambda>db. Upgrade P (chNetwork ch) (chArchive ch) db b)) c2 = (c3, Inr ())"
    "CheckStateRoot P (chDB c3) (hdStateRoot (bkHeader b)) = Inr ()" "checkpoint_upkeep P b c3 = (ch', Inr ())" "moved"
    using ex by (auto simp: extend_tip_def txn_bind_Inr txn_read_Inr txn_ret_Inr)
  obtain B T where B: "PutNewBlock P (dbBlocks (chDB ch)) (dbTxs (chDB ch)) b = Inr (B, T)" "dbBlocks (chDB c1) = B"
    using c(1) by (auto simp: txn_simps)
  have i1: "store_inv P blk B (bs @ [b])" by (rule inv_append(1) [OF inv H adm B(1) prev])
  obtain B2 where B2: "cumulativeWork P B b = Inr (B2, w)" "dbBlocks (chDB c2) = B2" using c(2) B(2) by (auto simp: txn_simps)
  have body: "body_ok P blk (hd (bs @ [b])) b" by (rule chain_body(1) [OF i1]) simp
  have i2: "store_inv P blk B2 (bs @ [b])" by (rule inv_work(1) [OF i1 H body B2(1)])
  have "dbBlocks (chDB c3) = B2" using c(3) B2(2) by (auto simp: txn_simps chain_frame_def dest!: chain_Upgrade)
  then have "on_tip P blk c3 (bs @ [b])" using i2 c(4) by (simp add: on_tip_def CheckStateRoot_def split: if_splits)
  then show "on_tip P blk ch' (bs @ [b])" by (rule upkeep_keeps [OF c(5) _ H])
  show "moved" by (rule c(6))
qed

lemma child_of:
  assumes pb: "body_ok P blk o' p" and adm: "admissible P blk b" and link: "prev_hash b = Block_GetHash P p" "height b = height p + 1"
  shows "body_ok P blk o' b" "chain_work blk o' b = chain_work blk o' p + workOf b"
proof -
  have p: "blk (prev_hash b) = p" using body_named [OF pb] link(1) by simp
  then have hp: "has_parent P blk b" using link by (simp add: has_parent_def)
  have "height p < 2 ^ 37" "height o' \<le> height p" using pb by (auto simp: body_ok_def admissible_def)
  then have lt: "height o' < height b" using link(2) by (simp add: word_le_nat_alt word_less_nat_alt unat_word_ariths)
  then show "body_ok P blk o' b" using adm hp by (simp add: body_ok_def)
  show "chain_work blk o' b = chain_work blk o' p + workOf b" using chain_work_step [OF hp lt] p by simp
qed

lemma stored_parent:
  assumes "store_inv P blk B bs" "hash32 (Hash256 P)" "GetBlockByHash P B (prev_hash b) = Inr p" "prev_hash b = Block_GetHash P p"
  shows "body_ok P blk (hd bs) p"
  using GetBlockByHash_Inr(2) [OF assms(1) _ assms(3)] hash_length [OF assms(2), of p] assms(4) by simp

lemma branch_walk_bodies:
  assumes inv: "store_inv P blk B bs" and H: "hash32 (Hash256 P)"
  shows "branch_walk n P B oh cur acc = Inr branch \<Longrightarrow> body_ok P blk (hd bs) cur \<Longrightarrow>
    \<exists>xs. branch = xs @ acc \<and> (xs \<noteq> [] \<longrightarrow> last xs = cur) \<and> (\<forall>b \<in> set xs. body_ok P blk (hd bs) b)"
proof (induction n arbitrary: cur acc)
  case (Suc n)
  show ?case
  proof (cases "isCanonical P B cur")
    case False
    have "cur \<noteq> hd bs" using False chain_index [OF inv, of "hd bs"] inv_parts(2) [OF inv] by (auto simp: isCanonical_def)
    then have hp: "has_parent P blk cur" using Suc.prems(2) by (simp add: body_ok_def)
    show ?thesis
    proof (cases "height cur \<le> oh + 1")
      case True
      then have "branch = [cur] @ acc"
        using Suc.prems(1) False by (auto simp: Let_def bind_result_Inr_iff split: if_splits)
      then show ?thesis using Suc.prems(2) by (intro exI [of _ "[cur]"]) simp
    next
      case deep: False
      then obtain p where p: "GetBlockByHash P B (prev_hash cur) = Inr p" "branch_walk n P B oh p (cur # acc) = Inr branch"
        using Suc.prems(1) False by (auto simp: Let_def bind_result_Inr_iff)
      obtain xs where xs: "branch = xs @ cur # acc" "\<forall>b \<in> set xs. body_ok P blk (hd bs) b"
        using Suc.IH [OF p(2) GetBlockByHash_Inr(2) [OF inv parent_length [OF H hp] p(1)]] by blast
      then show ?thesis using Suc.prems(2) by (intro exI [of _ "xs @ [cur]"]) auto
    qed
  qed (use Suc.prems in simp)
qed simp

lemma collectBranch_bodies:
  assumes "collectBranch P B b = Inr branch" "branch \<noteq> []" "store_inv P blk B bs" "hash32 (Hash256 P)" "body_ok P blk (hd bs) b"
  shows "last branch = b" "\<forall>x \<in> set branch. admissible P blk x"
proof -
  obtain oh where "branch_walk walk_fuel P B oh b [] = Inr branch" using assms(1) by (auto simp: collectBranch_def bind_result_Inr_iff)
  from branch_walk_bodies [OF assms(3,4) this assms(5)] assms(2)
  show "last branch = b" "\<forall>x \<in> set branch. admissible P blk x" by (auto simp: body_ok_def)
qed

text \<open>A side block is only stored, or the node switches to its branch: because the branch wins, and only above the
  finality line.\<close>

lemma side_block_ok:
  assumes sb: "side_block P now b ch = (ch', Inr moved)" and tip: "on_tip P blk ch bs"
    and H: "hash32 (Hash256 P)" and adm: "admissible P blk b"
  shows "\<not> moved \<and> on_tip P blk ch' bs \<or>
    moved \<and> (\<exists>pre post branch. bs = pre @ post \<and> pre \<noteq> [] \<and> branch \<noteq> [] \<and> on_tip P blk ch' (pre @ branch) \<and>
      wins P blk (pre @ branch) bs \<and> finalityHeight (height (last bs)) \<le> height (last pre))"
proof -
  have inv: "store_inv P blk (dbBlocks (chDB ch)) bs" using tip by (simp add: on_tip_def)
  obtain p c1 c2 c3 w tipw t where
    p: "GetBlockByHash P (dbBlocks (chDB ch)) (prev_hash b) = Inr p"
       "checkBranchBlock P now (storeGetBlock P (dbBlocks (chDB ch))) b p = Inr ()"
    and c1: "c1 = ch\<lparr>chDB := (chDB ch)\<lparr>dbBlocks := PutSideBlock P (dbBlocks (chDB ch)) b\<rparr>\<rparr>"
    and c2: "txn_write (db_work P b) c1 = (c2, Inr w)" and t: "GetLatestBlock P (dbBlocks (chDB c2)) = Inr t"
    and c3: "txn_write (db_work P t) c2 = (c3, Inr tipw)"
    and rest: "(if loses w (Block_GetHash P b) tipw (Block_GetHash P t) then txn_ret False
       else txn_bind (txn_read (\<lambda>db. collectBranch P (dbBlocks db) b)) (\<lambda>branch.
            if branch = [] then (\<lambda>ch. (ch, Inl Panic))
            else if height (hd branch) - 1 < finalityHeight (height t)
            then (\<lambda>ch. (ch, Inl ErrReorgBeyondFinality))
            else txn_bind (switchToBranchTxn P branch) (\<lambda>_. txn_ret True))) c3 = (ch', Inr moved)"
    using sb unfolding side_block_def by (auto simp: txn_bind_Inr txn_read_Inr txn_write_Inr db_state_Inr split: sum.splits)
  have link: "height b = height p + 1" "prev_hash b = Block_GetHash P p"
    using p(2) by (auto simp: checkBranchBlock_def bind_result_Inr_iff split: if_splits)
  note body = child_of(1) [OF stored_parent [OF inv H p(1) link(2)] adm link(2,1)]
  have i1: "store_inv P blk (dbBlocks (chDB c1)) bs" using inv_side [OF inv H body] by (simp add: c1)
  have w: "store_inv P blk (dbBlocks (chDB c2)) bs" "w = chain_work blk (hd bs) b" "dbTrie (chDB c2) = dbTrie (chDB c1)"
    using c2 inv_work [OF i1 H body] by (auto simp: txn_simps)
  have tl: "t = last bs" using t GetTags(5) [OF w(1)] by simp
  have "body_ok P blk (hd bs) t" unfolding tl by (rule chain_body(1) [OF w(1)]) (simp add: inv_parts(2) [OF inv])
  then have tw: "store_inv P blk (dbBlocks (chDB c3)) bs" "tipw = chain_work blk (hd bs) t" "dbTrie (chDB c3) = dbTrie (chDB c2)"
    using c3 inv_work [OF w(1) H] by (auto simp: txn_simps)
  show ?thesis
  proof (cases "loses w (Block_GetHash P b) tipw (Block_GetHash P t)")
    case True
    then show ?thesis using rest tw tip w(3) by (auto simp: txn_ret_Inr on_tip_def StateRoot_def c1)
  next
    case False
    then obtain branch where br: "collectBranch P (dbBlocks (chDB c3)) b = Inr branch" "branch \<noteq> []"
      "\<not> height (hd branch) - 1 < finalityHeight (height t)" "switchToBranchTxn P branch c3 = (ch', Inr ())" "moved"
      using rest by (auto simp: txn_simps split: if_splits)
    note cb = collectBranch_bodies [OF br(1,2) tw(1) H body]
    obtain pre post where pre: "bs = pre @ post" "pre \<noteq> []" "height (hd branch) = height (last pre) + 1" "on_tip P blk ch' (pre @ branch)"
      using switch_tip [OF br(4) tw(1) H cb(2)] by blast
    moreover have "wins P blk (pre @ branch) bs"
      using False w(2) tw(2) tl cb(1) br(2) by (auto simp: wins_def loses_def Let_def)
    moreover have "finalityHeight (height (last bs)) \<le> height (last pre)" using br(3) pre(3) tl by simp
    ultimately show ?thesis using br(2,5) by blast
  qed
qed

lemma check_branch_bodies:
  "check_branch P now g p branch = Inr l \<Longrightarrow> body_ok P blk o' p \<Longrightarrow> \<forall>b \<in> set branch. admissible P blk b \<Longrightarrow>
   body_ok P blk o' l \<and> l = last (p # branch) \<and> foldl (\<lambda>w b. w + workOf b) (chain_work blk o' p) branch = chain_work blk o' l"
proof (induction branch arbitrary: p)
  case (Cons b branch)
  have chk: "checkBranchBlock P now g b p = Inr ()" and rest: "check_branch P now g b branch = Inr l"
    using Cons.prems(1) by (auto simp: check_branch_def bind_result_Inr_iff)
  have link: "prev_hash b = Block_GetHash P p" "height b = height p + 1"
    using chk by (auto simp: checkBranchBlock_def bind_result_Inr_iff split: if_splits)
  have adm: "admissible P blk b" using Cons.prems(3) by simp
  note b = child_of [OF Cons.prems(2) adm link]
  show ?case using Cons.IH [OF rest b(1)] Cons.prems(3) b(2) by (auto split: if_splits)
qed (simp add: check_branch_def)

lemma converge_ok:
  assumes cv: "converge P now branch ch = (ch', Inr ())" and tip: "on_tip P blk ch bs"
    and H: "hash32 (Hash256 P)" and adm: "\<forall>b \<in> set branch. admissible P blk b" and ne: "branch \<noteq> []"
  shows "\<exists>pre post. bs = pre @ post \<and> pre \<noteq> [] \<and> on_tip P blk ch' (pre @ branch) \<and> wins P blk (pre @ branch) bs"
proof -
  have inv: "store_inv P blk (dbBlocks (chDB ch)) bs" using tip by (simp add: on_tip_def)
  obtain p l c1 c2 base tipw t where
    p: "GetBlockByHash P (dbBlocks (chDB ch)) (prev_hash (hd branch)) = Inr p"
       "check_branch P now (branchGetBlock P (dbBlocks (chDB ch)) branch) p branch = Inr l"
    and c1: "txn_write (db_work P p) ch = (c1, Inr base)" and t: "GetLatestBlock P (dbBlocks (chDB c1)) = Inr t"
    and c2: "txn_write (db_work P t) c1 = (c2, Inr tipw)"
    and win: "\<not> loses (foldl (\<lambda>w b. w + workOf b) base branch) (Block_GetHash P (last branch)) tipw (Block_GetHash P t)"
    and sw: "switchToBranchTxn P branch c2 = (ch', Inr ())"
    using cv unfolding converge_def by (auto simp: txn_bind_Inr txn_read_Inr split: if_splits)
  have "prev_hash (hd branch) = Block_GetHash P p"
    using p(2) ne by (cases branch) (auto simp: check_branch_def checkBranchBlock_def bind_result_Inr_iff split: if_splits)
  note pb = stored_parent [OF inv H p(1) this]
  note cb = check_branch_bodies [OF p(2) pb adm]
  have w: "store_inv P blk (dbBlocks (chDB c1)) bs" "base = chain_work blk (hd bs) p"
    using c1 inv_work [OF inv H pb] by (auto simp: txn_simps)
  have tl: "t = last bs" using t GetTags(5) [OF w(1)] by simp
  have "body_ok P blk (hd bs) t" unfolding tl by (rule chain_body(1) [OF w(1)]) (simp add: inv_parts(2) [OF inv])
  then have tw: "store_inv P blk (dbBlocks (chDB c2)) bs" "tipw = chain_work blk (hd bs) t"
    using c2 inv_work [OF w(1) H] by (auto simp: txn_simps)
  obtain pre post where pre: "bs = pre @ post" "pre \<noteq> []" "on_tip P blk ch' (pre @ branch)"
    using switch_tip [OF sw tw(1) H adm] by blast
  moreover have "wins P blk (pre @ branch) bs"
    using win w(2) tw(2) tl cb ne by (auto simp: wins_def loses_def Let_def)
  ultimately show ?thesis by blast
qed

section \<open>The node\<close>

lemma chain_update_keeps: "chain_update f ch = (ch', Inl e) \<Longrightarrow> chDB ch' = chDB ch"
  by (auto simp: chain_update_def split: prod.splits sum.splits)

lemma chain_update_Inr: "chain_update f ch = (ch', Inr x) \<longleftrightarrow> f ch = (ch', Inr x)"
  by (auto simp: chain_update_def split: prod.splits sum.splits)

lemma notify_db [simp]: "chDB (notifyTipChanged ch) = chDB ch" "chDB (notifyReorg ch) = chDB ch"
  by (simp_all add: notifyTipChanged_def notifyReorg_def Let_def)

lemma on_tip_db: "chDB ch' = chDB ch \<Longrightarrow> on_tip P blk ch' bs = on_tip P blk ch bs"
  by (simp add: on_tip_def)

lemma ApplyBlock_cases:
  assumes ap: "ApplyBlock P now b ch = (ch', r)" and tip: "on_tip P blk ch bs" and H: "hash32 (Hash256 P)" and adm: "admissible P blk b"
  shows "\<exists>bs'. on_tip P blk ch' bs' \<and> (bs' = bs \<or> r = Inr () \<and> (bs' = bs @ [b] \<or>
    (\<exists>pre post branch. bs = pre @ post \<and> pre \<noteq> [] \<and> branch \<noteq> [] \<and> bs' = pre @ branch \<and> wins P blk bs' bs \<and>
       finalityHeight (height (last bs)) \<le> height (last pre))))"
proof -
  let ?ch = "ch\<lparr>chRemoved := [], chAdded := []\<rparr>"
  let ?f = "txn_bind (txn_read (\<lambda>db. GetLatestHash (dbBlocks db))) (\<lambda>latestHash.
                if prev_hash b = latestHash then extend_tip P now b else side_block P now b)"
  have inv: "store_inv P blk (dbBlocks (chDB ?ch)) bs" and tip': "on_tip P blk ?ch bs" using tip by (simp_all add: on_tip_def)
  obtain c x where up: "chain_update ?f ?ch = (c, x)" by fastforce
  show ?thesis
  proof (cases x)
    case (Inl e)
    then have "chDB ch' = chDB ch" using ap up chain_update_keeps [of ?f ?ch c e] by (simp add: ApplyBlock_def)
    then show ?thesis using tip on_tip_db by blast
  next
    case (Inr moved)
    then have db: "chDB ch' = chDB c" and r: "r = Inr ()" using ap up by (auto simp: ApplyBlock_def)
    have run: "(if prev_hash b = Block_GetHash P (last bs) then extend_tip P now b else side_block P now b) ?ch = (c, Inr moved)"
      using up Inr GetTags(2) [OF inv] by (auto simp: chain_update_Inr txn_bind_Inr txn_read_Inr)
    show ?thesis
    proof (cases "prev_hash b = Block_GetHash P (last bs)")
      case True
      then have "on_tip P blk c (bs @ [b])" using run extend_tip_ok(1) [OF _ inv H adm True] by simp
      then show ?thesis using on_tip_db [OF db] r by blast
    next
      case False
      then have "side_block P now b ?ch = (c, Inr moved)" using run by simp
      from side_block_ok [OF this tip' H adm] show ?thesis using on_tip_db [OF db] r by blast
    qed
  qed
qed

lemma SwitchToBranch_cases:
  assumes ap: "Chain_SwitchToBranch P now branch ch = (ch', r)" and tip: "on_tip P blk ch bs" and H: "hash32 (Hash256 P)"
    and adm: "\<forall>b \<in> set branch. admissible P blk b"
  shows "\<exists>bs'. on_tip P blk ch' bs' \<and> (bs' = bs \<or> r = Inr () \<and> branch \<noteq> [] \<and>
    (\<exists>pre post. bs = pre @ post \<and> pre \<noteq> [] \<and> bs' = pre @ branch \<and> wins P blk bs' bs))"
proof (cases "branch = []")
  case True
  then show ?thesis using ap tip by (auto simp: Chain_SwitchToBranch_def)
next
  case False
  let ?ch = "ch\<lparr>chRemoved := [], chAdded := []\<rparr>"
  have tip': "on_tip P blk ?ch bs" using tip by (simp add: on_tip_def)
  obtain c x where up: "chain_update (converge P now branch) ?ch = (c, x)" by fastforce
  show ?thesis
  proof (cases x)
    case (Inl e)
    then have "chDB ch' = chDB ch" using ap up False chain_update_keeps [of "converge P now branch" ?ch c e]
      by (simp add: Chain_SwitchToBranch_def)
    then show ?thesis using tip on_tip_db by blast
  next
    case (Inr u)
    then have db: "chDB ch' = chDB c" and r: "r = Inr ()" using ap up False by (auto simp: Chain_SwitchToBranch_def)
    have "converge P now branch ?ch = (c, Inr ())" using up Inr by (simp add: chain_update_Inr)
    from converge_ok [OF this tip' H adm False] show ?thesis using on_tip_db [OF db] r False by blast
  qed
qed

text \<open>The start-up check finds every link of a represented chain.\<close>

lemma low_Suc: "h < 2 ^ 37 \<Longrightarrow> unat (h + 1 :: u64) = Suc (unat h)"
  by (simp add: word_less_nat_alt unat_word_ariths)

lemma heights_connected:
  assumes "branch_connected P bs" "\<forall>b \<in> set bs. height b < 2 ^ 37" "bs \<noteq> []"
  shows "heights (height (hd bs) + 1) (height (last bs)) = map height (tl bs)"
proof (rule nth_equalityI)
  let ?h = "height (hd bs)"
  note at = connected_heights [OF assms(1,2)]
  have up: "unat (?h + 1) = Suc (unat ?h)" by (rule low_Suc) (use assms(2,3) in simp)
  have lst: "Suc (unat (height (last bs))) = unat ?h + length bs" using at [of "length bs - 1"] assms(3) by (simp add: last_conv_nth Suc_diff_le)
  show len: "length (heights (?h + 1) (height (last bs))) = length (map height (tl bs))" using up lst by (simp add: heights_def)
  fix i assume i: "i < length (heights (?h + 1) (height (last bs)))"
  then have "Suc i < length bs" using len by simp
  then have "unat (height (tl bs ! i)) = Suc (unat ?h + i)" using at [of "Suc i"] by (simp add: nth_tl)
  then have "of_nat (unat (height (tl bs ! i))) = (of_nat (Suc (unat ?h + i)) :: u64)" by (rule arg_cong)
  moreover have "heights (?h + 1) (height (last bs)) ! i = of_nat (unat (?h + 1) + i)"
    using i by (simp add: heights_def del: upt_Suc)
  ultimately show "heights (?h + 1) (height (last bs)) ! i = map height (tl bs) ! i" using i len up by simp
qed

lemma health_fold:
  assumes "branch_connected P (x # xs)" "\<forall>b \<in> set xs. getBlockByHeight P ch (height b) = Inr b"
  shows "foldM (\<lambda>prevBlockHash h. case getBlockByHeight P ch h of Inl _ \<Rightarrow> Inl Panic
      | Inr b \<Rightarrow> if prev_hash b \<noteq> prevBlockHash then Inl Panic else Inr (Block_GetHash P b)) (map height xs) (Block_GetHash P x)
    = Inr (Block_GetHash P (last (x # xs)))"
  using assms by (induction xs arbitrary: x) auto

lemma CheckHealth_ok:
  assumes "store_inv P blk (dbBlocks (chDB ch)) bs"
  shows "CheckHealth P ch = Inr ()"
proof -
  obtain x xs where bs: "bs = x # xs" using inv_parts(2) [OF assms] by (cases bs) auto
  have conn: "branch_connected P (x # xs)" using inv_parts(3) [OF assms] by (simp add: bs)
  have read: "\<forall>b \<in> set xs. getBlockByHeight P ch (height b) = Inr b"
  proof
    fix b assume b: "b \<in> set xs"
    have "b \<in> set bs" using b bs by simp
    moreover obtain i where "i < length xs" "b = xs ! i" using b by (metis in_set_conv_nth)
    then have "unat (height b) = Suc (unat (height x) + i)"
      using connected_heights [OF conn, of "Suc i"] chain_low [OF assms] by (simp add: bs)
    then have "height b \<noteq> 0" by auto
    ultimately show "getBlockByHeight P ch (height b) = Inr b"
      using GetBlockByHeight_chain(1) [OF assms] by (simp add: getBlockByHeight_def)
  qed
  have hs: "heights (height x + 1) (height (last bs)) = map height xs"
    using heights_connected [OF inv_parts(3) [OF assms] chain_low [OF assms] inv_parts(2) [OF assms]] by (simp add: bs)
  have "Chain_GetOriginBlock P ch = Inr x" "GetLatestBlockHeight ch = height (last bs)"
    using GetTags(1,6) [OF assms] by (simp_all add: Chain_GetOriginBlock_def GetLatestBlockHeight_def bs)
  then show ?thesis using health_fold [OF conn read] by (simp add: CheckHealth_def hs)
qed

text \<open>Every import and every converging switch, accepted or refused.\<close>

inductive node_step :: "('i, 'p) pprims_scheme \<Rightarrow> (bytes \<Rightarrow> FullBlock) \<Rightarrow> Chain \<Rightarrow> Chain \<Rightarrow> bool"
  for P :: "('i, 'p) pprims_scheme" and blk :: "bytes \<Rightarrow> FullBlock" where
  step_apply: "admissible P blk b \<Longrightarrow> ApplyBlock P now b ch = (ch', r) \<Longrightarrow> node_step P blk ch ch'"
| step_switch: "\<forall>b \<in> set branch. admissible P blk b \<Longrightarrow> Chain_SwitchToBranch P now branch ch = (ch', r) \<Longrightarrow> node_step P blk ch ch'"

lemma wins_work: "wins P blk bs' bs \<Longrightarrow> chain_work blk (hd bs) (last bs) \<le> chain_work blk (hd bs) (last bs')"
  by (auto simp: wins_def Let_def)

lemma append_work:
  assumes "store_inv P blk B (bs @ [b])" "bs \<noteq> []"
  shows "chain_work blk (hd bs) (last bs) \<le> chain_work blk (hd bs) b"
proof -
  have link: "prev_hash b = Block_GetHash P (last bs)" "height b = height (last bs) + 1"
    using inv_parts(3) [OF assms(1)] assms(2) by (simp_all add: connected_append)
  have "body_ok P blk (hd bs) (last bs)" "admissible P blk b"
    using chain_body(1) [OF assms(1), of "last bs"] chain_body(1) [OF assms(1), of b] assms(2) by (simp_all add: body_ok_def)
  from child_of(2) [OF this link] show ?thesis by simp
qed

lemma node_step_inv:
  assumes "node_step P blk ch ch'" "on_tip P blk ch bs" "hash32 (Hash256 P)"
  shows "\<exists>bs'. on_tip P blk ch' bs' \<and> hd bs' = hd bs \<and> chain_work blk (hd bs) (last bs) \<le> chain_work blk (hd bs) (last bs')"
  using assms(1)
proof cases
  case (step_apply b now r)
  have ne: "bs \<noteq> []" using assms(2) inv_parts(2) by (auto simp: on_tip_def)
  obtain bs' where bs': "on_tip P blk ch' bs'" and c: "bs' = bs \<or> bs' = bs @ [b] \<or>
      (\<exists>pre post branch. bs = pre @ post \<and> pre \<noteq> [] \<and> bs' = pre @ branch \<and> wins P blk bs' bs)"
    using ApplyBlock_cases [OF step_apply(2) assms(2,3) step_apply(1)] by blast
  then show ?thesis using ne wins_work append_work [of P blk _ bs b] by (intro exI [of _ bs']) (auto simp: on_tip_def)
next
  case (step_switch branch now r)
  obtain bs' where bs': "on_tip P blk ch' bs'" and c: "bs' = bs \<or>
      (\<exists>pre post. bs = pre @ post \<and> pre \<noteq> [] \<and> bs' = pre @ branch \<and> wins P blk bs' bs)"
    using SwitchToBranch_cases [OF step_switch(2) assms(2,3) step_switch(1)] by blast
  then show ?thesis using wins_work by (intro exI [of _ bs']) auto
qed

lemma node_steps_inv:
  assumes "(node_step P blk)\<^sup>*\<^sup>* ch ch'" "on_tip P blk ch bs" "hash32 (Hash256 P)"
  shows "\<exists>bs'. on_tip P blk ch' bs' \<and> hd bs' = hd bs \<and> chain_work blk (hd bs) (last bs) \<le> chain_work blk (hd bs) (last bs')"
  using assms(1)
proof induction
  case (step y z)
  then obtain bs' where bs': "on_tip P blk y bs'" "hd bs' = hd bs" "chain_work blk (hd bs) (last bs) \<le> chain_work blk (hd bs) (last bs')"
    by blast
  from node_step_inv [OF step(2) bs'(1) assms(3)] bs'(2,3) show ?case by fastforce
qed (use assms(2) in blast)

end
