(* ===== verification/Minting.thy ===== *)
theory Minting
  imports Ledger "HOL-Library.Multiset"
begin

text \<open>
  What a checked block mints.  The generate transactions of a block that passes \<^verbatim>\<open>CheckBlockTxs\<close> pay the block
  reward once and every uncle its reward, because the multiset of (recipient, decimal amount) keys of
  the unsigned generates is the one of the uncles.
\<close>

section \<open>The decimal form is injective\<close>

lemma dec_digits_nonempty: "dec_digits n \<noteq> []"
  by (subst dec_digits.simps) simp

lemma digit_inj: "a < 10 \<Longrightarrow> b < 10 \<Longrightarrow> (of_nat (48 + a) :: byte) = of_nat (48 + b) \<longleftrightarrow> a = b"
  by (simp add: word_of_nat_eq_iff take_bit_eq_mod)

lemma dec_digits_inj: "dec_digits m = dec_digits n \<Longrightarrow> m = n"
proof (induction m arbitrary: n rule: less_induct)
  case (less m)
  show ?case
  proof (cases "m < 10 \<or> n < 10")
    case True
    then show ?thesis
      using less.prems dec_digits_nonempty [of "m div 10"] dec_digits_nonempty [of "n div 10"] digit_inj [of m n]
      by (subst (asm) (1 2) dec_digits.simps) (auto split: if_splits)
  next
    case False
    then have eq: "dec_digits (m div 10) = dec_digits (n div 10)" "(of_nat (48 + m mod 10) :: byte) = of_nat (48 + n mod 10)"
      using less.prems by (subst (asm) (1 2) dec_digits.simps, simp)+
    have "m div 10 < m" using False by simp
    from less.IH [OF this eq(1)] have "m div 10 = n div 10" .
    moreover have "m mod 10 = n mod 10" using digit_inj eq(2) by simp
    ultimately show ?thesis by (metis div_mult_mod_eq)
  qed
qed

lemma dec_digits_digit: "b \<in> set (dec_digits n) \<Longrightarrow> b \<noteq> 45"
proof (induction n rule: dec_digits.induct)
  case (1 n)
  have "(of_nat (48 + d) :: byte) \<noteq> 45" if "d < 10" for d
    using that word_of_nat_eq_iff [of "48 + d" 45, where 'a = 8] by (simp add: take_bit_eq_mod)
  with 1 show ?case by (subst (asm) (2) dec_digits.simps) (auto split: if_splits)
qed

lemma bigString_inj: "bigString x = bigString y \<longleftrightarrow> x = y"
proof
  assume eq: "bigString x = bigString y"
  have "hd (dec_digits n) \<noteq> 45" for n using dec_digits_digit dec_digits_nonempty by (metis hd_in_set)
  then have "x < 0 \<longleftrightarrow> y < 0" using eq dec_digits_nonempty by (auto simp: bigString_def split: if_splits) (metis list.sel(1))+
  with eq dec_digits_inj [of "nat \<bar>x\<bar>" "nat \<bar>y\<bar>"] show "x = y" by (auto simp: bigString_def split: if_splits)
qed simp

section \<open>Uncle rewards\<close>

text \<open>The amount behind a key of \<^verbatim>\<open>want\<close>.\<close>

definition key_amount :: "bytes \<Rightarrow> int" where
  "key_amount k = (THE v. bigString v = drop AddressSize k)"

lemma key_amount [simp]: "length a = AddressSize \<Longrightarrow> key_amount (a @ bigString v) = v"
  by (simp add: key_amount_def bigString_inj)

definition uncle_key :: "u64 \<Rightarrow> BlockHeader \<Rightarrow> bytes" where
  "uncle_key height u = hdCoinbase u @ bigString (UncleReward (hdHeight u) height)"

definition gen_key :: "FullTx \<Rightarrow> bytes" where
  "gen_key g = txTo g @ bigString (txValue g)"

lemma uncle_want_count: "uncle_want height us = count (mset (map (uncle_key height) us))"
proof -
  have "foldl (\<lambda>want u. let key = hdCoinbase u @ bigString (UncleReward (hdHeight u) height) in want(key := want key + 1)) w us
      = (\<lambda>k. w k + count (mset (map (uncle_key height) us)) k)" for w :: "bytes \<Rightarrow> nat"
    by (induction us arbitrary: w) (auto simp: uncle_key_def Let_def fun_eq_iff)
  from this [of "\<lambda>_. 0"] show ?thesis by (simp add: uncle_want_def)
qed

lemma check_uncle_gens:
  assumes "foldM (check_uncle_gen height) gs want = Inr want'"
  shows "want k = want' k + count (mset (map gen_key gs)) k \<and> (\<forall>g \<in> set gs. txFee g = 0)"
  using assms
proof (induction gs arbitrary: want)
  case (Cons g gs)
  then obtain w where w: "check_uncle_gen height want g = Inr w" "foldM (check_uncle_gen height) gs w = Inr want'"
    by (auto simp: result_simps)
  from Cons.IH [OF w(2)] w(1) show ?case
    by (auto simp: check_uncle_gen_def Let_def gen_key_def split: if_splits)
qed (simp add: result_simps)

lemma uncle_rewards_exact:
  assumes "foldM (check_uncle_gen height) gs (uncle_want height us) = Inr want'" "length gs = length us"
    "\<forall>g \<in> set gs. length (txTo g) = AddressSize" "\<forall>u \<in> set us. length (hdCoinbase u) = AddressSize"
  shows "sum_list (map txValue gs) = sum_list (map (\<lambda>u. UncleReward (hdHeight u) height) us)"
proof -
  have "mset (map gen_key gs) \<subseteq># mset (map (uncle_key height) us)"
    using check_uncle_gens [OF assms(1)] by (auto simp: uncle_want_count subseteq_mset_def)
  moreover have "size (mset (map gen_key gs)) = size (mset (map (uncle_key height) us))" using assms(2) by simp
  ultimately have "mset (map gen_key gs) = mset (map (uncle_key height) us)"
    by (metis mset_subset_size subset_mset.less_le less_irrefl)
  then have "sum_list (map key_amount (map gen_key gs)) = sum_list (map key_amount (map (uncle_key height) us))"
    by (metis mset_map sum_mset_sum_list)
  moreover have "map key_amount (map gen_key gs) = map txValue gs" using assms(3) by (simp add: gen_key_def)
  moreover have "map key_amount (map (uncle_key height) us) = map (\<lambda>u. UncleReward (hdHeight u) height) us"
    using assms(4) by (simp add: uncle_key_def)
  ultimately show ?thesis by (simp only:)
qed

section \<open>The generates of a block\<close>

abbreviation generates :: "FullTx list \<Rightarrow> FullTx list" where
  "generates txs \<equiv> filter (\<lambda>tx. txType tx = GenerateTx) txs"

lemma split_generates:
  assumes "foldM split_generate txs (pr, us) = Inr (pr', us')"
  shows "mset us' + (case pr' of None \<Rightarrow> {#} | Some p \<Rightarrow> {#p#})
    = mset us + (case pr of None \<Rightarrow> {#} | Some p \<Rightarrow> {#p#}) + mset (generates txs)"
  using assms
proof (induction txs arbitrary: pr us)
  case (Cons tx txs)
  then obtain pr1 us1 where 1: "split_generate (pr, us) tx = Inr (pr1, us1)" "foldM split_generate txs (pr1, us1) = Inr (pr', us')"
    by (auto simp: result_simps)
  from Cons.IH [OF 1(2)] 1(1) show ?case by (auto simp: split_generate_def split: if_splits)
qed (simp add: result_simps)

lemma mints_schedule:
  assumes "CheckBlockTxs P db b = Inr ()" "\<forall>tx \<in> set (bkTxs b). length (txTo tx) = AddressSize"
    "\<forall>u \<in> set (bkUncles b). length (hdCoinbase u) = AddressSize"
  shows "sum_list (map txValue (generates (bkTxs b))) = GetBlockReward (hdHeight (bkHeader b)) +
      sum_list (map (\<lambda>u. UncleReward (hdHeight u) (hdHeight (bkHeader b))) (bkUncles b)) \<and>
    (\<forall>tx \<in> set (generates (bkTxs b)). txFee tx = 0)"
proof -
  let ?h = "hdHeight (bkHeader b)"
  obtain p gs w where g: "foldM split_generate (bkTxs b) (None, []) = Inr (Some p, gs)"
    "CheckGenerate P p ?h (keyResolver db) = Inr ()" "length gs = length (bkUncles b)"
    "foldM (check_uncle_gen ?h) gs (uncle_want ?h (bkUncles b)) = Inr w"
    using assms(1) by (auto simp: CheckBlockTxs_def checkBlockGenerates_def Let_def result_simps split: if_splits option.splits)
  have ms: "mset (p # gs) = mset (generates (bkTxs b))" using split_generates [OF g(1)] by simp
  then have "set (p # gs) \<subseteq> set (bkTxs b)" by (metis filter_is_subset set_mset_mset)
  then have len: "\<forall>g \<in> set gs. length (txTo g) = AddressSize" using assms(2) by auto
  have p: "txValue p = GetBlockReward ?h" "txFee p = 0"
    using g(2) by (auto simp: CheckGenerate_def TotalExpenditure_def split: if_splits)
  then have "\<forall>tx \<in> set (p # gs). txFee tx = 0" using check_uncle_gens [OF g(4)] by auto
  then have fee: "\<forall>tx \<in> set (generates (bkTxs b)). txFee tx = 0" unfolding mset_eq_setD [OF ms] .
  have "sum_list (map txValue xs) = sum_list (map txValue ys)" if "mset xs = mset ys" for xs ys
    using that by (metis mset_map sum_mset_sum_list)
  from this [OF ms] show ?thesis using p(1) uncle_rewards_exact [OF g(4,3) len assms(3)] fee by simp
qed

text \<open>C12: a checked block mints what the schedule says, no more and no less. The values of all generate
  transactions of a block that passes the state check add up to the block reward of its height plus the
  reward of each uncle it carries, and each of them pays no fee.\<close>

theorem CheckBlockTxs_mints_schedule:
  assumes "CheckBlockTxs P db b = Inr ()" "\<forall>tx \<in> set (bkTxs b). length (txTo tx) = AddressSize"
    "\<forall>u \<in> set (bkUncles b). length (hdCoinbase u) = AddressSize"
  shows "sum_list (map txValue (generates (bkTxs b))) = GetBlockReward (hdHeight (bkHeader b)) +
      sum_list (map (\<lambda>u. UncleReward (hdHeight u) (hdHeight (bkHeader b))) (bkUncles b)) \<and>
    (\<forall>tx \<in> set (generates (bkTxs b)). txFee tx = 0)"
  by (rule mints_schedule [OF assms])

lemma tx_supply_split:
  "sum_list (map tx_supply txs) = sum_list (map txValue (generates txs)) - sum_list (map txFee (filter (\<lambda>tx. txType tx \<noteq> GenerateTx) txs))"
  by (induction txs) (simp_all add: tx_supply_def)

text \<open>C8: issuance follows the schedule. Applying a checked block other than genesis to a well-formed state
  changes the total supply by the block reward plus the uncle rewards, less every fee in the block.\<close>

theorem apply_checked_issuance:
  assumes "apply_checked P network archive db b = Inr db'" "IsGenesis P b = Inr False" "sys_ok P db" "third_ok P"
    "room (length (bkTxs b)) db" "block_typed b" "\<forall>u \<in> set (bkUncles b). length (hdCoinbase u) = AddressSize"
  shows "totalSupply db' = totalSupply db + GetBlockReward (hdHeight (bkHeader b))
    + sum_list (map (\<lambda>u. UncleReward (hdHeight u) (hdHeight (bkHeader b))) (bkUncles b))
    - sum_list (map txFee (filter (\<lambda>tx. txType tx \<noteq> GenerateTx) (bkTxs b))) + sum_list (map commit_supply (bkCommits b))"
proof -
  have check: "CheckBlockTxs P db b = Inr ()" using assms(1,2) by (auto simp: apply_checked_def result_simps)
  have "\<forall>tx \<in> set (bkTxs b). length (txTo tx) = AddressSize"
    using assms(6) by (simp add: block_typed_def tx_typed_def)
  note mints_schedule [OF check this assms(7)]
  moreover have "totalSupply db' = totalSupply db + block_supply b"
    using apply_checked_ok [OF assms(1,3,4), of 0] assms(5,6) by simp
  ultimately show ?thesis by (simp add: block_supply_def tx_supply_split)
qed

section \<open>Witnesses\<close>

theorem CheckBlockTxs_mints_schedule_witness:
  "sum_list (map txValue (generates (bkTxs demo_mined))) = GetBlockReward 1"
  using CheckBlockTxs_mints_schedule [OF demo_mined_checked, of] demo_mined_typed
  by (simp add: demo_mined_fields block_typed_def tx_typed_def)

theorem apply_checked_issuance_witness:
  "\<exists>db'. apply_checked demo_vm ZERONET True demo_ledger demo_mined = Inr db' \<and>
    totalSupply db' = totalSupply demo_ledger + GetBlockReward 1"
proof -
  obtain db' where db': "apply_checked demo_vm ZERONET True demo_ledger demo_mined = Inr db'" using demo_mined_applies ..
  from apply_checked_issuance [OF this demo_mined_not_genesis demo_ledger_ok demo_vm_ok demo_mined_typed]
  have "totalSupply db' = totalSupply demo_ledger + GetBlockReward 1"
    by (simp add: demo_mined_fields) (simp add: demo_reward_def)
  with db' show ?thesis by blast
qed

end
