(* ===== verification/Node.thy ===== *)
theory Node
  imports Forkchoice Minting
begin

text \<open>
  What the node guarantees: its block store refines a list of blocks, the work it weighs is the sum of the declared
  difficulties, imports follow the fork choice and keep the state at the root of the tip, a valid block on the tip is imported,
  and what a snapshot is not checked for.  The example node starts at a block of height 0 and imports a child.
\<close>

section \<open>Acceptance\<close>

lemma ApplyBlock_atomic: "ApplyBlock P now b ch = (ch', r) \<Longrightarrow> \<forall>e. r = Inl e \<longrightarrow> chDB ch' = chDB ch"
  by (auto simp: ApplyBlock_def split: prod.splits sum.splits dest!: chain_update_keeps)

text \<open>A valid block on the tip is imported: nothing but the checks and the state transition can refuse it.\<close>

lemma PutNewBlock_accepts:
  assumes inv: "store_inv P blk B bs" and b: "prev_hash b = Block_GetHash P (last bs)" "height b = height (last bs) + 1"
  shows "\<exists>B' T'. PutNewBlock P B T b = Inr (B', T')"
proof -
  have last: "last bs \<in> set bs" "height (last bs) < 2 ^ 37" using inv_parts(2) [OF inv] chain_low [OF inv] by simp_all
  have up: "unat (height b) = Suc (unat (height (last bs)))" using low_Suc [OF last(2)] b(2) by simp
  have none: "\<not> (\<exists>c \<in> set bs. height c = height b)"
  proof
    assume "\<exists>c \<in> set bs. height c = height b"
    then obtain c where c: "c \<in> set bs" "height c = height b" by blast
    have "height c \<le> height (last bs)" using chain_list(1) [OF inv inv inv c(1)] by simp
    then show False using up c(2) by (simp add: word_le_nat_alt)
  qed
  have "height b \<noteq> 0" using up by auto
  then have "\<not> blockHeightExists P B (height b)"
    using GetBlockByHeight_chain(2) [OF inv, of "height b"] none by (simp add: blockHeightExists_def)
  moreover have "blockPrevHashExists P B (height b) (prev_hash b)"
    using b chain_body(3) [OF inv last(1)] by (simp add: blockPrevHashExists_def)
  ultimately show ?thesis by (simp add: PutNewBlock_def Let_def checkBlock_def)
qed

lemma ApplyBlock_accepts:
  assumes tip: "on_tip P blk ch bs" and H: "hash32 (Hash256 P)" and adm: "admissible P blk b"
    and link: "prev_hash b = Block_GetHash P (last bs)" "height b = height (last bs) + 1" "\<not> IsHead b"
    and chk: "checkBlockTxn P now (chDB ch) b = Inr ()"
    and up: "\<forall>B T. \<exists>d. Upgrade P (chNetwork ch) (chArchive ch) ((chDB ch)\<lparr>dbBlocks := B, dbTxs := T\<rparr>) b = Inr d \<and>
      StateRoot P d = hdStateRoot (bkHeader b)"
  shows "\<exists>ch'. ApplyBlock P now b ch = (ch', Inr ())"
proof -
  let ?ch = "ch\<lparr>chRemoved := [], chAdded := []\<rparr>"
  have inv: "store_inv P blk (dbBlocks (chDB ch)) bs" using tip by (simp add: on_tip_def)
  obtain B T where B: "PutNewBlock P (dbBlocks (chDB ch)) (dbTxs (chDB ch)) b = Inr (B, T)"
    using PutNewBlock_accepts [OF inv link(1,2)] by blast
  have i: "store_inv P blk B (bs @ [b])" by (rule inv_append(1) [OF inv H adm B link(1)])
  obtain B' w where w: "cumulativeWork P B b = Inr (B', w)" using cumulativeWork_returns [OF i, of b] by auto
  obtain d where d: "Upgrade P (chNetwork ch) (chArchive ch) ((chDB ch)\<lparr>dbBlocks := B', dbTxs := T\<rparr>) b = Inr d"
    "StateRoot P d = hdStateRoot (bkHeader b)" using up by blast
  have swap: "(chDB ch)\<lparr>dbTxs := T, dbBlocks := B'\<rparr> = (chDB ch)\<lparr>dbBlocks := B', dbTxs := T\<rparr>" by (rule DB.equality) simp_all
  have "extend_tip P now b ?ch = (?ch\<lparr>chDB := d\<rparr>, Inr True)"
    using chk B w d(1) [folded swap] d(2) link(3) by (simp add: extend_tip_def txn_bind_def txn_read_def txn_write_def txn_ret_def db_store_def db_work_def
        db_state_def CheckStateRoot_def checkpoint_upkeep_def)
  then show ?thesis using GetTags(2) [OF inv] link(1)
    by (simp add: ApplyBlock_def chain_update_def txn_bind_def txn_read_def)
qed

text \<open>A store that starts at a block represents the chain of that block alone.\<close>

lemma InitFromCheckpoint_inv:
  assumes H: "hash32 (Hash256 P)" and adm: "admissible P blk b"
  shows "store_inv P blk (InitFromCheckpoint P bempty b) [b]"
proof -
  let ?B = "InitFromCheckpoint P bempty b"
  note l = hash_length [OF H, of b]
  have get: "bget ?B k = (if k = OriginHashTag then Some (Block_GetHash P b) else if k = OriginHeightTag then Some (PackUint64LE (height b))
      else if k = LatestHashTag then Some (Block_GetHash P b) else if k = LatestHeightTag then Some (PackUint64LE (height b))
      else if k = PackUint64LE (height b) then Some (Block_GetHash P b)
      else if k = Block_GetHash P b then Some (rlpBlock P b) else None)" for k
    by (simp add: InitFromCheckpoint_def Let_def bget_bput)
  have ne: "Block_GetHash P b \<noteq> t" if "length t \<noteq> 32" for t using l that by auto
  have ne8: "PackUint64LE h \<noteq> t" if "length t \<noteq> 8" for h t using that by auto
  have m: "\<not> has_prefix (Block_GetHash P b) sideBlockPrefix" "\<not> has_prefix (PackUint64LE (height b)) sideBlockPrefix"
    using adm height_no_mark by (simp_all add: admissible_def)
  have "bucket_ok ?B" by (simp add: InitFromCheckpoint_def Let_def bucket_simps)
  moreover have "tags_ok P ?B [b]" by (simp add: tags_ok_def get)
  moreover have "bodies_ok P blk ?B [b]"
    using adm by (auto simp: bodies_ok_def get ne body_ok_def split: if_splits)
  moreover have "index_ok P ?B [b]" by (auto simp: index_ok_def get ne8 l split: if_splits)
  moreover have "marks_ok P ?B blk" using m by (auto simp: marks_ok_def get split: if_splits)
  moreover have "works_ok ?B blk b"
  proof -
    have "bget ?B (blockWorkKey h) = None" if "length h = 32" for h
    proof -
      have n: "blockWorkKey h \<noteq> t" if "length t \<noteq> 37" for t using that \<open>length h = 32\<close> work_key_length [of h] by auto
      show ?thesis unfolding get by (simp add: n l)
    qed
    then show ?thesis by (simp add: works_ok_def GetBlockWork_def)
  qed
  ultimately show ?thesis by (simp add: store_inv_def)
qed

section \<open>An example\<close>

definition demo_origin :: FullBlock where
  "demo_origin = NewBlock ZERONET 0 1603497600000 (zeros 32) (zeros 32) (zeros 32) [1] (zeros 8) []"

definition demo_next :: FullBlock where
  "demo_next = SetCoinbase (NewBlock ZERONET 1 1603497604000 (zeros 32) (ContentRoot demo_vm [demo_reward] [])
     (CalcWitnessRoot demo_vm [demo_reward] []) [1] (replicate 8 1) [demo_reward]) demo_sender"

definition with_root :: "FullBlock \<Rightarrow> bytes \<Rightarrow> FullBlock" where
  "with_root b r = b\<lparr>bkHeader := (bkHeader b)\<lparr>hdStateRoot := r\<rparr>\<rparr>"

text \<open>A wire format that keeps the height and the state root of the two blocks of the example.\<close>

definition demo_node :: "unit pprims" where
  "demo_node = (vprims.extend demo_vm \<lparr>rlpTxDec = (\<lambda>_. None),
      rlpBlockDec = (\<lambda>raw. Some (with_root (if take 8 raw = PackUint64LE 0 then demo_origin else demo_next) (drop 8 raw))),
      rlpSheet = (\<lambda>_. []), rlpSheetDec = (\<lambda>_. None)\<rparr>)
     \<lparr>rlpBlock := (\<lambda>b. PackUint64LE (hdHeight (bkHeader b)) @ hdStateRoot (bkHeader b))\<rparr>"

lemmas demo_node_defs = demo_node_def demo_vm_defs vprims.defs

lemma demo_node_simps [simp]:
  "Hash256 demo_node = pad32" "rlpBlock demo_node b = PackUint64LE (hdHeight (bkHeader b)) @ hdStateRoot (bkHeader b)"
  "rlpBlockDec demo_node raw = Some (with_root (if take 8 raw = PackUint64LE 0 then demo_origin else demo_next) (drop 8 raw))"
  by (simp_all add: demo_node_defs)

lemma demo_reward_node: "FullTx_Verify demo_node demo_reward lookup = Inr ()" "FullTx_From demo_node demo_reward = Inr demo_sender"
proof -
  show "FullTx_Verify demo_node demo_reward lookup = Inr ()"
    by (simp add: FullTx_Verify_def FullTx_envelope_def envelope_def envelope_tags demo_reward_def demo_tx_def demo_node_defs
        PubKeySize_def SigSize_def HasRecovery_def RecoverPubKey_def VerifyHashSig_def scheme_defs Let_def)
  show "FullTx_From demo_node demo_reward = Inr demo_sender"
    by (simp add: FullTx_From_def envelope_from_def envelope_def envelope_tags demo_reward_def demo_tx_def demo_node_defs
        demo_sender_def AddressOfPubKey_def PubKeySize_def SigSize_def HasRecovery_def RecoverPubKey_def VerifyHashSig_def
        scheme_defs Let_def)
qed

lemma demo_node_wire: "rlpTx demo_node = rlpTx demo_vm" "rlpCommit demo_node = rlpCommit demo_vm" "merkleRoot demo_node = merkleRoot demo_vm"
    "rlpHeader demo_node = rlpHeader demo_vm" "powHash demo_node = powHash demo_vm"
  by (simp_all add: demo_node_defs)

lemma demo_roots: "ContentRoot demo_node txs [] = ContentRoot demo_vm txs []" "CalcWitnessRoot demo_node txs cs = CalcWitnessRoot demo_vm txs cs"
  by (simp_all add: ContentRoot_def contentRoot_def CalcWitnessRoot_def FullTx_GetUnsignedHash_def [abs_def] demo_node_wire)

text \<open>The state transition of the example does not read the chain buckets, so its root is fixed before the block is stored.\<close>

definition demo_state :: DB where
  "demo_state = (let d = registerPubKey demo_node (Some 1) InitDB demo_reward
     in updateBeacon demo_node (Some 1) (setBalance demo_node (Some 1) d demo_sender (getBalance d demo_sender + GetBlockReward 1)) demo_next)"

definition demo_child :: FullBlock where
  "demo_child = with_root demo_next (StateRoot demo_node demo_state)"

definition demo_root :: FullBlock where
  "demo_root = with_root demo_origin (StateRoot demo_node InitDB)"

definition demo_chain :: Chain where
  "demo_chain = Chain_Init (InitDB\<lparr>dbBlocks := InitFromCheckpoint demo_node bempty demo_root\<rparr>) ZERONET
     \<lparr>heightToHash = [], hashToSnapshot = []\<rparr> True"

definition demo_names :: "bytes \<Rightarrow> FullBlock" where
  "demo_names h = (if hd h = 0 then demo_root else demo_child)"

lemma chain_commutes:
  fixes B T :: bucket
  defines "u \<equiv> \<lambda>db :: DB. db\<lparr>dbBlocks := B, dbTxs := T\<rparr>"
  shows "trieSetLeaf P (u db) d k v = u (trieSetLeaf P db d k v)"
    and "setBalance P r (u db) a x = u (setBalance P r db a x)"
    and "registerPubKey P r (u db) tx = u (registerPubKey P r db tx)"
    and "updateBeacon P r (u db) blk = u (updateBeacon P r db blk)"
    and "getBalance (u db) a = getBalance db a"
proof -
  show leaf: "trieSetLeaf P (u db) d k v = u (trieSetLeaf P db d k v)" for db d k v
    by (simp add: trieSetLeaf_def u_def Let_def split: sum.split)
  have rec: "recordBal r (u db) a = u (recordBal r db a)" "recordKey r (u db) a = u (recordKey r db a)"
      "recordBeacon r (u db) = u (recordBeacon r db)" for db a
    by (simp_all add: recordBal_def recordKey_def recordBeacon_def u_def Let_def split: option.split)
  have get: "dbBal (u db) = dbBal db" "dbKey (u db) = dbKey db" "dbBeacon (u db) = dbBeacon db" for db by (simp_all add: u_def)
  have put: "(u db)\<lparr>dbBal := b\<rparr> = u (db\<lparr>dbBal := b\<rparr>)" "(u db)\<lparr>dbKey := b\<rparr> = u (db\<lparr>dbKey := b\<rparr>)"
      "(u db)\<lparr>dbBeacon := b\<rparr> = u (db\<lparr>dbBeacon := b\<rparr>)" for db b by (simp_all add: u_def)
  show "setBalance P r (u db) a x = u (setBalance P r db a x)" by (simp add: setBalance_def Let_def trie_wrappers rec get put leaf)
  show "registerPubKey P r (u db) tx = u (registerPubKey P r db tx)"
    by (simp add: registerPubKey_def Let_def trie_wrappers rec get put leaf)
  show "getBalance (u db) a = getBalance db a" by (simp add: getBalance_def get)
  show "updateBeacon P r (u db) blk = u (updateBeacon P r db blk)"
    by (simp add: updateBeacon_def setBeacon_def getBeacon_def Let_def trie_wrappers rec get put leaf)
qed

lemma demo_upgrades:
  "Upgrade demo_node ZERONET True (InitDB\<lparr>dbBlocks := B, dbTxs := T\<rparr>) demo_child = Inr (demo_state\<lparr>dbBlocks := B, dbTxs := T\<rparr>)"
proof -
  have r: "txSign demo_reward \<noteq> []" "txType demo_reward = GenerateTx" "txTo demo_reward = demo_sender" "txValue demo_reward = GetBlockReward 1"
    by (simp_all add: demo_reward_def demo_tx_def)
  have f: "bkTxs demo_next = [demo_reward]" "bkCommits demo_next = []" "hdHeight (bkHeader demo_next) = 1"
    by (simp_all add: demo_next_def SetCoinbase_def NewBlock_def)
  have "Upgrade demo_node ZERONET True (InitDB\<lparr>dbBlocks := B, dbTxs := T\<rparr>) demo_next = Inr (demo_state\<lparr>dbBlocks := B, dbTxs := T\<rparr>)"
    by (simp add: Upgrade_def Let_def handleCommits_def HandleTxs_def f handle_tx_def handleGenerate_def r demo_reward_node
        tx_type_defs pruneCommits_def CommitWindow_def chain_commutes demo_state_def)
  then show ?thesis by (simp add: demo_child_def with_root_def Upgrade_root_free)
qed

lemma demo_fields:
  "height demo_root = 0" "height demo_child = 1" "prev_hash demo_child = zeros 32" "bkTxs demo_child = [demo_reward]"
  "bkUncles demo_child = []" "bkCommits demo_child = []" "hdNetwork (bkHeader demo_child) = ZERONET"
  "hdCoinbase (bkHeader demo_child) = demo_sender"
  by (simp_all add: demo_root_def demo_child_def with_root_def demo_origin_def demo_next_def SetCoinbase_def NewBlock_def)

lemma node_hash_hd: "hd (Block_GetHash demo_node b) = ucast (height b)"
  by (simp add: Block_GetHash_def demo_node_defs pad32_def HashSize_def PackUint64LE_def upt_rec)

lemma demo_root_hash: "Block_GetHash demo_node demo_root = zeros 32"
  by (simp add: Block_GetHash_def demo_root_def with_root_def demo_origin_def NewBlock_def demo_node_defs pad32_def HashSize_def
      PackUint64LE_def upt_rec zeros_def numeral_eq_Suc)

lemma StateRoot_length [simp]: "length (StateRoot P db) = 32"
  by (simp add: StateRoot_def Root_def HashSize_def)

lemma demo_admissible: "admissible demo_node demo_names demo_root" "admissible demo_node demo_names demo_child"
proof -
  have p: "\<not> has_prefix (Block_GetHash demo_node b) sideBlockPrefix" if "height b = 0 \<or> height b = 1" for b
    using that node_hash_hd [of b] by (cases "Block_GetHash demo_node b") (auto simp: has_prefix_def sideBlockPrefix_def str_def)
  show "admissible demo_node demo_names demo_root"
    using p [of demo_root] node_hash_hd [of demo_root]
    by (simp add: admissible_def demo_names_def demo_fields) (simp add: demo_root_def with_root_def demo_origin_def NewBlock_def)
  show "admissible demo_node demo_names demo_child"
    using p [of demo_child] node_hash_hd [of demo_child]
    by (simp add: admissible_def demo_names_def demo_fields) (simp add: demo_child_def with_root_def)
qed

lemma demo_on_tip: "on_tip demo_node demo_names demo_chain [demo_root]"
  using InitFromCheckpoint_inv [of demo_node demo_names demo_root] demo_admissible(1)
  by (simp add: on_tip_def demo_chain_def Chain_Init_def StateRoot_def) (simp add: demo_root_def with_root_def StateRoot_def)

lemma demo_child_valid: "Block_CheckError demo_node 1603497604000 demo_child = Inr ()"
proof -
  have root: "length (ContentRoot demo_vm [demo_reward] []) = 32"
    by (simp add: ContentRoot_def contentRoot_def demo_vm_defs pad32_def HashSize_def)
  have wit: "length (CalcWitnessRoot demo_vm [demo_reward] []) = 32"
    by (simp add: CalcWitnessRoot_def demo_vm_defs pad32_def HashSize_def Let_def)
  have snd: "length demo_sender = 32" using From_length [OF demo_tx_vm(2)] by (simp add: AddressSize_def)
  have gen: "txType demo_reward = GenerateTx" by (simp add: demo_reward_def)
  have pow: "powHash demo_vm raw = [1]" for raw by (simp add: demo_vm_defs)
  have nz: "zeros 8 \<noteq> replicate 8 1" "replicate 8 (1 :: byte) \<noteq> []" by (simp_all add: zeros_def numeral_eq_Suc)
  show ?thesis
    by (simp add: nz pow Block_CheckError_def demo_child_def with_root_def demo_next_def SetCoinbase_def NewBlock_def Let_def gen demo_roots root wit snd
        MaxBlockTxCount_def MaxBlockBytes_def MaxBlockCommitCount_def IsSealed_def NonceSize_def TimestampDriftTolerance_def AddressSize_def
        DiffSize_def length_MinBaseFee MaxUncles_def CalcUnclesHash_def verifyNonce_def bigDiv_def PowHash_def demo_node_wire
        MaxTarget_eq SetBytes_def)
qed

lemma demo_target: "checkBlockTarget demo_node demo_child demo_root = Inr ()"
proof -
  have pow: "powHash demo_vm raw = [1]" for raw by (simp add: demo_vm_defs)
  have h: "hdTimestamp (bkHeader demo_child) = 1603497604000" "hdTimestamp (bkHeader demo_root) = 1603497600000"
    "hdDifficulty (bkHeader demo_child) = [1]" "hdDifficulty (bkHeader demo_root) = [1]" "hdNetwork (bkHeader demo_root) = ZERONET"
    "hdBaseFee (bkHeader demo_child) = bigBytes MinBaseFee" "hdBaseFee (bkHeader demo_root) = bigBytes MinBaseFee" "bkTxs demo_root = []"
    by (simp_all add: demo_root_def demo_child_def with_root_def demo_origin_def demo_next_def SetCoinbase_def NewBlock_def)
  have d: "GetNextDiff 1 1603497604000 demo_root = Inr 1"
    by (simp add: GetNextDiff_def h GetGenesisTimestamp_def network_defs targetTimeAt_def TargetTime_ms_def MinimumDiffOf_def
        SetBytes_def unpack_le_def Let_def signed_divide_int_def)
  have s: "SetBytes [1] = 1" by (simp add: SetBytes_def unpack_le_def)
  have a: "GetActualDiff demo_node demo_child = Inr MaxTarget" by (simp add: GetActualDiff_def bigDiv_def PowHash_def demo_node_wire pow SetBytes_def unpack_le_def)
  have f: "NextBaseFee ZERONET 0 (Some MinBaseFee) 0 = MinBaseFee"
    by (simp add: BaseFeeMaxChangeDenom_def NextBaseFee_def clampMinBaseFee_def MinBaseFee_def BaseFeeTargetBytes_def MaxBlockBytes_def Let_def)
  show ?thesis
    using f by (simp add: checkBlockTarget_def h demo_fields Let_def d a s BlockUsedBytes_def MaxTarget_eq MinBaseFee_def)
qed

lemma demo_branch: "checkBranchBlock demo_node 1603497604000 g demo_child demo_root = Inr ()"
  by (simp add: checkBranchBlock_def demo_child_valid demo_target demo_fields demo_root_hash validateUncles_def)

lemma demo_genesis: "IsGenesis demo_node demo_child = Inr False"
proof -
  obtain g where g: "GetGenesisBlock demo_node ZERONET = Inr g" "height g = 0"
    by (simp add: GetGenesisBlock_def GetGenesisGenerateTx_def GetGenesisGenerateTxSignature_def GetGenesisTimestamp_def
        GetGenesisBlockNonce_def result_simps Let_def SetCoinbase_def NewBlock_def)
  have "Block_GetHash demo_node demo_child \<noteq> Block_GetHash demo_node g"
    using node_hash_hd [of demo_child] node_hash_hd [of g] g(2) by (auto simp: demo_fields)
  with g(1) show ?thesis by (simp add: IsGenesis_def demo_fields result_simps)
qed

lemma demo_txs: "CheckBlockTxs demo_node db demo_child = Inr ()"
proof -
  have r: "txType demo_reward = GenerateTx" "txTo demo_reward = demo_sender" "FullTx_IsSigned demo_reward" "txFee demo_reward = 0"
    "TotalExpenditure demo_reward = GetBlockReward 1"
    by (simp_all add: demo_reward_def demo_tx_def FullTx_IsSigned_def TotalExpenditure_def)
  show ?thesis
    by (simp add: CheckBlockTxs_def checkBlockGenerates_def demo_fields result_simps split_generate_def r Let_def
        CheckGenerate_def demo_reward_node check_block_tx_def)
qed

lemma demo_accepts: "\<exists>ch'. ApplyBlock demo_node 1603497604000 demo_child demo_chain = (ch', Inr ())"
proof (rule ApplyBlock_accepts [OF demo_on_tip _ demo_admissible(2)])
  have "GetOriginHash (dbBlocks (chDB demo_chain)) = Inr (zeros 32)"
    using GetTags(4) [of demo_node demo_names "dbBlocks (chDB demo_chain)" "[demo_root]"] demo_on_tip demo_root_hash by (simp add: on_tip_def)
  then show "checkBlockTxn demo_node 1603497604000 (chDB demo_chain) demo_child = Inr ()"
    by (simp add: checkBlockTxn_def demo_genesis demo_child_valid demo_fields validateUncles_def demo_txs Let_def)
  show "\<forall>B T. \<exists>d. Upgrade demo_node (chNetwork demo_chain) (chArchive demo_chain) ((chDB demo_chain)\<lparr>dbBlocks := B, dbTxs := T\<rparr>) demo_child
      = Inr d \<and> StateRoot demo_node d = hdStateRoot (bkHeader demo_child)"
    using demo_upgrades by (simp add: demo_chain_def Chain_Init_def StateRoot_def) (simp add: demo_child_def with_root_def StateRoot_def)
qed (simp_all add: demo_fields demo_root_hash IsHead_def BlockCheckRound_def)

lemma demo_switches:
  "\<exists>B' T'. Blocks.SwitchToBranch demo_node (InitFromCheckpoint demo_node bempty demo_root) T [demo_child] = Inr (B', T')"
proof -
  let ?B = "InitFromCheckpoint demo_node bempty demo_root"
  have inv: "store_inv demo_node demo_names ?B [demo_root]" by (rule InitFromCheckpoint_inv [OF _ demo_admissible(1)]) simp
  have "bget ?B (PackUint64LE 0) = Some (zeros 32)" using chain_index [OF inv, of demo_root] by (simp add: demo_fields demo_root_hash)
  moreover have "heights 1 0 = []" by (simp add: heights_def)
  ultimately show ?thesis using GetTags(1) [OF inv] by (simp add: Blocks.SwitchToBranch_def demo_fields Let_def case_prod_beta)
qed

section \<open>The work of a chain\<close>

lemma chain_work_sum:
  assumes "branch_connected P bs" "\<forall>b \<in> set bs. body_ok P blk (hd bs) b" "bs \<noteq> []"
  shows "chain_work blk (hd bs) (last bs) = sum_list (map workOf bs)"
  using assms(3,1,2)
proof (induction bs rule: rev_nonempty_induct)
  case (snoc b bs)
  have link: "prev_hash b = Block_GetHash P (last bs)" "height b = height (last bs) + 1" and conn: "branch_connected P bs"
    using snoc.prems(1) snoc.hyps by (simp_all add: connected_append)
  have bodies: "\<forall>c \<in> set bs. body_ok P blk (hd bs) c" "body_ok P blk (hd bs) b" using snoc.prems(2) snoc.hyps by simp_all
  have "body_ok P blk (hd bs) (last bs)" "admissible P blk b" using bodies snoc.hyps by (auto simp: body_ok_def)
  from child_of(2) [OF this link] snoc.IH [OF conn bodies(1)] snoc.hyps show ?case by simp
qed (simp add: chain_work_origin)

text \<open>C14: the memoized work is the right one. For the tip of a represented chain \<^verbatim>\<open>cumulativeWork\<close> ends, answers the sum of the
  declared difficulties of all canonical blocks from the origin on, whatever was memoized before, and leaves a store that
  represents the same chain.\<close>

theorem cumulativeWork_total:
  assumes "store_inv P blk B bs" "hash32 (Hash256 P)"
  shows "\<exists>B'. cumulativeWork P B (last bs) = Inr (B', sum_list (map workOf bs)) \<and> store_inv P blk B' bs"
proof -
  have tip: "last bs \<in> set bs" using inv_parts(2) [OF assms(1)] by simp
  obtain B' w where w: "cumulativeWork P B (last bs) = Inr (B', w)" using cumulativeWork_returns [OF assms(1) tip] by blast
  note inv = inv_work(1,2) [OF assms chain_body(1) [OF assms(1) tip] w]
  have "w = sum_list (map workOf bs)"
    unfolding inv(2) using chain_work_sum [OF inv_parts(3) [OF assms(1)] _ inv_parts(2) [OF assms(1)]] chain_body(1) [OF assms(1)] by blast
  then show ?thesis using w inv(1) by blast
qed

theorem cumulativeWork_total_witness:
  "\<exists>B'. cumulativeWork demo_node (InitFromCheckpoint demo_node bempty demo_root) demo_root = Inr (B', 1) \<and> store_inv demo_node demo_names B' [demo_root]"
proof -
  have "workOf demo_root = 1" by (simp add: workOf_def demo_root_def with_root_def demo_origin_def NewBlock_def SetBytes_def unpack_le_def)
  then show ?thesis
    using cumulativeWork_total [OF InitFromCheckpoint_inv [OF _ demo_admissible(1)]] by simp
qed



section \<open>Imports\<close>

text \<open>C5: importing a block. On a node whose store represents a chain and whose state is the one its tip commits to, an
  import that fails leaves the database as it was; one that succeeds ends in such a node again, and its chain is the old
  one, the old one with the block on top, or a chain that leaves the old one at or above the finality line of the old tip
  and wins against it by more total work, or by equal work and a smaller tip hash.\<close>

theorem ApplyBlock_fork_choice:
  assumes "ApplyBlock P now b ch = (ch', r)" "on_tip P blk ch bs" "hash32 (Hash256 P)" "admissible P blk b"
  shows "(\<forall>e. r = Inl e \<longrightarrow> chDB ch' = chDB ch) \<and>
    (\<exists>bs'. on_tip P blk ch' bs' \<and> (bs' = bs \<or> r = Inr () \<and> (bs' = bs @ [b] \<or>
      (\<exists>pre post branch. bs = pre @ post \<and> pre \<noteq> [] \<and> branch \<noteq> [] \<and> bs' = pre @ branch \<and> wins P blk bs' bs \<and>
         finalityHeight (height (last bs)) \<le> height (last pre)))))"
  using ApplyBlock_cases [OF assms] ApplyBlock_atomic [OF assms(1)] by blast

theorem ApplyBlock_fork_choice_witness:
  "\<exists>ch' bs'. ApplyBlock demo_node 1603497604000 demo_child demo_chain = (ch', Inr ()) \<and> on_tip demo_node demo_names ch' bs' \<and>
    hd bs' = demo_root"
proof -
  obtain ch' where ap: "ApplyBlock demo_node 1603497604000 demo_child demo_chain = (ch', Inr ())" using demo_accepts ..
  obtain bs' where bs': "on_tip demo_node demo_names ch' bs'" "bs' = [demo_root] \<or> bs' = [demo_root] @ [demo_child] \<or>
      (\<exists>pre post branch. [demo_root] = pre @ post \<and> pre \<noteq> [] \<and> bs' = pre @ branch)"
    using ApplyBlock_fork_choice [OF ap demo_on_tip _ demo_admissible(2)] by auto
  then have "hd bs' = demo_root" by (auto simp: Cons_eq_append_conv)
  then show ?thesis using ap bs'(1) by blast
qed

text \<open>C6: a node stays consistent. After any sequence of imports and converging switches, accepted or refused, the store
  represents a chain with the same origin, the state root is the one the tip commits to, the total work has not decreased,
  and the start-up check of the chain finds no broken link.\<close>

theorem node_stays_consistent:
  assumes "(node_step P blk)\<^sup>*\<^sup>* ch ch'" "on_tip P blk ch bs" "hash32 (Hash256 P)"
  shows "\<exists>bs'. on_tip P blk ch' bs' \<and> hd bs' = hd bs \<and> CheckHealth P ch' = Inr () \<and>
    chain_work blk (hd bs) (last bs) \<le> chain_work blk (hd bs) (last bs')"
  using node_steps_inv [OF assms] CheckHealth_ok on_tip_def by metis

theorem node_stays_consistent_witness:
  "\<exists>ch' bs'. ApplyBlock demo_node 1603497604000 demo_child demo_chain = (ch', Inr ()) \<and> on_tip demo_node demo_names ch' bs' \<and>
    CheckHealth demo_node ch' = Inr ()"
proof -
  obtain ch' where ap: "ApplyBlock demo_node 1603497604000 demo_child demo_chain = (ch', Inr ())" using demo_accepts ..
  have "(node_step demo_node demo_names)\<^sup>*\<^sup>* demo_chain ch'" using node_step.step_apply [OF demo_admissible(2) ap] by (rule r_into_rtranclp)
  from node_stays_consistent [OF this demo_on_tip] ap show ?thesis by auto
qed

section \<open>Snapshots\<close>

lemma RebuildTrie_succeeds:
  assumes "hash32 (Hash256 P)"
  shows "\<exists>t u. RebuildTrie P db = Inr (db\<lparr>dbTrie := t, dbTouched := u\<rparr>)"
proof -
  have "represents (Hash256 P) bolt_ops bempty (\<lambda>_. zeros HashSize)"
    using assms by (intro blt.empty_represents) (simp_all add: bolt_ops_def)
  then obtain t u where "foldM (rebuild_leaf P) (rebuild_rows db) (db\<lparr>dbTrie := bempty, dbTouched := []\<rparr>)
      = Inr (db\<lparr>dbTrie := bempty, dbTouched := []\<rparr>\<lparr>dbTrie := t, dbTouched := u\<rparr>)"
    using rebuild_fold [OF assms, of "db\<lparr>dbTrie := bempty, dbTouched := []\<rparr>" "\<lambda>_. zeros HashSize" "rebuild_rows db"] by auto
  then show ?thesis unfolding RebuildTrie_rows by auto
qed

lemma sheet_balances:
  assumes "RebuildFromSheetTxn P db sheet = Inr d" "hash32 (Hash256 P)"
  shows "\<exists>d'. RebuildFromSheetTxn P db (sheet\<lparr>shBalances := [\<lparr>blAddress = a, blAmount = x\<rparr>]\<rparr>) = Inr d' \<and> getBalance d' a = \<bar>x\<bar>"
proof -
  let ?sheet = "sheet\<lparr>shBalances := [\<lparr>blAddress = a, blAmount = x\<rparr>]\<rparr>"
  obtain c where c: "foldM (setContract P None) (shContracts sheet) (reset_state db) = Inr c"
    using assms(1) by (auto simp: RebuildFromSheetTxn_def initFromSheet_def bind_result_Inr_iff)
  obtain e where e: "initFromSheet P (reset_state db) ?sheet = Inr e" "dbBal e = bput (dbBal c) a (bigBytes x)"
    using c by (simp add: initFromSheet_def Let_def)
  have "getBalance e a = \<bar>x\<bar>" by (simp add: getBalance_def e(2) bget_bput)
  moreover obtain t u where "RebuildTrie P e = Inr (e\<lparr>dbTrie := t, dbTouched := u\<rparr>)" using RebuildTrie_succeeds [OF assms(2)] by blast
  ultimately show ?thesis using e(1) by (simp add: RebuildFromSheetTxn_def getBalance_def)
qed


definition demo_sheet :: Sheet where
  "demo_sheet = NewSheet ZERONET 1 (Block_GetHash demo_node demo_child) [] [] []"

lemma demo_snapshot: "\<exists>ch'. ApplySnapshot demo_node 1603497604000 [demo_child] demo_sheet demo_chain = (ch', Inr ())"
proof -
  let ?B = "InitFromCheckpoint demo_node bempty demo_root"
  have H: "hash32 (Hash256 demo_node)" by simp
  have inv: "store_inv demo_node demo_names ?B [demo_root]" by (rule InitFromCheckpoint_inv [OF _ demo_admissible(1)]) simp
  have ch: "dbBlocks (chDB demo_chain) = ?B" "chNetwork demo_chain = ZERONET" by (simp_all add: demo_chain_def Chain_Init_def)
  have p: "GetBlockByHash demo_node ?B (zeros 32) = Inr demo_root" using chain_body(3) [OF inv, of demo_root] by (simp add: demo_root_hash)
  have chk: "check_branch demo_node 1603497604000 g demo_root [demo_child] = Inr demo_child" for g
    by (simp add: check_branch_def demo_branch)
  obtain B' T' where sw: "Blocks.SwitchToBranch demo_node ?B (dbTxs (chDB demo_chain)) [demo_child] = Inr (B', T')" using demo_switches by blast
  obtain pre where "store_inv demo_node demo_names B' (pre @ [demo_child])"
    using inv_switch [OF inv H _ sw] demo_admissible(2) by auto
  from cumulativeWork_returns [OF this, of demo_child] obtain B2 w where w: "cumulativeWork demo_node B' demo_child = Inr (B2, w)" by auto
  have "\<exists>d. RebuildFromSheetTxn demo_node db demo_sheet = Inr d" for db
    using RebuildTrie_succeeds [OF H] by (fastforce simp: RebuildFromSheetTxn_def initFromSheet_def demo_sheet_def NewSheet_def Let_def)
  then obtain d where d: "RebuildFromSheetTxn demo_node ((chDB demo_chain)\<lparr>dbTxs := T', dbBlocks := B2\<rparr>) demo_sheet = Inr d" by blast
  show ?thesis
    using p chk sw w d by (simp add: ApplySnapshot_def ch demo_fields demo_sheet_def NewSheet_def Let_def chain_update_def apply_snapshot_def txn_bind_def
        txn_read_def txn_write_def db_store_def db_work_def db_state_def case_prod_beta)
qed


end
