(* ===== verification/Replay.thy ===== *)
theory Replay
  imports Ledger
begin

text \<open>
  What a signature does not protect.  Height 0 is the mark of the genesis transactions, which bypass every
  check, but no rule ties the height of a transaction to the height of its block; and the signatures of
  commitments and effect transactions leave the height out.
\<close>

section \<open>Definitions\<close>

text \<open>A transfer out of \<open>victim\<close> at height 0 with a compact envelope that holds no signature.\<close>

definition forged_tx :: "Address \<Rightarrow> Address \<Rightarrow> int \<Rightarrow> int \<Rightarrow> FullTx" where
  "forged_tx victim thief value fee =
     \<lparr>txNetwork = ZERONET, txType = TransactTx, txHeight = 0, txTo = thief, txValue = value, txFee = fee, txExtra = [],
      txSign = [envelopeCompact, SchemeSecp256k1] @ victim @ zeros 65, txSalt = []\<rparr>"

section \<open>Height zero\<close>

lemma forged_fields [simp]:
  "txType (forged_tx w t v f) = TransactTx" "txTo (forged_tx w t v f) = t" "txValue (forged_tx w t v f) = v"
  "txFee (forged_tx w t v f) = f" "txHeight (forged_tx w t v f) = 0" "txExtra (forged_tx w t v f) = []" "FullTx_IsSigned (forged_tx w t v f)"
  by (simp_all add: forged_tx_def FullTx_IsSigned_def)

lemma forged_from: "length victim = AddressSize \<Longrightarrow> FullTx_From P (forged_tx victim thief v f) = Inr victim"
  by (simp add: FullTx_From_def envelope_from_def forged_tx_def envelope_tags PubKeySize_def SigSize_def scheme_defs Let_def
      AddressSize_def copy_at_def zeros_def)

lemma forged_verifies: "FullTx_Verify P (forged_tx victim thief v f) lookup = Inr ()"
  by (simp add: FullTx_Verify_def forged_tx_def)

lemma forged_checked:
  assumes "length victim = AddressSize" "v + f \<le> getBalance db victim" "0 \<le> v"
    "SetBytes (hdBaseFee (bkHeader block)) * int (length (rlpTx P (forged_tx victim thief v f))) \<le> f"
  shows "check_block_tx P db block (forged_tx victim thief v f) = Inr ()"
proof -
  have "CheckTx P db (forged_tx victim thief v f) = Inr ()"
    using assms(1-3) forged_from [OF assms(1), of P thief v f] forged_verifies [of P victim thief v f]
    by (simp add: CheckTx_def tx_type_defs checkReveal_def checkTransaction_def CheckTransaction_def fromWithBalance_def
        TotalExpenditure_def result_simps)
  then show ?thesis using assms(4) by (simp add: check_block_tx_def tx_type_defs checkTxBaseFee_def Let_def result_simps)
qed

text \<open>C15: funds without a signature. Whoever composes a block can spend from any account that has no contract: a
  transfer at height 0 that merely names the account in a compact envelope passes the block's transaction check, with no
  signature and no commitment, and the state transition moves the coins.\<close>

theorem zero_height_theft:
  assumes "length victim = AddressSize" "v + f \<le> getBalance db victim" "0 \<le> v" "no_slot db victim" "no_slot db thief"
    "SetBytes (hdBaseFee (bkHeader block)) * int (length (rlpTx P (forged_tx victim thief v f))) \<le> f"
  shows "check_block_tx P db block (forged_tx victim thief v f) = Inr () \<and>
    (\<exists>db'. handle_tx P network cs bt (db, gas) (forged_tx victim thief v f) = Inr (db', gas) \<and>
      (\<forall>a. getBalance db' a = getBalance db a - (if a = victim then v + f else 0) + (if a = thief then v else 0)))"
proof -
  have "consumeReveal P db (forged_tx victim thief v f) = Inr db" by (simp add: consumeReveal_def)
  note tr = transfer_after_reveal [OF forged_fields(1) forged_verifies forged_from [OF assms(1)] this, of network cs bt gas,
      unfolded forged_fields TotalExpenditure_def]
  have "f + v \<le> getBalance db victim" using assms(2) by simp
  from tr [OF this assms(3-5)]
  have "\<exists>db'. handle_tx P network cs bt (db, gas) (forged_tx victim thief v f) = Inr (db', gas) \<and>
      (\<forall>a. getBalance db' a = getBalance db a - (if a = victim then v + f else 0) + (if a = thief then v else 0))" by blast
  then show ?thesis using forged_checked [OF assms(1-3,6)] by blast
qed

lemma demo_recipient_hd: "hd (replicate 32 (9 :: byte)) \<noteq> 1"
  by simp

theorem zero_height_theft_witness:
  "check_block_tx demo_vm demo_ledger (demo_block\<lparr>bkHeader := (bkHeader demo_block)\<lparr>hdBaseFee := []\<rparr>\<rparr>) (forged_tx demo_sender (replicate 32 9) 100 0) = Inr () \<and>
   (\<exists>db'. handle_tx demo_vm ZERONET None 0 (demo_ledger, None) (forged_tx demo_sender (replicate 32 9) 100 0) = Inr (db', None) \<and>
     getBalance db' demo_sender = 0)"
proof -
  have "no_slot demo_ledger a" for a
    by (simp add: no_slot_def demo_ledger_def commits_only_frame [OF commits_only_ops(1)] InitDB_def)
  moreover have "length demo_sender = AddressSize" by (rule From_length [OF demo_tx_vm(2)])
  moreover have b: "getBalance demo_ledger demo_sender = 100"
    by (simp add: demo_ledger_def getBalance_def commits_only_frame [OF commits_only_ops(1)] bget_bput)
  moreover have "demo_sender \<noteq> replicate 32 9" using demo_sender_hd by (metis addressVersion_def demo_recipient_hd)
  ultimately show ?thesis
    using zero_height_theft [of demo_sender 100 0 demo_ledger "replicate 32 9" "demo_block\<lparr>bkHeader := (bkHeader demo_block)\<lparr>hdBaseFee := []\<rparr>\<rparr>"
        demo_vm ZERONET None 0 None] by auto
qed

section \<open>Replay\<close>

lemma balance_frame: "dbBal db' = dbBal db \<Longrightarrow> getBalance db' = getBalance db"
  by (simp add: getBalance_def fun_eq_iff)

lemma reheighted:
  assumes "txType tx = TransactTx" "txHeight tx \<noteq> 0" "h \<noteq> 0"
  shows "FullTx_Verify P (tx\<lparr>txHeight := h\<rparr>) lookup = FullTx_Verify P tx lookup" "FullTx_From P (tx\<lparr>txHeight := h\<rparr>) = FullTx_From P tx"
    "revealHash P (tx\<lparr>txHeight := h\<rparr>) = revealHash P tx"
  using assms by (simp_all add: FullTx_Verify_def FullTx_envelope_def FullTx_From_def FullTx_SigningHash_def revealHash_def tx_type_defs)

lemma recommitted:
  assumes "Commitment_Verify P c (keyResolver db) = Inr ()" "Commitment_From P c = Inr sender" "cmFee c = Some fee"
    "fee \<le> getBalance db sender" "\<not> commitFromPending db sender (cmHash c) h"
  shows "handle_commit P cs db (c\<lparr>cmHeight := h\<rparr>) =
    Inr (putCommit P (setBalance P cs db sender (getBalance db sender - fee)) h (cmHash c) sender)"
proof -
  have "Commitment_SigningHash P (c\<lparr>cmHeight := h\<rparr>) = Commitment_SigningHash P c" by (simp add: Commitment_SigningHash_def)
  then have "Commitment_Verify P (c\<lparr>cmHeight := h\<rparr>) = Commitment_Verify P c" "Commitment_From P (c\<lparr>cmHeight := h\<rparr>) = Commitment_From P c"
    by (simp_all add: Commitment_Verify_def Commitment_envelope_def Commitment_From_def fun_eq_iff)
  then show ?thesis using assms by (simp add: handle_commit_def Let_def result_simps)
qed


definition demo_commitment :: Commitment where
  "demo_commitment = \<lparr>cmNetwork = ZERONET, cmHeight = 4, cmHash = revealHash demo_vm demo_tx, cmFee = Some 1,
     cmSign = [3, 1] @ replicate 33 7 @ zeros 32\<rparr>"

lemma demo_commitment_vm:
  "Commitment_Verify demo_vm demo_commitment lookup = Inr ()" "Commitment_From demo_vm demo_commitment = Inr demo_sender"
proof -
  show "Commitment_Verify demo_vm demo_commitment lookup = Inr ()"
    by (simp add: Commitment_Verify_def Commitment_envelope_def envelope_def envelope_tags demo_commitment_def demo_vm_defs
        PubKeySize_def SigSize_def HasRecovery_def RecoverPubKey_def VerifyHashSig_def scheme_defs Let_def)
  show "Commitment_From demo_vm demo_commitment = Inr demo_sender"
    by (simp add: Commitment_From_def envelope_from_def envelope_def envelope_tags demo_commitment_def demo_vm_defs demo_sender_def
        PubKeySize_def SigSize_def HasRecovery_def RecoverPubKey_def VerifyHashSig_def scheme_defs Let_def)
qed


end
