(* ===== verification/Spec2Isabelle.thy ===== *)
theory Spec2Isabelle
  imports Nesting Node Replay
begin

text \<open>
  A verification development of ngcore.
\<close>

end
